(* ===== verification/Prelude.thy ===== *)
theory Prelude
  imports Main "HOL-Library.Word" "HOL-Library.Multiset" "HOL-Library.AList"
begin

text \<open>
  What every component of the development shares.

  \<^item> Errors and results: the error codes of
    \<^verbatim>\<open>internal/proto/vearchpb/errors.pb.go\<close> (\<open>ErrorEnum\<close>), the error values the Go code
    returns (\<open>go_error\<close>, with \<open>NewError\<close> of
    \<^verbatim>\<open>internal/proto/vearchpb/vearch_err.go\<close>), and the result type
    \<open>'a res = go_error + 'a\<close>. A Go panic is the error value \<open>GoPanic\<close>, so a function that
    indexes out of range or dereferences nil has that branch in its model.
    Messages carry the constant text of the source's format string; the values formatted
    into it are not rendered.
  \<^item> Sequencing of results (\<open>bind_res\<close>) and Go indexing (\<open>go_index\<close>).
  \<^item> Signed 64-bit wrap-around (\<open>int64\<close>).
  \<^item> Go maps that are ranged over, as association lists (\<open>gomap\<close>).
  \<^item> Generic lemmas on lists that several components use.

  The collections \<open>res_simps\<close> (case analysis of results) and \<open>list_lemmas\<close> carry the
  component proofs.
\<close>

named_theorems res_simps "inversion of results and of their sequencing"
named_theorems list_lemmas "generic facts on lists shared by the components"

section \<open>Error codes and error values\<close>

datatype ErrorEnum =
    SUCCESS | INTERNAL_ERROR | UNKNOWN_ERROR | AUTHENTICATION_FAILED | RECOVER | TIMEOUT
  | PARAM_ERROR | CONFIG_ERROR | CANCELED
  | MASTER_PS_NOT_ENOUGH_SELECT
  | ROUTER_NO_PS_CLIENT | ROUTER_CALL_PS_RPC_ERR | ROUTER_MEMORY_EXCEEDED
  | PARTITION_EXIST | PARTITION_NOT_EXIST | PARTITION_NOT_LEADER | PARTITION_NO_LEADER
  | PARTITION_IS_INVALID | PARTITION_IS_CLOSED | PARTITION_RESOURCE_EXHAUSTED
  | PARTITION_SERVER_NOT_EXIST | PARTITION_SERVER_ERROR | PARTITION_SERVER_MEMORYEXCEED
  | USER_NOT_EXIST | USER_EXIST | ROLE_NOT_EXIST | ROLE_EXIST
  | DB_NOT_EXIST | DB_EXIST | DB_NOT_EMPTY
  | SPACE_EXIST | SPACE_NOT_EXIST | ALIAS_NOT_EXIST | ALIAS_EXIST
  | DOCUMENT_NOT_EXIST | PRIMARY_KEY_IS_INVALID
  | CREATE_RPCCLIENT_FAILED | CALL_RPCCLIENT_FAILED

text \<open>
  The codes above are the ones the modelled code uses; \<open>ErrorEnum_name\<close> is the table of
  their names.
\<close>

fun ErrorEnum_name :: "ErrorEnum \<Rightarrow> string" where
  "ErrorEnum_name SUCCESS = ''SUCCESS''"
| "ErrorEnum_name INTERNAL_ERROR = ''INTERNAL_ERROR''"
| "ErrorEnum_name UNKNOWN_ERROR = ''UNKNOWN_ERROR''"
| "ErrorEnum_name AUTHENTICATION_FAILED = ''AUTHENTICATION_FAILED''"
| "ErrorEnum_name RECOVER = ''RECOVER''"
| "ErrorEnum_name TIMEOUT = ''TIMEOUT''"
| "ErrorEnum_name PARAM_ERROR = ''PARAM_ERROR''"
| "ErrorEnum_name CONFIG_ERROR = ''CONFIG_ERROR''"
| "ErrorEnum_name CANCELED = ''CANCELED''"
| "ErrorEnum_name MASTER_PS_NOT_ENOUGH_SELECT = ''MASTER_PS_NOT_ENOUGH_SELECT''"
| "ErrorEnum_name ROUTER_NO_PS_CLIENT = ''ROUTER_NO_PS_CLIENT''"
| "ErrorEnum_name ROUTER_CALL_PS_RPC_ERR = ''ROUTER_CALL_PS_RPC_ERR''"
| "ErrorEnum_name ROUTER_MEMORY_EXCEEDED = ''ROUTER_MEMORY_EXCEEDED''"
| "ErrorEnum_name PARTITION_EXIST = ''PARTITION_EXIST''"
| "ErrorEnum_name PARTITION_NOT_EXIST = ''PARTITION_NOT_EXIST''"
| "ErrorEnum_name PARTITION_NOT_LEADER = ''PARTITION_NOT_LEADER''"
| "ErrorEnum_name PARTITION_NO_LEADER = ''PARTITION_NO_LEADER''"
| "ErrorEnum_name PARTITION_IS_INVALID = ''PARTITION_IS_INVALID''"
| "ErrorEnum_name PARTITION_IS_CLOSED = ''PARTITION_IS_CLOSED''"
| "ErrorEnum_name PARTITION_RESOURCE_EXHAUSTED = ''PARTITION_RESOURCE_EXHAUSTED''"
| "ErrorEnum_name PARTITION_SERVER_NOT_EXIST = ''PARTITION_SERVER_NOT_EXIST''"
| "ErrorEnum_name PARTITION_SERVER_ERROR = ''PARTITION_SERVER_ERROR''"
| "ErrorEnum_name PARTITION_SERVER_MEMORYEXCEED = ''PARTITION_SERVER_MEMORYEXCEED''"
| "ErrorEnum_name USER_NOT_EXIST = ''USER_NOT_EXIST''"
| "ErrorEnum_name USER_EXIST = ''USER_EXIST''"
| "ErrorEnum_name ROLE_NOT_EXIST = ''ROLE_NOT_EXIST''"
| "ErrorEnum_name ROLE_EXIST = ''ROLE_EXIST''"
| "ErrorEnum_name DB_NOT_EXIST = ''DB_NOT_EXIST''"
| "ErrorEnum_name DB_EXIST = ''DB_EXIST''"
| "ErrorEnum_name DB_NOT_EMPTY = ''DB_NOT_EMPTY''"
| "ErrorEnum_name SPACE_EXIST = ''SPACE_EXIST''"
| "ErrorEnum_name SPACE_NOT_EXIST = ''SPACE_NOT_EXIST''"
| "ErrorEnum_name ALIAS_NOT_EXIST = ''ALIAS_NOT_EXIST''"
| "ErrorEnum_name ALIAS_EXIST = ''ALIAS_EXIST''"
| "ErrorEnum_name DOCUMENT_NOT_EXIST = ''DOCUMENT_NOT_EXIST''"
| "ErrorEnum_name PRIMARY_KEY_IS_INVALID = ''PRIMARY_KEY_IS_INVALID''"
| "ErrorEnum_name CREATE_RPCCLIENT_FAILED = ''CREATE_RPCCLIENT_FAILED''"
| "ErrorEnum_name CALL_RPCCLIENT_FAILED = ''CALL_RPCCLIENT_FAILED''"

text \<open>
  \<open>VErr\<close> is a \<^verbatim>\<open>*vearchpb.VearchErr\<close> with its code and message, \<open>GoErr\<close> any other error
  value, \<open>GoPanic\<close> a run-time panic.
\<close>

datatype go_error = VErr ErrorEnum string | GoErr string | GoPanic string

type_synonym 'a res = "go_error + 'a"

text \<open>\<^verbatim>\<open>strings.ToLower\<close> on the ASCII names of the codes, and \<^verbatim>\<open>strings.HasPrefix\<close>.\<close>

definition lower_char :: "char \<Rightarrow> char" where
  "lower_char c =
     (let n = (of_char c :: nat) in if 65 \<le> n \<and> n \<le> 90 then char_of (n + 32) else c)"

definition ToLower :: "string \<Rightarrow> string" where
  "ToLower s = map lower_char s"

definition HasPrefix :: "string \<Rightarrow> string \<Rightarrow> bool" where
  "HasPrefix s p = (take (length p) s = p)"

definition ErrMsg :: "ErrorEnum \<Rightarrow> string" where
  "ErrMsg code = ToLower (ErrorEnum_name code)"

fun NewError :: "ErrorEnum \<Rightarrow> go_error option \<Rightarrow> go_error" where
  "NewError code None = VErr code (ErrMsg code)"
| "NewError code (Some (VErr c m)) = VErr c m"
| "NewError code (Some (GoErr m)) =
     (if HasPrefix m (ErrMsg code) then VErr code m
      else VErr code (ErrMsg code @ '':'' @ m))"
| "NewError code (Some (GoPanic m)) = GoPanic m"

text \<open>The code of an error value, as \<^verbatim>\<open>GetError().Code\<close> reads it.\<close>

fun err_code :: "go_error \<Rightarrow> ErrorEnum option" where
  "err_code (VErr c m) = Some c"
| "err_code (GoErr m) = None"
| "err_code (GoPanic m) = None"

abbreviation param_err :: "string \<Rightarrow> go_error" where
  "param_err m \<equiv> NewError PARAM_ERROR (Some (GoErr m))"

lemma err_code_NewError_None [simp]: "err_code (NewError c None) = Some c"
  by simp

lemma err_code_NewError_GoErr [simp]: "err_code (NewError c (Some (GoErr m))) = Some c"
  by simp

declare NewError.simps(3) [simp del]

lemma NewError_GoErr_not_panic [simp]:
  "NewError c (Some (GoErr m)) \<noteq> GoPanic p" "GoPanic p \<noteq> NewError c (Some (GoErr m))"
  by (simp_all add: NewError.simps(3))

section \<open>Sequencing of results\<close>

definition bind_res :: "'a res \<Rightarrow> ('a \<Rightarrow> 'b res) \<Rightarrow> 'b res" where
  "bind_res m f = (case m of Inl e \<Rightarrow> Inl e | Inr x \<Rightarrow> f x)"

lemma bind_res_simps [simp]:
  "bind_res (Inl e) f = Inl e"
  "bind_res (Inr x) f = f x"
  by (simp_all add: bind_res_def)

lemma bind_res_cong [fundef_cong]:
  "m = m' \<Longrightarrow> (\<And>x. m' = Inr x \<Longrightarrow> f x = f' x) \<Longrightarrow> bind_res m f = bind_res m' f'"
  by (cases m') auto

lemma bind_res_Inr_iff [res_simps]:
  "bind_res m f = Inr y \<longleftrightarrow> (\<exists>x. m = Inr x \<and> f x = Inr y)"
  by (cases m) auto

lemma bind_res_Inl_iff [res_simps]:
  "bind_res m f = Inl e \<longleftrightarrow> m = Inl e \<or> (\<exists>x. m = Inr x \<and> f x = Inl e)"
  by (cases m) auto

text \<open>A guard: the early return \<^verbatim>\<open>if b { return err }\<close>.\<close>

definition guard :: "bool \<Rightarrow> go_error \<Rightarrow> unit res" where
  "guard b e = (if b then Inl e else Inr ())"

lemma guard_simps [simp]:
  "guard True e = Inl e"
  "guard False e = Inr ()"
  by (simp_all add: guard_def)

lemma guard_Inr_iff [res_simps]: "guard b e = Inr u \<longleftrightarrow> \<not> b"
  by (cases b) auto

lemma guard_Inl_iff [res_simps]: "guard b e = Inl e' \<longleftrightarrow> b \<and> e' = e"
  by (cases b) auto

text \<open>The loop \<^verbatim>\<open>for _, x := range xs { if err := f(x); err != nil { return err } }\<close>.\<close>

fun each_res :: "('a \<Rightarrow> unit res) \<Rightarrow> 'a list \<Rightarrow> unit res" where
  "each_res f [] = Inr ()"
| "each_res f (x # xs) = bind_res (f x) (\<lambda>_. each_res f xs)"

lemma each_res_Inr_iff [res_simps]: "each_res f xs = Inr u \<longleftrightarrow> (\<forall>x \<in> set xs. f x = Inr ())"
  by (induction xs) (auto simp: res_simps)

lemma each_res_Inl: "each_res f xs = Inl e \<Longrightarrow> \<exists>x \<in> set xs. f x = Inl e"
  by (induction xs) (auto simp: res_simps)

text \<open>The loop that appends \<open>f x\<close> for every element and returns at the first error.\<close>

fun map_res :: "('a \<Rightarrow> 'b res) \<Rightarrow> 'a list \<Rightarrow> ('b list) res" where
  "map_res f [] = Inr []"
| "map_res f (x # xs) = bind_res (f x) (\<lambda>y. bind_res (map_res f xs) (\<lambda>ys. Inr (y # ys)))"

lemma map_res_Inr_iff [res_simps]:
  "map_res f xs = Inr ys \<longleftrightarrow> list_all2 (\<lambda>x y. f x = Inr y) xs ys"
  by (induction xs arbitrary: ys) (auto simp: res_simps list_all2_Cons1)

lemma map_res_Inr: "(\<And>x. x \<in> set xs \<Longrightarrow> f x = Inr (g x)) \<Longrightarrow> map_res f xs = Inr (map g xs)"
  by (induction xs) auto

lemma map_res_cong [fundef_cong]:
  "xs = ys \<Longrightarrow> (\<And>x. x \<in> set ys \<Longrightarrow> f x = g x) \<Longrightarrow> map_res f xs = map_res g ys"
  by (induction xs arbitrary: ys) auto

section \<open>Go indexing and 64-bit integers\<close>

text \<open>\<open>go_index\<close> is \<open>xs[i]\<close>: it panics outside \<open>0 .. len(xs) - 1\<close>.\<close>

definition go_index :: "'a list \<Rightarrow> int \<Rightarrow> 'a res" where
  "go_index xs i =
     (if 0 \<le> i \<and> i < int (length xs) then Inr (xs ! nat i)
      else Inl (GoPanic ''index out of range''))"

lemma go_index_nat [simp]:
  "go_index xs (int n) =
     (if n < length xs then Inr (xs ! n) else Inl (GoPanic ''index out of range''))"
  by (simp add: go_index_def)

lemma go_index_Inr_iff [res_simps]:
  "go_index xs i = Inr x \<longleftrightarrow> 0 \<le> i \<and> i < int (length xs) \<and> x = xs ! nat i"
  by (auto simp: go_index_def)

text \<open>The value of a Go \<^verbatim>\<open>int64\<close> (or \<^verbatim>\<open>int\<close>) expression whose exact value is \<open>x\<close>.\<close>

definition int64 :: "int \<Rightarrow> int" where
  "int64 x = (x + 2 ^ 63) mod 2 ^ 64 - 2 ^ 63"

lemma int64_id [simp]: "- (2 ^ 63) \<le> x \<Longrightarrow> x < 2 ^ 63 \<Longrightarrow> int64 x = x"
  unfolding int64_def by (subst mod_pos_pos_trivial) simp_all

lemma int64_range: "- (2 ^ 63) \<le> int64 x" "int64 x < 2 ^ 63"
  unfolding int64_def
  using pos_mod_sign [of "2 ^ 64" "x + 2 ^ 63"] pos_mod_bound [of "2 ^ 64" "x + 2 ^ 63"]
  by simp_all

lemma unat_bounds:
  "unat (a :: 8 word) < 256" "unat (b :: 32 word) < 4294967296"
  "unat (c :: 64 word) < 18446744073709551616"
  using unsigned_less [of a, where ?'a = nat] unsigned_less [of b, where ?'a = nat]
    unsigned_less [of c, where ?'a = nat]
  by simp_all

section \<open>Go maps\<close>

text \<open>
  A Go map that the code ranges over is an association list with distinct keys, in the
  order in which \<^verbatim>\<open>range\<close> happens to visit it. Lookup is \<open>map_of\<close>, assignment
  \<open>AList.update\<close>, \<^verbatim>\<open>delete\<close> is \<open>AList.delete\<close>. A map that is only looked up and updated is
  a HOL map.
\<close>

type_synonym ('k, 'v) gomap = "('k \<times> 'v) list"

abbreviation gomap_ok :: "('k, 'v) gomap \<Rightarrow> bool" where
  "gomap_ok m \<equiv> distinct (map fst m)"

lemmas gomap_simps = update_conv' delete_conv' distinct_update distinct_delete

section \<open>Lists\<close>

lemma HasPrefix_iff: "HasPrefix s p \<longleftrightarrow> (\<exists>t. s = p @ t)"
  unfolding HasPrefix_def by (metis append_eq_conv_conj append_take_drop_id)

lemma HasPrefix_append [simp]: "HasPrefix (p @ s) p"
  by (simp add: HasPrefix_def)

lemma mset_take_drop: "mset (take n xs) + mset (drop n xs) = mset xs"
  by (metis append_take_drop_id mset_append)

lemma takeWhile_sep_append:
  "c \<notin> set xs \<Longrightarrow> takeWhile (\<lambda>x. x \<noteq> c) (xs @ c # ys) = xs"
  by (induction xs) auto

text \<open>Two paths with a separator that the first segments do not contain.\<close>

lemma sep_append_inject [list_lemmas]:
  assumes "c \<notin> set xs" and "c \<notin> set xs'"
  shows "xs @ c # ys = xs' @ c # ys' \<longleftrightarrow> xs = xs' \<and> ys = ys'"
proof
  assume eq: "xs @ c # ys = xs' @ c # ys'"
  then have "takeWhile (\<lambda>x. x \<noteq> c) (xs @ c # ys) = takeWhile (\<lambda>x. x \<noteq> c) (xs' @ c # ys')"
    by simp
  with assms have "xs = xs'" by (simp only: takeWhile_sep_append not_False_eq_True)
  with eq show "xs = xs' \<and> ys = ys'" by simp
qed simp

end
