(* ===== verification/GoLib.thy ===== *)
theory GoLib
  imports Complex_Main Prelude
begin

text \<open>
  The parts of the Go language and its standard library that the modelled code uses:
  \<^item> \<^verbatim>\<open>strings.Contains\<close>, \<^verbatim>\<open>strings.EqualFold\<close> (\<open>Contains\<close>, \<open>EqualFold\<close>);
  \<^item> \<^verbatim>\<open>strconv.FormatInt\<close>, \<^verbatim>\<open>strconv.ParseInt\<close> in base 10 (\<open>FormatInt\<close>, \<open>ParseInt\<close>),
    also behind \<^verbatim>\<open>fmt.Sprintf("%d")\<close>, with their round trip and the injectivity of
    decimal text;
  \<^item> the conversion \<^verbatim>\<open>[]rune(s)\<close>, which decodes UTF-8 (\<open>runes\<close>), and
    \<^verbatim>\<open>unicode.IsNumber\<close> (\<open>IsNumber\<close>); the category table beyond Latin-1 is the parameter
    \<open>nt\<close>;
  \<^item> \<^verbatim>\<open>float64\<close> values with the comparisons and the sign of a difference
    (\<open>float64\<close>, \<open>f_lt\<close>, \<open>f_cmp\<close>); a finite value is its exact rational value;
  \<^item> \<^verbatim>\<open>sort.Slice\<close>, which promises a sorted permutation and no stability: the interface
    \<open>go_sort\<close>, interpreted on the insertion sort that the library runs on short slices
    (\<open>insertion_sort\<close>).
\<close>

section \<open>Strings\<close>

text \<open>A Go string is its bytes, a \<open>char list\<close>.\<close>

fun Contains :: "string \<Rightarrow> string \<Rightarrow> bool" where
  "Contains [] sub = (sub = [])"
| "Contains (c # s) sub = (HasPrefix (c # s) sub \<or> Contains s sub)"

lemma Contains_iff: "Contains s sub \<longleftrightarrow> (\<exists>a b. s = a @ sub @ b)"
proof (induction s)
  case Nil
  then show ?case by auto
next
  case (Cons c s)
  have "(\<exists>a b. c # s = a @ sub @ b) \<longleftrightarrow>
      (\<exists>b. c # s = sub @ b) \<or> (\<exists>a b. s = a @ sub @ b)"
    by (metis append_Cons append_Nil neq_Nil_conv list.inject)
  then show ?case
    by (simp add: Cons.IH HasPrefix_iff)
qed

text \<open>
  \<^verbatim>\<open>strings.EqualFold(s, t)\<close> for a \<open>t\<close> without letters that have a non-ASCII case variant
  (\<open>k\<close> and \<open>s\<close> have one). The code only calls it with \<^verbatim>\<open>"root"\<close>.
\<close>

definition EqualFold :: "string \<Rightarrow> string \<Rightarrow> bool" where
  "EqualFold s t = (ToLower s = ToLower t)"

section \<open>Decimal text\<close>

definition digit_char :: "nat \<Rightarrow> char" where
  "digit_char d = char_of (48 + d)"

fun FormatNat :: "nat \<Rightarrow> string" where
  "FormatNat n =
     (if n < 10 then [digit_char n] else FormatNat (n div 10) @ [digit_char (n mod 10)])"

declare FormatNat.simps [simp del]

definition FormatInt :: "int \<Rightarrow> string" where
  "FormatInt i = (if i < 0 then CHR ''-'' # FormatNat (nat (- i)) else FormatNat (nat i))"

definition is_digit :: "char \<Rightarrow> bool" where
  "is_digit c = (48 \<le> (of_char c :: nat) \<and> (of_char c :: nat) \<le> 57)"

fun ParseDigits :: "nat \<Rightarrow> string \<Rightarrow> nat option" where
  "ParseDigits acc [] = Some acc"
| "ParseDigits acc (c # s) =
     (if is_digit c then ParseDigits (acc * 10 + (of_char c - 48)) s else None)"

text \<open>\<^verbatim>\<open>strconv.ParseInt(s, 10, 64)\<close>.\<close>

definition ParseInt :: "string \<Rightarrow> int res" where
  "ParseInt s =
     (let neg = (s \<noteq> [] \<and> hd s = CHR ''-'');
          body = (if s \<noteq> [] \<and> (hd s = CHR ''-'' \<or> hd s = CHR ''+'') then tl s else s)
      in if body = [] then Inl (GoErr ''invalid syntax'')
         else case ParseDigits 0 body of
           None \<Rightarrow> Inl (GoErr ''invalid syntax'')
         | Some n \<Rightarrow>
             let v = (if neg then - int n else int n)
             in if - (2 ^ 63) \<le> v \<and> v < 2 ^ 63 then Inr v
                else Inl (GoErr ''value out of range''))"

lemma of_char_digit_char [simp]: "d < 10 \<Longrightarrow> of_char (digit_char d) = 48 + d"
  by (simp add: digit_char_def)

lemma is_digit_digit_char [simp]: "d < 10 \<Longrightarrow> is_digit (digit_char d)"
  by (simp add: is_digit_def)

lemma set_FormatNat: "c \<in> set (FormatNat n) \<Longrightarrow> is_digit c"
proof (induction n rule: FormatNat.induct)
  case (1 n)
  then show ?case
    by (cases "n < 10") (auto simp: FormatNat.simps [of n])
qed

lemma FormatNat_not_Nil [simp]: "FormatNat n \<noteq> []"
  by (subst FormatNat.simps) simp

lemma ParseDigits_append:
  "ParseDigits acc (s @ t) =
     (case ParseDigits acc s of None \<Rightarrow> None | Some a \<Rightarrow> ParseDigits a t)"
  by (induction acc s rule: ParseDigits.induct) auto

lemma ParseDigits_FormatNat [simp]: "ParseDigits 0 (FormatNat n) = Some n"
proof (induction n rule: FormatNat.induct)
  case (1 n)
  then show ?case
    by (cases "n < 10") (auto simp: FormatNat.simps [of n] ParseDigits_append)
qed

lemma is_digit_not_sign:
  "is_digit c \<Longrightarrow> c \<noteq> CHR ''-''" "is_digit c \<Longrightarrow> c \<noteq> CHR ''+''" "is_digit c \<Longrightarrow> c \<noteq> CHR ''/''"
  by (auto simp: is_digit_def)

lemma hd_FormatNat: "is_digit (hd (FormatNat n))"
  by (rule set_FormatNat [of _ n]) simp

lemma hd_FormatNat_not_sign [simp]:
  "hd (FormatNat n) \<noteq> CHR ''-''" "hd (FormatNat n) \<noteq> CHR ''+''"
  using is_digit_not_sign [OF hd_FormatNat] by auto

lemma FormatNat_inject [simp]: "FormatNat m = FormatNat n \<longleftrightarrow> m = n"
  by (metis ParseDigits_FormatNat option.inject)

lemma FormatNat_not_minus [simp]:
  "FormatNat m \<noteq> CHR ''-'' # s" "CHR ''-'' # s \<noteq> FormatNat m"
  by (metis hd_FormatNat_not_sign(1) list.sel(1))+

lemma FormatInt_inject [simp]: "FormatInt i = FormatInt j \<longleftrightarrow> i = j"
  by (auto simp: FormatInt_def)

lemma FormatInt_no_slash [simp]: "CHR ''/'' \<notin> set (FormatInt i)"
  by (auto simp: FormatInt_def dest: set_FormatNat is_digit_not_sign(3))

lemma FormatNat_no_slash [simp]: "CHR ''/'' \<notin> set (FormatNat n)"
  by (auto dest: set_FormatNat is_digit_not_sign(3))

lemma FormatInt_not_Nil [simp]: "FormatInt i \<noteq> []"
  by (simp add: FormatInt_def)

lemma ParseInt_FormatInt:
  assumes "- (2 ^ 63) \<le> i" and "i < 2 ^ 63"
  shows "ParseInt (FormatInt i) = Inr i"
  using assms by (auto simp: ParseInt_def FormatInt_def Let_def)

lemma ParseInt_range:
  "ParseInt s = Inr v \<Longrightarrow> - (2 ^ 63) \<le> v \<and> v < 2 ^ 63"
  by (auto simp: ParseInt_def Let_def split: if_splits option.splits)

section \<open>Runes\<close>

text \<open>
  \<^verbatim>\<open>[]rune(s)\<close>: UTF-8 decoding as \<^verbatim>\<open>unicode/utf8\<close> does it. A byte that does not start a
  well-formed sequence gives U+FFFD and decoding goes on at the next byte.
\<close>

definition cont :: "nat \<Rightarrow> nat \<Rightarrow> char \<Rightarrow> bool" where
  "cont lo hi c = (lo \<le> (of_char c :: nat) \<and> (of_char c :: nat) \<le> hi)"

text \<open>How many bytes the sequence at the front of the string takes, and its code point.\<close>

definition decode_rune :: "char \<Rightarrow> string \<Rightarrow> nat \<times> nat" where
  "decode_rune c s =
     (let b = (of_char c :: nat); bit = (\<lambda>d. (of_char d :: nat) mod 64) in
      if b < 128 then (0, b)
      else if 194 \<le> b \<and> b \<le> 223 then
        (case s of c1 # _ \<Rightarrow> if cont 128 191 c1 then (1, (b mod 32) * 64 + bit c1) else (0, 65533)
         | _ \<Rightarrow> (0, 65533))
      else if 224 \<le> b \<and> b \<le> 239 then
        (case s of c1 # c2 # _ \<Rightarrow>
           if cont (if b = 224 then 160 else 128) (if b = 237 then 159 else 191) c1 \<and> cont 128 191 c2
           then (2, (b mod 16) * 4096 + bit c1 * 64 + bit c2) else (0, 65533)
         | _ \<Rightarrow> (0, 65533))
      else if 240 \<le> b \<and> b \<le> 244 then
        (case s of c1 # c2 # c3 # _ \<Rightarrow>
           if cont (if b = 240 then 144 else 128) (if b = 244 then 143 else 191) c1
              \<and> cont 128 191 c2 \<and> cont 128 191 c3
           then (3, (b mod 8) * 262144 + bit c1 * 4096 + bit c2 * 64 + bit c3) else (0, 65533)
         | _ \<Rightarrow> (0, 65533))
      else (0, 65533))"

fun runes :: "string \<Rightarrow> nat list" where
  "runes [] = []"
| "runes (c # s) = (case decode_rune c s of (k, r) \<Rightarrow> r # runes (drop k s))"

declare runes.simps(2) [simp del]

text \<open>The bytes that a multi-byte sequence takes after its first one are continuation bytes.\<close>

lemma decode_rune_cont:
  assumes "decode_rune c s = (k, r)" and "d \<in> set (take k s)"
  shows "128 \<le> (of_char d :: nat)"
  using assms
  by (auto simp: decode_rune_def Let_def cont_def split: if_splits list.splits)

lemma decode_rune_ascii:
  "(of_char c :: nat) < 128 \<Longrightarrow> decode_rune c s = (0, of_char c)"
  by (simp add: decode_rune_def)

text \<open>Every ASCII byte of a string is one of its runes.\<close>

lemma ascii_in_runes:
  "c \<in> set s \<Longrightarrow> (of_char c :: nat) < 128 \<Longrightarrow> of_char c \<in> set (runes s)"
proof (induction s rule: runes.induct)
  case 1
  then show ?case by simp
next
  case (2 d s)
  obtain k r where dec: "decode_rune d s = (k, r)" by force
  show ?case
  proof (cases "c = d")
    case True
    with "2.prems"(2) have "decode_rune d s = (0, of_char c)"
      using decode_rune_ascii [of d s] by simp
    then show ?thesis by (simp add: runes.simps(2))
  next
    case False
    with "2.prems"(1) have "c \<in> set (take k s @ drop k s)"
      by simp
    then have "c \<in> set (take k s) \<or> c \<in> set (drop k s)"
      by (metis Un_iff set_append)
    then have "c \<in> set (drop k s)"
      using decode_rune_cont [OF dec] "2.prems"(2) by force
    then have "of_char c \<in> set (runes (drop k s))"
      using "2.IH" [OF dec [symmetric]] "2.prems"(2) by simp
    then show ?thesis by (simp add: runes.simps(2) dec)
  qed
qed

lemma runes_Nil_iff [simp]: "runes s = [] \<longleftrightarrow> s = []"
  by (cases s) (simp_all add: runes.simps(2) split: prod.splits)

text \<open>\<^verbatim>\<open>unicode.IsNumber\<close>: Latin-1 by its table, other code points by the parameter.\<close>

definition IsNumber :: "(nat \<Rightarrow> bool) \<Rightarrow> nat \<Rightarrow> bool" where
  "IsNumber nt r =
     (if r \<le> 255 then (48 \<le> r \<and> r \<le> 57) \<or> r \<in> {178, 179, 185, 188, 189, 190} else nt r)"

section \<open>Floating-point values\<close>

text \<open>
  A \<^verbatim>\<open>float64\<close> is NaN, an infinity or a finite number, which is given by its exact value (the
  two zeros compare equal and are one value here). Comparisons with NaN are false.
  \<open>f_cmp a b\<close> is the sign of the computed difference \<^verbatim>\<open>a - b\<close>, as a
  \<^verbatim>\<open>switch { case c > 0: ... case c < 0: ... default: ... }\<close> reads it: subtraction has gradual
  underflow, so the difference of two different finite numbers is not zero, and
  \<^verbatim>\<open>Inf - Inf\<close> is NaN, which takes the default branch.
\<close>

datatype float64 = NaN | MInf | PInf | Num rat

fun f_lt :: "float64 \<Rightarrow> float64 \<Rightarrow> bool" where
  "f_lt NaN b = False"
| "f_lt MInf b = (case b of Num q \<Rightarrow> True | PInf \<Rightarrow> True | _ \<Rightarrow> False)"
| "f_lt PInf b = False"
| "f_lt (Num p) b = (case b of Num q \<Rightarrow> p < q | PInf \<Rightarrow> True | _ \<Rightarrow> False)"

definition f_cmp :: "float64 \<Rightarrow> float64 \<Rightarrow> int" where
  "f_cmp a b = (if f_lt b a then 1 else if f_lt a b then - 1 else 0)"

lemma f_lt_irrefl [simp]: "\<not> f_lt a a"
  by (cases a) simp_all

lemma f_lt_trans: "f_lt a b \<Longrightarrow> f_lt b c \<Longrightarrow> f_lt a c"
  by (cases a; cases b; cases c) auto

lemma f_lt_asym: "f_lt a b \<Longrightarrow> \<not> f_lt b a"
  using f_lt_trans f_lt_irrefl by blast

lemma f_lt_NaN [simp]: "\<not> f_lt a NaN"
  by (cases a) simp_all

lemma f_lt_linear: "a \<noteq> NaN \<Longrightarrow> b \<noteq> NaN \<Longrightarrow> f_lt a b \<or> a = b \<or> f_lt b a"
  by (cases a; cases b) auto

lemma f_lt_negtrans: "b \<noteq> NaN \<Longrightarrow> f_lt a c \<Longrightarrow> f_lt a b \<or> f_lt b c"
  by (cases a; cases b; cases c) auto

section \<open>Sorting slices\<close>

definition strict_weak :: "('a \<Rightarrow> 'a \<Rightarrow> bool) \<Rightarrow> 'a set \<Rightarrow> bool" where
  "strict_weak lt A \<longleftrightarrow>
     (\<forall>x \<in> A. \<forall>y \<in> A. lt x y \<longrightarrow> \<not> lt y x) \<and>
     (\<forall>x \<in> A. \<forall>y \<in> A. \<forall>z \<in> A. lt x z \<longrightarrow> lt x y \<or> lt y z)"

text \<open>
  What \<^verbatim>\<open>sort.Slice\<close> promises: a permutation, and no element before a smaller one when the
  comparison is a strict weak order. Equal elements come in any order.
\<close>

locale go_sort =
  fixes sort_slice :: "('a \<Rightarrow> 'a \<Rightarrow> bool) \<Rightarrow> 'a list \<Rightarrow> 'a list"
  assumes sort_mset: "mset (sort_slice lt xs) = mset xs"
    and sort_sorted:
      "strict_weak lt (set xs) \<Longrightarrow> sorted_wrt (\<lambda>x y. \<not> lt y x) (sort_slice lt xs)"
begin

lemma sort_set [simp]: "set (sort_slice lt xs) = set xs"
  by (metis sort_mset set_mset_mset)

lemma sort_length [simp]: "length (sort_slice lt xs) = length xs"
  by (metis sort_mset size_mset)

text \<open>A prefix of the sorted slice holds elements that no element after it is less than.\<close>

lemma sort_take_best:
  assumes "strict_weak lt (set xs)"
    and "x \<in> set (take n (sort_slice lt xs))" and "y \<in> set (drop n (sort_slice lt xs))"
  shows "\<not> lt y x"
proof -
  have "sorted_wrt (\<lambda>x y. \<not> lt y x)
      (take n (sort_slice lt xs) @ drop n (sort_slice lt xs))"
    using sort_sorted [OF assms(1)] by simp
  with assms(2,3) show ?thesis
    unfolding sorted_wrt_append by blast
qed

end

text \<open>
  The insertion sort of the library: the element at \<open>i\<close> moves left past the elements it is
  less than. The sorted part is kept reversed here, so that moving left is moving into it.
\<close>

fun insert_left :: "('a \<Rightarrow> 'a \<Rightarrow> bool) \<Rightarrow> 'a \<Rightarrow> 'a list \<Rightarrow> 'a list" where
  "insert_left lt x [] = [x]"
| "insert_left lt x (y # ys) = (if lt x y then y # insert_left lt x ys else x # y # ys)"

definition insertion_sort :: "('a \<Rightarrow> 'a \<Rightarrow> bool) \<Rightarrow> 'a list \<Rightarrow> 'a list" where
  "insertion_sort lt xs = rev (foldl (\<lambda>acc x. insert_left lt x acc) [] xs)"

lemma mset_insert_left [simp]: "mset (insert_left lt x ys) = add_mset x (mset ys)"
  by (induction ys) auto

lemma set_insert_left [simp]: "set (insert_left lt x ys) = insert x (set ys)"
  by (metis mset_insert_left set_mset_add_mset_insert set_mset_mset)

lemma sorted_insert_left:
  assumes "strict_weak lt (insert x (set ys))" and "sorted_wrt (\<lambda>a b. \<not> lt a b) ys"
  shows "sorted_wrt (\<lambda>a b. \<not> lt a b) (insert_left lt x ys)"
  using assms
proof (induction ys)
  case Nil
  then show ?case by simp
next
  case (Cons y ys)
  have sub: "strict_weak lt (insert x (set ys))"
    using Cons.prems(1) by (simp add: strict_weak_def)
  show ?case
  proof (cases "lt x y")
    case True
    then have "\<not> lt y x"
      using Cons.prems(1) by (simp add: strict_weak_def)
    with True Cons.IH [OF sub] Cons.prems(2) show ?thesis by simp
  next
    case False
    have "\<not> lt x z" if "z \<in> set ys" for z
    proof
      assume "lt x z"
      with Cons.prems(1) that have "lt x y \<or> lt y z"
        by (simp add: strict_weak_def)
      with False Cons.prems(2) that show False by simp
    qed
    with False Cons.prems(2) show ?thesis by simp
  qed
qed

lemma insertion_sort_fold:
  assumes "strict_weak lt (set acc \<union> set xs)" and "sorted_wrt (\<lambda>a b. \<not> lt a b) acc"
  shows "mset (foldl (\<lambda>acc x. insert_left lt x acc) acc xs) = mset acc + mset xs \<and>
    sorted_wrt (\<lambda>a b. \<not> lt a b) (foldl (\<lambda>acc x. insert_left lt x acc) acc xs)"
  using assms
proof (induction xs arbitrary: acc)
  case Nil
  then show ?case by simp
next
  case (Cons x xs)
  have "strict_weak lt (insert x (set acc))"
    using Cons.prems(1) by (simp add: strict_weak_def)
  then have srt: "sorted_wrt (\<lambda>a b. \<not> lt a b) (insert_left lt x acc)"
    using Cons.prems(2) by (rule sorted_insert_left)
  have "strict_weak lt (set (insert_left lt x acc) \<union> set xs)"
    using Cons.prems(1) by simp
  from Cons.IH [OF this srt] show ?case by simp
qed

lemma mset_insertion_fold:
  "mset (foldl (\<lambda>acc x. insert_left lt x acc) acc xs) = mset acc + mset xs"
  by (induction xs arbitrary: acc) auto

interpretation insertion: go_sort insertion_sort
proof unfold_locales
  fix lt :: "'a \<Rightarrow> 'a \<Rightarrow> bool" and xs
  show "mset (insertion_sort lt xs) = mset xs"
    by (simp add: insertion_sort_def mset_insertion_fold)
  assume "strict_weak lt (set xs)"
  then have "sorted_wrt (\<lambda>a b. \<not> lt a b) (foldl (\<lambda>acc x. insert_left lt x acc) [] xs)"
    using insertion_sort_fold [of lt "[]" xs] by simp
  then show "sorted_wrt (\<lambda>x y. \<not> lt y x) (insertion_sort lt xs)"
    by (simp add: insertion_sort_def sorted_wrt_rev)
qed

end
