(* ===== verification/Meta.thy ===== *)
theory Meta
  imports GoLib
begin

text \<open>
  The names of the metadata keys in etcd: \<^verbatim>\<open>internal/entity/meta.go\<close>.

  The Go package keeps the key prefixes in variables that \<^verbatim>\<open>SetPrefixAndSequence\<close> rewrites
  once at start-up with the cluster's own prefix. \<open>key_space\<close> is the record of these
  variables, \<open>default_key_space\<close> their initial values, and every key function takes the
  record. The lemmas show that a key determines what it was made from, and that a scan by
  the prefix of one kind of object meets no key of another kind, for every cluster prefix.
\<close>

section \<open>The variables\<close>

record key_space =
  NodeIdSequence :: string
  SpaceIdSequence :: string
  DBIdSequence :: string
  PartitionIdSequence :: string
  PrefixUser :: string
  PrefixLock :: string
  PrefixLockCluster :: string
  PrefixServer :: string
  PrefixSpace :: string
  PrefixSpaceConfig :: string
  PrefixPartition :: string
  PrefixDataBase :: string
  PrefixDataBaseBody :: string
  PrefixFailServer :: string
  PrefixRouter :: string
  PrefixAlias :: string
  PrefixRole :: string
  PrefixMasterMember :: string
  PrefixEtcdClusterID :: string

definition default_key_space :: key_space where
  "default_key_space =
     \<lparr> NodeIdSequence = ''/id/node'', SpaceIdSequence = ''/id/space'', DBIdSequence = ''/id/db'',
       PartitionIdSequence = ''/id/partition'',
       PrefixUser = ''/user/'', PrefixLock = ''/lock/'', PrefixLockCluster = ''/lock/cluster'',
       PrefixServer = ''/server/'', PrefixSpace = ''/space/'',
       PrefixSpaceConfig = ''/space_config/'', PrefixPartition = ''/partition/'',
       PrefixDataBase = ''/db/'', PrefixDataBaseBody = ''/db/body/'',
       PrefixFailServer = ''/fail/server/'', PrefixRouter = ''/router/'',
       PrefixAlias = ''/alias/'', PrefixRole = ''/role/'', PrefixMasterMember = ''/member/'',
       PrefixEtcdClusterID = ''/vearch/default/'' \<rparr>"

definition SetPrefixAndSequence :: "string \<Rightarrow> key_space \<Rightarrow> key_space" where
  "SetPrefixAndSequence cluster_id k =
     (let c = (if HasPrefix cluster_id ''/'' then cluster_id else ''/'' @ cluster_id) in
      \<lparr> NodeIdSequence = c @ ''/id/node'', SpaceIdSequence = c @ ''/id/space'',
        DBIdSequence = c @ ''/id/db'', PartitionIdSequence = c @ ''/id/partition'',
        PrefixUser = c @ PrefixUser k, PrefixLock = c @ PrefixLock k,
        PrefixLockCluster = c @ PrefixLockCluster k, PrefixServer = c @ PrefixServer k,
        PrefixSpace = c @ PrefixSpace k, PrefixSpaceConfig = c @ PrefixSpaceConfig k,
        PrefixPartition = c @ PrefixPartition k, PrefixDataBase = c @ PrefixDataBase k,
        PrefixDataBaseBody = c @ PrefixDataBaseBody k, PrefixFailServer = c @ PrefixFailServer k,
        PrefixRouter = c @ PrefixRouter k, PrefixAlias = c @ PrefixAlias k,
        PrefixRole = c @ PrefixRole k, PrefixMasterMember = c @ PrefixMasterMember k,
        PrefixEtcdClusterID = c \<rparr>)"

section \<open>The keys\<close>

definition LockSpaceKey :: "key_space \<Rightarrow> string \<Rightarrow> string \<Rightarrow> string" where
  "LockSpaceKey k db space = PrefixLock k @ ''/'' @ db @ ''/'' @ space"

definition LockDBKey :: "key_space \<Rightarrow> string \<Rightarrow> string" where
  "LockDBKey k db = PrefixLock k @ ''/'' @ db"

definition ServerKey :: "key_space \<Rightarrow> 64 word \<Rightarrow> string" where
  "ServerKey k name = PrefixServer k @ FormatNat (unat name)"

definition SpaceKey :: "key_space \<Rightarrow> int \<Rightarrow> int \<Rightarrow> string" where
  "SpaceKey k dbID spaceId = PrefixSpace k @ FormatInt dbID @ ''/'' @ FormatInt spaceId"

definition SpaceConfigKey :: "key_space \<Rightarrow> int \<Rightarrow> int \<Rightarrow> string" where
  "SpaceConfigKey k dbID spaceId =
     PrefixSpaceConfig k @ FormatInt dbID @ ''/'' @ FormatInt spaceId"

definition PartitionKey :: "key_space \<Rightarrow> 32 word \<Rightarrow> string" where
  "PartitionKey k partitionID = PrefixPartition k @ FormatNat (unat partitionID)"

definition DBKeyId :: "key_space \<Rightarrow> int \<Rightarrow> string" where
  "DBKeyId k dbid = PrefixDataBase k @ ''id/'' @ FormatInt dbid"

definition DBKeyName :: "key_space \<Rightarrow> string \<Rightarrow> string" where
  "DBKeyName k name = PrefixDataBase k @ ''name/'' @ name"

definition DBKeyBody :: "key_space \<Rightarrow> int \<Rightarrow> string" where
  "DBKeyBody k dbid = PrefixDataBase k @ ''body/'' @ FormatInt dbid"

definition UserKey :: "key_space \<Rightarrow> string \<Rightarrow> string" where
  "UserKey k username = PrefixUser k @ username"

definition LockUserKey :: "key_space \<Rightarrow> string \<Rightarrow> string" where
  "LockUserKey k username = PrefixLock k @ username"

definition RoleKey :: "key_space \<Rightarrow> string \<Rightarrow> string" where
  "RoleKey k rolename = PrefixRole k @ rolename"

definition LockRoleKey :: "key_space \<Rightarrow> string \<Rightarrow> string" where
  "LockRoleKey k rolename = PrefixLock k @ rolename"

definition FailServerKey :: "key_space \<Rightarrow> 64 word \<Rightarrow> string" where
  "FailServerKey k nodeID = PrefixFailServer k @ FormatNat (unat nodeID)"

definition RouterKey :: "key_space \<Rightarrow> string \<Rightarrow> string \<Rightarrow> string" where
  "RouterKey k key val = PrefixRouter k @ key @ ''/'' @ val"

definition RouterConfigKey :: "key_space \<Rightarrow> string \<Rightarrow> string" where
  "RouterConfigKey k key = PrefixRouter k @ key"

definition AliasKey :: "key_space \<Rightarrow> string \<Rightarrow> string" where
  "AliasKey k aliasName = PrefixAlias k @ aliasName"

definition MasterMemberKey :: "key_space \<Rightarrow> 64 word \<Rightarrow> string" where
  "MasterMemberKey k ID = PrefixMasterMember k @ FormatNat (unat ID)"

definition LockAliasKey :: "key_space \<Rightarrow> string \<Rightarrow> string" where
  "LockAliasKey k aliasName = PrefixLock k @ aliasName"

lemmas key_defs = LockSpaceKey_def LockDBKey_def ServerKey_def SpaceKey_def SpaceConfigKey_def
  PartitionKey_def DBKeyId_def DBKeyName_def DBKeyBody_def UserKey_def LockUserKey_def
  RoleKey_def LockRoleKey_def FailServerKey_def RouterKey_def RouterConfigKey_def AliasKey_def
  MasterMemberKey_def LockAliasKey_def

text \<open>\<open>cluster_keys c\<close>: the variables after start-up with the cluster prefix \<open>c\<close>.\<close>

definition cluster_keys :: "string \<Rightarrow> key_space" where
  "cluster_keys cluster_id = SetPrefixAndSequence cluster_id default_key_space"

lemmas cluster_keys_defs = cluster_keys_def SetPrefixAndSequence_def default_key_space_def

section \<open>A key determines what it was made from\<close>

lemma SpaceKey_inject [simp]: "SpaceKey k d s = SpaceKey k d' s' \<longleftrightarrow> d = d' \<and> s = s'"
  by (simp add: SpaceKey_def list_lemmas)

lemma SpaceConfigKey_inject [simp]:
  "SpaceConfigKey k d s = SpaceConfigKey k d' s' \<longleftrightarrow> d = d' \<and> s = s'"
  by (simp add: SpaceConfigKey_def list_lemmas)

lemma simple_keys_inject [simp]:
  "ServerKey k n = ServerKey k n' \<longleftrightarrow> n = n'"
  "PartitionKey k p = PartitionKey k p' \<longleftrightarrow> p = p'"
  "DBKeyId k i = DBKeyId k i' \<longleftrightarrow> i = i'"
  "DBKeyName k s = DBKeyName k s' \<longleftrightarrow> s = s'"
  "DBKeyBody k i = DBKeyBody k i' \<longleftrightarrow> i = i'"
  "UserKey k s = UserKey k s' \<longleftrightarrow> s = s'"
  "RoleKey k s = RoleKey k s' \<longleftrightarrow> s = s'"
  "AliasKey k s = AliasKey k s' \<longleftrightarrow> s = s'"
  by (simp_all add: key_defs word_unat_eq_iff)

lemma db_keys_distinct [simp]:
  "DBKeyId k i \<noteq> DBKeyName k s" "DBKeyName k s \<noteq> DBKeyId k i"
  "DBKeyId k i \<noteq> DBKeyBody k j" "DBKeyBody k j \<noteq> DBKeyId k i"
  "DBKeyName k s \<noteq> DBKeyBody k j" "DBKeyBody k j \<noteq> DBKeyName k s"
  by (simp_all add: key_defs)

section \<open>Kinds of objects and prefix scans\<close>

datatype kind = KUser | KServer | KSpace | KSpaceConfig | KPartition | KDataBase | KFailServer
  | KRouter | KAlias | KRole | KMasterMember | KLock

fun kind_prefix :: "key_space \<Rightarrow> kind \<Rightarrow> string" where
  "kind_prefix k KUser = PrefixUser k"
| "kind_prefix k KServer = PrefixServer k"
| "kind_prefix k KSpace = PrefixSpace k"
| "kind_prefix k KSpaceConfig = PrefixSpaceConfig k"
| "kind_prefix k KPartition = PrefixPartition k"
| "kind_prefix k KDataBase = PrefixDataBase k"
| "kind_prefix k KFailServer = PrefixFailServer k"
| "kind_prefix k KRouter = PrefixRouter k"
| "kind_prefix k KAlias = PrefixAlias k"
| "kind_prefix k KRole = PrefixRole k"
| "kind_prefix k KMasterMember = PrefixMasterMember k"
| "kind_prefix k KLock = PrefixLock k"

lemma HasPrefix_same_append: "HasPrefix (c @ s) (c @ p) \<longleftrightarrow> HasPrefix s p"
  by (simp add: HasPrefix_def)

lemma kind_prefix_split:
  "kind_prefix (cluster_keys c) g =
     PrefixEtcdClusterID (cluster_keys c) @ kind_prefix default_key_space g"
  by (cases g) (simp_all add: cluster_keys_defs Let_def)

lemma default_kind_isolated:
  "HasPrefix (kind_prefix default_key_space g @ rest) (kind_prefix default_key_space h) \<longleftrightarrow> g = h"
  by (cases g; cases h; simp add: default_key_space_def HasPrefix_def)

lemma kind_isolated:
  "HasPrefix (kind_prefix (cluster_keys c) g @ rest) (kind_prefix (cluster_keys c) h) \<longleftrightarrow> g = h"
  by (simp add: kind_prefix_split HasPrefix_same_append default_kind_isolated)

text \<open>The scan of one database's spaces: the prefix \<^verbatim>\<open>PrefixSpace + dbID + "/"\<close>.\<close>

definition SpacesPrefix :: "key_space \<Rightarrow> int \<Rightarrow> string" where
  "SpacesPrefix k dbID = PrefixSpace k @ FormatInt dbID @ ''/''"

lemma SpaceKey_in_SpacesPrefix:
  "HasPrefix (SpaceKey k d s) (SpacesPrefix k d') \<longleftrightarrow> d = d'"
proof -
  have "HasPrefix (SpaceKey k d s) (SpacesPrefix k d') \<longleftrightarrow>
      (\<exists>t. FormatInt d @ CHR ''/'' # FormatInt s = FormatInt d' @ CHR ''/'' # t)"
    by (simp add: SpaceKey_def SpacesPrefix_def HasPrefix_iff)
  also have "\<dots> \<longleftrightarrow> d = d'"
    by (auto simp: sep_append_inject)
  finally show ?thesis .
qed

lemma DBKeyBody_in_scan [simp]:
  "HasPrefix (DBKeyBody (cluster_keys c) i) (PrefixDataBaseBody (cluster_keys c))"
  by (simp add: DBKeyBody_def cluster_keys_defs Let_def HasPrefix_iff)

lemma db_scan_only_bodies [simp]:
  "\<not> HasPrefix (DBKeyId (cluster_keys c) i) (PrefixDataBaseBody (cluster_keys c))"
  "\<not> HasPrefix (DBKeyName (cluster_keys c) s) (PrefixDataBaseBody (cluster_keys c))"
  by (simp_all add: DBKeyId_def DBKeyName_def cluster_keys_defs Let_def HasPrefix_iff)

section \<open>Properties\<close>

text \<open>
  Prefix scans of the metadata are exact. In the key space of any cluster, a scan over one kind
  of objects (users, servers, spaces, partitions, databases, locks and so on) returns no key of
  another kind, and the scan for the spaces of a database returns exactly the spaces of that
  database, not those of a database whose number starts with the same digits.
\<close>

theorem metadata_scans_exact:
  "(HasPrefix (kind_prefix (cluster_keys c) g @ rest) (kind_prefix (cluster_keys c) h) \<longleftrightarrow> g = h) \<and>
   (HasPrefix (SpaceKey (cluster_keys c) d s) (SpacesPrefix (cluster_keys c) d') \<longleftrightarrow> d = d')"
  by (simp add: kind_isolated SpaceKey_in_SpacesPrefix)

end
