(* ===== verification/Access.thy ===== *)
theory Access
  imports GoLib
begin

text \<open>
  Names, users, roles and privileges: \<^verbatim>\<open>internal/entity/user.go\<close>, and the name checks of
  \<^verbatim>\<open>internal/entity/db.go\<close> and \<^verbatim>\<open>internal/entity/alias.go\<close>, which run the same code on a
  name. A privilege, a resource and an operator are strings, as in the source, because
  they come from a request body and \<^verbatim>\<open>Validate\<close> has to reject the unknown ones.
  The parameter \<open>nt\<close> is the part of \<^verbatim>\<open>unicode.IsNumber\<close> beyond Latin-1.
\<close>

section \<open>Name checks\<close>

text \<open>The characters that the \<^verbatim>\<open>switch\<close> of the name checks rejects.\<close>

definition forbidden_runes :: "nat list" where
  "forbidden_runes =
     [9, 10, 11, 12, 13, 32, 133, 160, 92, 43, 45, 33, 42, 47, 40, 41, 58, 94, 91, 93, 34, 123,
      125, 126, 37, 38, 39, 60, 62, 63]"

text \<open>
  The block that \<^verbatim>\<open>DB.Validate\<close>, \<^verbatim>\<open>Alias.Validate\<close>, \<^verbatim>\<open>Space.Validate\<close> and
  \<^verbatim>\<open>ValidateName\<close> share: not empty, first rune neither a number nor an underscore, no
  forbidden rune.
\<close>

definition check_name :: "(nat \<Rightarrow> bool) \<Rightarrow> string \<Rightarrow> unit res" where
  "check_name nt name =
     (case runes name of
        [] \<Rightarrow> Inl (param_err ''name can not be empty string'')
      | r # rs \<Rightarrow>
          if IsNumber nt r then Inl (param_err ''name can not start with num'')
          else if r = 95 then Inl (param_err ''name can not start with _'')
          else each_res (\<lambda>r. guard (r \<in> set forbidden_runes)
                 (param_err ''character can not in name'')) (r # rs))"

lemma check_name_Inr_iff:
  "check_name nt name = Inr u \<longleftrightarrow>
     name \<noteq> [] \<and> \<not> IsNumber nt (hd (runes name)) \<and> hd (runes name) \<noteq> 95 \<and>
     (\<forall>r \<in> set (runes name). r \<notin> set forbidden_runes)"
  by (cases "runes name")
    (auto simp: check_name_def res_simps simp flip: runes_Nil_iff)

lemma check_name_no_slash:
  assumes "check_name nt name = Inr u"
  shows "CHR ''/'' \<notin> set name"
proof
  assume "CHR ''/'' \<in> set name"
  then have "of_char CHR ''/'' \<in> set (runes name)"
    by (rule ascii_in_runes) simp
  then have "47 \<in> set (runes name)" by simp
  with assms show False
    by (auto simp: check_name_Inr_iff forbidden_runes_def)
qed

section \<open>Databases and aliases\<close>

record DB =
  db_Id :: int
  db_Name :: string
  db_Ps :: "string list"

definition DB_Validate :: "(nat \<Rightarrow> bool) \<Rightarrow> DB \<Rightarrow> unit res" where
  "DB_Validate nt db =
     bind_res (check_name nt (db_Name db)) (\<lambda>_.
       guard (db_Id db > 0) (param_err ''can not set db id when creating db''))"

record Alias =
  al_Name :: string
  al_DbName :: string
  al_SpaceName :: string

definition Alias_Validate :: "(nat \<Rightarrow> bool) \<Rightarrow> Alias \<Rightarrow> unit res" where
  "Alias_Validate nt alias = check_name nt (al_Name alias)"

section \<open>Roles\<close>

definition PriviMap :: "string list" where
  "PriviMap = [''None'', ''WriteOnly'', ''ReadOnly'', ''WriteRead'']"

definition ResourceMap :: "string list" where
  "ResourceMap =
     [''ResourceAll'', ''ResourceCluster'', ''ResourceServer'', ''ResourcePartition'',
      ''ResourceDB'', ''ResourceSpace'', ''ResourceDocument'', ''ResourceIndex'',
      ''ResourceAlias'', ''ResourceUser'', ''ResourceRole'', ''ResourceConfig'',
      ''ResourceCache'']"

record Role =
  rl_Name :: string
  rl_Operator :: string
  rl_Privileges :: "(string, string) gomap"

definition RootPrivilege :: "(string, string) gomap" where
  "RootPrivilege = [(''ResourceAll'', ''WriteRead'')]"

definition ClusterPrivilege :: "(string, string) gomap" where
  "ClusterPrivilege =
     [(''ResourceCluster'', ''WriteRead''), (''ResourceServer'', ''WriteRead''),
      (''ResourcePartition'', ''WriteRead''), (''ResourceDB'', ''WriteRead''),
      (''ResourceSpace'', ''WriteRead''), (''ResourceDocument'', ''WriteRead''),
      (''ResourceIndex'', ''WriteRead''), (''ResourceAlias'', ''WriteRead''),
      (''ResourceConfig'', ''WriteRead''), (''ResourceUser'', ''WriteRead''),
      (''ResourceRole'', ''WriteRead'')]"

definition SpaceAdminPrivilege :: "(string, string) gomap" where
  "SpaceAdminPrivilege =
     [(''ResourceSpace'', ''WriteRead''), (''ResourceDocument'', ''WriteRead''),
      (''ResourceIndex'', ''WriteRead''), (''ResourceAlias'', ''ReadOnly'')]"

definition ReadDBSpaceEditDocumentPrivilege :: "(string, string) gomap" where
  "ReadDBSpaceEditDocumentPrivilege =
     [(''ResourceCluster'', ''ReadOnly''), (''ResourceDB'', ''ReadOnly''),
      (''ResourceSpace'', ''ReadOnly''), (''ResourceDocument'', ''WriteRead''),
      (''ResourceIndex'', ''WriteRead''), (''ResourceAlias'', ''ReadOnly'')]"

definition ReadSpaceEditDocumentPrivilege :: "(string, string) gomap" where
  "ReadSpaceEditDocumentPrivilege =
     [(''ResourceSpace'', ''ReadOnly''), (''ResourceDocument'', ''WriteRead''),
      (''ResourceIndex'', ''WriteRead''), (''ResourceAlias'', ''ReadOnly'')]"

definition DocumentAdminPrivilege :: "(string, string) gomap" where
  "DocumentAdminPrivilege =
     [(''ResourceDocument'', ''WriteRead''), (''ResourceIndex'', ''WriteRead'')]"

definition mk_role :: "string \<Rightarrow> (string, string) gomap \<Rightarrow> Role" where
  "mk_role name ps = \<lparr> rl_Name = name, rl_Operator = [], rl_Privileges = ps \<rparr>"

definition RoleMap :: "(string, Role) gomap" where
  "RoleMap =
     [(''root'', mk_role ''root'' RootPrivilege),
      (''defaultClusterAdmin'', mk_role ''defaultClusterAdmin'' ClusterPrivilege),
      (''defaultSpaceAdmin'', mk_role ''defaultSpaceAdmin'' SpaceAdminPrivilege),
      (''defaultDocumentAdmin'', mk_role ''defaultDocumentAdmin'' DocumentAdminPrivilege),
      (''defaultReadDBSpaceEditDocument'',
         mk_role ''defaultReadDBSpaceEditDocument'' ReadDBSpaceEditDocumentPrivilege),
      (''defaultReadSpaceEditDocument'',
         mk_role ''defaultReadSpaceEditDocument'' ReadSpaceEditDocumentPrivilege)]"

definition ValidateName :: "(nat \<Rightarrow> bool) \<Rightarrow> string \<Rightarrow> bool \<Rightarrow> unit res" where
  "ValidateName nt name check_root =
     bind_res (check_name nt name) (\<lambda>_.
       guard (check_root \<and> EqualFold name ''root'') (param_err ''name can't be root''))"

definition Role_Validate :: "(nat \<Rightarrow> bool) \<Rightarrow> Role \<Rightarrow> unit res" where
  "Role_Validate nt role =
     bind_res (ValidateName nt (rl_Name role) True) (\<lambda>_.
     bind_res (guard (rl_Operator role \<noteq> [] \<and> rl_Operator role \<noteq> ''Grant''
                      \<and> rl_Operator role \<noteq> ''Revoke'')
                 (param_err ''role privilege operator type'')) (\<lambda>_.
     each_res (\<lambda>(resource, privilege).
       if resource \<notin> set ResourceMap then Inl (param_err ''role resource'')
       else guard (privilege \<notin> set PriviMap) (param_err ''role privilege''))
       (rl_Privileges role)))"

text \<open>What an end point of the HTTP interface needs: the resource and the privilege.\<close>

definition ParseResources :: "string \<Rightarrow> string \<Rightarrow> string \<times> string" where
  "ParseResources endpoint meth =
     (let privilege = (if meth = ''GET'' then ''ReadOnly'' else ''WriteOnly'') in
      if HasPrefix endpoint ''/cluster'' then (''ResourceCluster'', privilege)
      else if HasPrefix endpoint ''/servers'' then (''ResourceServer'', privilege)
      else if HasPrefix endpoint ''/partitions'' then (''ResourcePartition'', privilege)
      else if HasPrefix endpoint ''/dbs'' then
        (if Contains endpoint ''/spaces'' then ''ResourceSpace'' else ''ResourceDB'', privilege)
      else if HasPrefix endpoint ''/backup'' then (''ResourceSpace'', privilege)
      else if HasPrefix endpoint ''/document'' then
        (''ResourceDocument'',
         if Contains endpoint ''query'' \<or> Contains endpoint ''search'' then ''ReadOnly''
         else ''WriteOnly'')
      else if HasPrefix endpoint ''/index'' then (''ResourceIndex'', privilege)
      else if HasPrefix endpoint ''/alias'' then (''ResourceAlias'', privilege)
      else if HasPrefix endpoint ''/config'' then (''ResourceConfig'', privilege)
      else if HasPrefix endpoint ''/users'' then (''ResourceUser'', privilege)
      else if HasPrefix endpoint ''/roles'' then (''ResourceRole'', privilege)
      else if HasPrefix endpoint ''/cache'' then (''ResourceCache'', privilege)
      else (''ResourceAll'', privilege))"

definition HasPermissionForResources :: "Role \<Rightarrow> string \<Rightarrow> string \<Rightarrow> unit res" where
  "HasPermissionForResources role endpoint meth =
     (if rl_Name role = ''root'' then Inr ()
      else case ParseResources endpoint meth of (resource, privilege) \<Rightarrow>
        (case map_of (rl_Privileges role) resource of
           Some v \<Rightarrow>
             if privilege = v \<or> v = ''WriteRead'' then Inr ()
             else Inr ()
         | None \<Rightarrow> Inl (NewError AUTHENTICATION_FAILED
                          (Some (GoErr ''role don't have privilege for resource'')))))"

section \<open>Users\<close>

record User =
  us_Name :: string
  us_Password :: "string option"
  us_OldPassword :: "string option"
  us_RoleName :: "string option"

record UserRole =
  ur_Name :: string
  ur_Password :: "string option"
  ur_OldPassword :: "string option"
  ur_Role :: Role

definition User_Validate :: "(nat \<Rightarrow> bool) \<Rightarrow> User \<Rightarrow> bool \<Rightarrow> unit res" where
  "User_Validate nt user check_root =
     bind_res (ValidateName nt (us_Name user) check_root) (\<lambda>_.
     bind_res (guard (us_Password user = Some []) (param_err ''user password is empty'')) (\<lambda>_.
     guard (check_root \<and> (case us_RoleName user of None \<Rightarrow> False
                          | Some rn \<Rightarrow> EqualFold rn ''root''))
       (param_err ''user role name can't be root'')))"

section \<open>Privilege bits\<close>

unbundle bit_operations_syntax

definition HasPrivi :: "64 word \<Rightarrow> 64 word \<Rightarrow> bool" where
  "HasPrivi userPrivi checkPrivi = (userPrivi AND checkPrivi = checkPrivi)"

definition LackPrivi :: "64 word \<Rightarrow> 64 word \<Rightarrow> 64 word" where
  "LackPrivi userPrivi checkPrivi = checkPrivi AND NOT userPrivi"

section \<open>Lemmas\<close>

lemma ValidateName_Inr_iff:
  "ValidateName nt name cr = Inr u \<longleftrightarrow>
     check_name nt name = Inr () \<and> \<not> (cr \<and> EqualFold name ''root'')"
  by (auto simp: ValidateName_def res_simps)

lemma Role_Validate_Inr_iff:
  "Role_Validate nt role = Inr u \<longleftrightarrow>
     ValidateName nt (rl_Name role) True = Inr () \<and>
     rl_Operator role \<in> {[], ''Grant'', ''Revoke''} \<and>
     (\<forall>(r, p) \<in> set (rl_Privileges role). r \<in> set ResourceMap \<and> p \<in> set PriviMap)"
  by (auto simp: Role_Validate_def res_simps split: if_splits prod.splits)

lemma ParseResources_range:
  "fst (ParseResources ep m) \<in> set ResourceMap"
  "snd (ParseResources ep m) \<in> {''ReadOnly'', ''WriteOnly''}"
  by (auto simp: ParseResources_def Let_def ResourceMap_def)

text \<open>
  The decision depends only on whether the role lists the resource: once it does, both
  branches of the comparison with the listed privilege return no error.
\<close>

lemma HasPermissionForResources_iff:
  "HasPermissionForResources role ep m = Inr u \<longleftrightarrow>
     rl_Name role = ''root'' \<or>
     map_of (rl_Privileges role) (fst (ParseResources ep m)) \<noteq> None"
  by (auto simp: HasPermissionForResources_def split: prod.splits option.splits)

lemma HasPrivi_bits: "HasPrivi u c \<longleftrightarrow> (\<forall>n. bit c n \<longrightarrow> bit u n)"
proof
  assume "HasPrivi u c"
  then have "bit c n \<longleftrightarrow> bit u n \<and> bit c n" for n
    unfolding HasPrivi_def using bit_and_iff [of u c n] by simp
  then show "\<forall>n. bit c n \<longrightarrow> bit u n" by blast
next
  assume "\<forall>n. bit c n \<longrightarrow> bit u n"
  then show "HasPrivi u c"
    unfolding HasPrivi_def by (intro bit_eqI) (auto simp: bit_and_iff)
qed

lemma LackPrivi_bits: "bit (LackPrivi u c) n \<longleftrightarrow> bit c n \<and> \<not> bit u n"
  using bit_imp_le_length [of c n] by (auto simp: LackPrivi_def bit_simps)

lemma HasPrivi_iff_LackPrivi: "HasPrivi u c \<longleftrightarrow> LackPrivi u c = 0"
proof -
  have "LackPrivi u c = 0 \<longleftrightarrow> (\<forall>n. \<not> bit (LackPrivi u c) n)"
    by (auto intro: bit_eqI)
  then show ?thesis by (simp add: HasPrivi_bits LackPrivi_bits)
qed

lemma HasPrivi_after_grant: "HasPrivi (u OR LackPrivi u c) c"
  by (simp add: HasPrivi_bits LackPrivi_bits bit_or_iff)

lemma RoleMap_names: "map_of RoleMap n = Some r \<Longrightarrow> rl_Name r = n"
  by (auto simp: RoleMap_def mk_role_def split: if_splits)

section \<open>Properties\<close>

text \<open>
  C28: the permission check looks only at whether the role lists the resource. A role is let through
  exactly if it is root or has any entry for the resource of the end point; the privilege in the
  entry, \<^verbatim>\<open>None\<close> and \<^verbatim>\<open>ReadOnly\<close> included, makes no difference to a write.
\<close>

theorem permission_ignores_privilege:
  "HasPermissionForResources role ep m = Inr () \<longleftrightarrow>
     rl_Name role = ''root'' \<or> fst (ParseResources ep m) \<in> fst ` set (rl_Privileges role)"
  by (simp add: HasPermissionForResources_iff map_of_eq_None_iff)

text \<open>
  The privilege masks. A user has a privilege if no bit of it is lacking; granting what is
  lacking gives the privilege, and takes none away.
\<close>

theorem LackPrivi_is_the_missing_part:
  "(HasPrivi u c \<longleftrightarrow> LackPrivi u c = 0) \<and> HasPrivi (u OR LackPrivi u c) c \<and>
   HasPrivi (u OR LackPrivi u c) u"
  by (simp add: HasPrivi_iff_LackPrivi [symmetric] HasPrivi_bits LackPrivi_bits bit_or_iff)

end
