(* ===== verification/Bytes.thy ===== *)
theory Bytes
  imports GoLib
begin

text \<open>
  Byte encodings: \<^verbatim>\<open>internal/pkg/cbbytes/bytes.go\<close> (little-endian encoding of values and
  vectors, \<^verbatim>\<open>BitLen\<close>).

  A byte is an \<open>8 word\<close>. A \<^verbatim>\<open>float32\<close> is its bit pattern, a \<open>32 word\<close>, because the code
  only moves patterns around (\<^verbatim>\<open>math.Float32frombits\<close> and \<^verbatim>\<open>binary.Write\<close>). Reading an
  integer from too few bytes panics, as \<^verbatim>\<open>binary.LittleEndian.Uint64\<close> does.
  The lemmas show the round trips of every encoder with its decoder, the lengths, and that
  \<^verbatim>\<open>BitLen\<close> is the bit length.
\<close>

type_synonym byte = "8 word"

section \<open>Little-endian integers\<close>

text \<open>\<open>le_bytes k n\<close>: the \<open>k\<close> low bytes of \<open>n\<close>, low byte first; \<open>le_nat\<close> reads them back.\<close>

fun le_bytes :: "nat \<Rightarrow> nat \<Rightarrow> byte list" where
  "le_bytes 0 n = []"
| "le_bytes (Suc k) n = of_nat (n mod 256) # le_bytes k (n div 256)"

fun le_nat :: "byte list \<Rightarrow> nat" where
  "le_nat [] = 0"
| "le_nat (b # bs) = unat b + 256 * le_nat bs"

lemma length_le_bytes [simp]: "length (le_bytes k n) = k"
  by (induction k arbitrary: n) auto

lemma unat_of_nat_byte [simp]: "n < 256 \<Longrightarrow> unat (of_nat n :: byte) = n"
  by (simp add: unat_of_nat)

lemma le_nat_le_bytes [simp]: "le_nat (le_bytes k n) = n mod 256 ^ k"
proof (induction k arbitrary: n)
  case 0
  then show ?case by simp
next
  case (Suc k)
  have "n mod 256 ^ Suc k = n mod 256 + 256 * (n div 256 mod 256 ^ k)"
    by (metis mod_mult2_eq power_Suc add.commute)
  then show ?case by (simp add: Suc.IH)
qed

lemma le_nat_bound: "le_nat bs < 256 ^ length bs"
proof (induction bs)
  case Nil
  then show ?case by simp
next
  case (Cons b bs)
  note unat_bounds(1) [of b]
  with Cons.IH show ?case by simp
qed

lemma le_bytes_le_nat [simp]: "le_bytes (length bs) (le_nat bs) = bs"
proof (induction bs)
  case Nil
  then show ?case by simp
next
  case (Cons b bs)
  note unat_bounds(1) [of b]
  with Cons.IH show ?case by simp
qed

section \<open>Values\<close>

text \<open>\<^verbatim>\<open>binary.LittleEndian.Uint32\<close> and \<^verbatim>\<open>Uint64\<close>: they read the first bytes and panic if there are too few.\<close>

definition LE_Uint32 :: "byte list \<Rightarrow> (32 word) res" where
  "LE_Uint32 bs =
     (if length bs < 4 then Inl (GoPanic ''index out of range'')
      else Inr (of_nat (le_nat (take 4 bs))))"

definition LE_Uint64 :: "byte list \<Rightarrow> (64 word) res" where
  "LE_Uint64 bs =
     (if length bs < 8 then Inl (GoPanic ''index out of range'')
      else Inr (of_nat (le_nat (take 8 bs))))"

definition UInt32ToByte :: "32 word \<Rightarrow> byte list" where
  "UInt32ToByte v = le_bytes 4 (unat v)"

definition Int32ToByte :: "int \<Rightarrow> byte list" where
  "Int32ToByte v = le_bytes 4 (unat (word_of_int v :: 32 word))"

definition Int64ToByte :: "int \<Rightarrow> byte list" where
  "Int64ToByte v = le_bytes 8 (unat (word_of_int v :: 64 word))"

definition BoolToByte :: "bool \<Rightarrow> byte list" where
  "BoolToByte b = (if b then UInt32ToByte 1 else UInt32ToByte 0)"

definition Float32ToByte :: "32 word \<Rightarrow> byte list" where
  "Float32ToByte v = le_bytes 4 (unat v)"

definition Float64ToByteNew :: "64 word \<Rightarrow> byte list" where
  "Float64ToByteNew bits = le_bytes 8 (unat bits)"

definition ByteToFloat32 :: "byte list \<Rightarrow> (32 word) res" where
  "ByteToFloat32 bs = LE_Uint32 bs"

definition ByteToUInt64 :: "byte list \<Rightarrow> (64 word) res" where
  "ByteToUInt64 bs = LE_Uint64 bs"

definition ByteToFloat64New :: "byte list \<Rightarrow> (64 word) res" where
  "ByteToFloat64New bs = LE_Uint64 bs"

definition Bytes2Int :: "byte list \<Rightarrow> int res" where
  "Bytes2Int bs = bind_res (LE_Uint64 bs) (\<lambda>w. Inr (sint w))"

definition Bytes2Int32 :: "byte list \<Rightarrow> int res" where
  "Bytes2Int32 bs = bind_res (LE_Uint32 bs) (\<lambda>w. Inr (sint w))"

section \<open>Arrays\<close>

text \<open>\<^verbatim>\<open>FloatArrayByte\<close> (also \<^verbatim>\<open>VectorToByte\<close>): the elements one after the other.\<close>

definition FloatArrayByte :: "32 word list \<Rightarrow> byte list" where
  "FloatArrayByte fa = concat (map (\<lambda>v. le_bytes 4 (unat v)) fa)"

text \<open>The loop that reads \<open>num\<close> elements of four bytes from the front.\<close>

fun read_words :: "nat \<Rightarrow> byte list \<Rightarrow> 32 word list" where
  "read_words 0 bs = []"
| "read_words (Suc num) bs = of_nat (le_nat (take 4 bs)) # read_words num (drop 4 bs)"

definition ByteToFloat32Array :: "byte list \<Rightarrow> (32 word list) res" where
  "ByteToFloat32Array bs =
     (if length bs mod 4 \<noteq> 0 then Inl (GoErr ''input bytes not a multiple of 4'')
      else Inr (read_words (length bs div 4) bs))"

definition ArrayByteFloat :: "byte list \<Rightarrow> 32 word list" where
  "ArrayByteFloat bs = read_words (length bs div 4) bs"

definition ByteToUInt8Array :: "byte list \<Rightarrow> (byte list) res" where
  "ByteToUInt8Array bs =
     (if length bs mod 4 \<noteq> 0 then Inl (GoErr ''input bytes not a multiple of 4'')
      else Inr (map (\<lambda>w. ucast w) (read_words (length bs div 4) bs)))"

text \<open>\<^verbatim>\<open>UInt8ArrayToByteArray\<close>: a \<^verbatim>\<open>uint8\<close> is never above 255, so the check never fires.\<close>

definition UInt8ArrayToByteArray :: "byte list \<Rightarrow> (byte list) res" where
  "UInt8ArrayToByteArray xs =
     bind_res (each_res (\<lambda>v. guard (unat v > 255)
                 (GoErr ''byte value overflows byte constant'')) xs) (\<lambda>_. Inr xs)"

text \<open>\<^verbatim>\<open>ByteToVectorBinary\<close>: the first \<open>dimension / 8\<close> bytes as integers.\<close>

definition ByteToVectorBinary :: "byte list \<Rightarrow> nat \<Rightarrow> (int list) res" where
  "ByteToVectorBinary bs dimension =
     (if length bs < dimension div 8 then Inl (GoPanic ''index out of range'')
      else Inr (map uint (take (dimension div 8) bs)))"

definition CloneBytes :: "byte list \<Rightarrow> byte list" where
  "CloneBytes b = b"

section \<open>Bit length\<close>

text \<open>The first loop of \<^verbatim>\<open>BitLen\<close>, then its three conditional shifts.\<close>

function BitLen_loop :: "int \<Rightarrow> int \<Rightarrow> int \<times> int" where
  "BitLen_loop x n = (if x \<ge> 0x8000 then BitLen_loop (x div 2 ^ 16) (n + 16) else (x, n))"
  by pat_completeness auto
termination
  by (relation "measure (\<lambda>(x, n). nat x)") (auto intro: div_less_dividend)

declare BitLen_loop.simps [simp del]

definition BitLen :: "int \<Rightarrow> int" where
  "BitLen x0 =
     (let (x, n) = BitLen_loop x0 0;
          (x, n) = (if x \<ge> 0x80 then (x div 2 ^ 8, n + 8) else (x, n));
          (x, n) = (if x \<ge> 0x8 then (x div 2 ^ 4, n + 4) else (x, n));
          (x, n) = (if x \<ge> 0x2 then (x div 2 ^ 2, n + 2) else (x, n))
      in if x \<ge> 0x1 then n + 1 else n)"

section \<open>Round trips\<close>

lemma LE_Uint64_le_bytes: "LE_Uint64 (le_bytes 8 (unat w) @ bs) = Inr w"
  using unat_bounds(3) [of w] by (simp add: LE_Uint64_def)

lemma LE_Uint32_le_bytes: "LE_Uint32 (le_bytes 4 (unat w) @ bs) = Inr w"
  using unat_bounds(2) [of w] by (simp add: LE_Uint32_def)

lemma Bytes2Int_Int64ToByte:
  assumes "- (2 ^ 63) \<le> v" and "v < 2 ^ 63"
  shows "Bytes2Int (Int64ToByte v) = Inr v"
proof -
  have "sint (word_of_int v :: 64 word) = v"
    using assms by (simp add: sint_sbintrunc' signed_take_bit_int_eq_self)
  then show ?thesis
    using LE_Uint64_le_bytes [of "word_of_int v" "[]"]
    by (simp add: Bytes2Int_def Int64ToByte_def)
qed

lemma Bytes2Int32_Int32ToByte:
  assumes "- (2 ^ 31) \<le> v" and "v < 2 ^ 31"
  shows "Bytes2Int32 (Int32ToByte v) = Inr v"
proof -
  have "sint (word_of_int v :: 32 word) = v"
    using assms by (simp add: sint_sbintrunc' signed_take_bit_int_eq_self)
  then show ?thesis
    using LE_Uint32_le_bytes [of "word_of_int v" "[]"]
    by (simp add: Bytes2Int32_def Int32ToByte_def)
qed

lemma length_FloatArrayByte [simp]: "length (FloatArrayByte fa) = 4 * length fa"
  by (induction fa) (simp_all add: FloatArrayByte_def)

lemma read_words_FloatArrayByte [simp]: "read_words (length fa) (FloatArrayByte fa) = fa"
proof (induction fa)
  case Nil
  then show ?case by simp
next
  case (Cons v fa)
  have "unat v mod 256 ^ 4 = unat v" using unat_bounds(2) [of v] by simp
  with Cons.IH show ?case by (simp add: FloatArrayByte_def)
qed

lemma ByteToFloat32Array_FloatArrayByte: "ByteToFloat32Array (FloatArrayByte fa) = Inr fa"
  by (simp add: ByteToFloat32Array_def)

lemma length_read_words [simp]: "length (read_words n bs) = n"
  by (induction n arbitrary: bs) auto

lemma FloatArrayByte_read_words:
  "length bs = 4 * n \<Longrightarrow> FloatArrayByte (read_words n bs) = bs"
proof (induction n arbitrary: bs)
  case 0
  then show ?case by (simp add: FloatArrayByte_def)
next
  case (Suc n)
  have len: "length (take 4 bs) = 4" using Suc.prems by simp
  have "le_nat (take 4 bs) < 2 ^ 32"
    using le_nat_bound [of "take 4 bs"] len by simp
  then have "unat (of_nat (le_nat (take 4 bs)) :: 32 word) = le_nat (take 4 bs)"
    by (simp add: unat_of_nat)
  moreover have "le_bytes 4 (le_nat (take 4 bs)) = take 4 bs"
    using le_bytes_le_nat [of "take 4 bs"] len by simp
  moreover have "FloatArrayByte (read_words n (drop 4 bs)) = drop 4 bs"
    using Suc.prems by (intro Suc.IH) simp
  ultimately show ?case
    by (simp add: FloatArrayByte_def)
qed

lemma ByteToFloat32Array_Inr_iff:
  "ByteToFloat32Array bs = Inr fa \<longleftrightarrow> bs = FloatArrayByte fa"
proof
  assume "ByteToFloat32Array bs = Inr fa"
  then have "length bs mod 4 = 0" and fa: "fa = read_words (length bs div 4) bs"
    by (auto simp: ByteToFloat32Array_def split: if_splits)
  then have "length bs = 4 * (length bs div 4)" by auto
  then show "bs = FloatArrayByte fa"
    unfolding fa by (rule FloatArrayByte_read_words [symmetric])
qed (simp add: ByteToFloat32Array_FloatArrayByte)

section \<open>The bit length is right\<close>

text \<open>
  Between the shifts of \<^verbatim>\<open>BitLen\<close>: \<open>n\<close> bits have been shifted out of \<open>x\<close>, and \<open>x\<close> has at least
  \<open>n\<close> bits.
\<close>

definition bitlen_inv :: "int \<Rightarrow> int \<Rightarrow> int \<Rightarrow> bool" where
  "bitlen_inv x y n \<longleftrightarrow> (\<exists>k. n = int k \<and> y = x div 2 ^ k \<and> (k = 0 \<or> 2 ^ (k - 1) \<le> x))"

lemma bitlen_inv_step:
  assumes "bitlen_inv x y n" and "0 < s" and "2 ^ (s - 1) \<le> y"
  shows "bitlen_inv x (y div 2 ^ s) (n + int s)"
proof -
  from assms(1) obtain k where k: "n = int k" "y = x div 2 ^ k"
    by (auto simp: bitlen_inv_def)
  have "y * 2 ^ k \<le> x"
    using k(2) by (simp add: minus_mod_eq_div_mult [symmetric])
  moreover have "(2 :: int) ^ (s - 1) * 2 ^ k \<le> y * 2 ^ k"
    using assms(3) by simp
  moreover have "(2 :: int) ^ (s - 1) * 2 ^ k = 2 ^ (k + s - 1)"
    using assms(2) by (simp flip: power_add add: add.commute)
  ultimately have "2 ^ (k + s - 1) \<le> x" by linarith
  moreover have "y div 2 ^ s = x div 2 ^ (k + s)"
    by (simp add: k(2) power_add zdiv_zmult2_eq)
  ultimately show ?thesis
    unfolding bitlen_inv_def using k(1) by (intro exI [of _ "k + s"]) simp
qed

lemma bitlen_inv_loop:
  assumes "bitlen_inv x y n"
  shows "case BitLen_loop y n of (y', n') \<Rightarrow> bitlen_inv x y' n' \<and> y' < 0x8000"
  using assms
proof (induction y n rule: BitLen_loop.induct)
  case (1 y n)
  show ?case
  proof (cases "y \<ge> 0x8000")
    case True
    then have "bitlen_inv x (y div 2 ^ 16) (n + 16)"
      using bitlen_inv_step [OF "1.prems", of 16] by simp
    with "1.IH" [OF True] True show ?thesis by (simp add: BitLen_loop.simps [of y n])
  next
    case False
    with "1.prems" show ?thesis by (simp add: BitLen_loop.simps [of y n])
  qed
qed

lemma BitLen_inv:
  "\<exists>y. bitlen_inv x y (BitLen x) \<and> y < 1 \<or> bitlen_inv x y (BitLen x - 1) \<and> 1 \<le> y \<and> y < 2"
proof -
  obtain y1 n1 where l1: "BitLen_loop x 0 = (y1, n1)" by force
  have "bitlen_inv x x 0" by (auto simp: bitlen_inv_def intro: exI [of _ 0])
  from bitlen_inv_loop [OF this] have i1: "bitlen_inv x y1 n1" "y1 < 0x8000"
    by (simp_all add: l1)
  obtain y2 n2 where l2: "(y2, n2) = (if y1 \<ge> 0x80 then (y1 div 2 ^ 8, n1 + 8) else (y1, n1))"
    by (metis prod.exhaust)
  with i1 bitlen_inv_step [OF i1(1), of 8] have i2: "bitlen_inv x y2 n2" "y2 < 0x80"
    by (auto split: if_splits)
  obtain y3 n3 where l3: "(y3, n3) = (if y2 \<ge> 0x8 then (y2 div 2 ^ 4, n2 + 4) else (y2, n2))"
    by (metis prod.exhaust)
  with i2 bitlen_inv_step [OF i2(1), of 4] have i3: "bitlen_inv x y3 n3" "y3 < 0x8"
    by (auto split: if_splits)
  obtain y4 n4 where l4: "(y4, n4) = (if y3 \<ge> 0x2 then (y3 div 2 ^ 2, n3 + 2) else (y3, n3))"
    by (metis prod.exhaust)
  with i3 bitlen_inv_step [OF i3(1), of 2] have i4: "bitlen_inv x y4 n4" "y4 < 0x2"
    by (auto split: if_splits)
  have "BitLen x = (if y4 \<ge> 1 then n4 + 1 else n4)"
    by (simp only: BitLen_def Let_def l1 split_conv l2 [symmetric] l3 [symmetric] l4 [symmetric])
  with i4 show ?thesis
    by (intro exI [of _ y4]) (auto split: if_splits)
qed

lemma BitLen_correct:
  assumes "0 < x"
  shows "0 < BitLen x \<and> 2 ^ (nat (BitLen x) - 1) \<le> x \<and> x < 2 ^ nat (BitLen x)"
proof -
  have up: "x < (z + 1) * 2 ^ k" and low: "z * 2 ^ k \<le> x" if "z = x div 2 ^ k" for z :: int and k
  proof -
    have "x = z * 2 ^ k + x mod 2 ^ k" "0 \<le> x mod 2 ^ k" "x mod 2 ^ k < 2 ^ k"
      using that div_mult_mod_eq [of x "2 ^ k", symmetric] by simp_all
    then show "x < (z + 1) * 2 ^ k" "z * 2 ^ k \<le> x"
      unfolding distrib_right by linarith+
  qed
  obtain y where "bitlen_inv x y (BitLen x) \<and> y < 1
      \<or> bitlen_inv x y (BitLen x - 1) \<and> 1 \<le> y \<and> y < 2"
    using BitLen_inv by blast
  then show ?thesis
  proof
    assume a: "bitlen_inv x y (BitLen x) \<and> y < 1"
    then obtain k where k: "BitLen x = int k" "y = x div 2 ^ k" "k = 0 \<or> 2 ^ (k - 1) \<le> x"
      by (auto simp: bitlen_inv_def)
    have "y = 0" using a k(2) assms by (simp add: pos_imp_zdiv_nonneg_iff order_antisym)
    with up [OF k(2)] have "x < 2 ^ k" by simp
    moreover from this assms have "k \<noteq> 0" by (intro notI) simp
    ultimately show ?thesis using k(1,3) by auto
  next
    assume a: "bitlen_inv x y (BitLen x - 1) \<and> 1 \<le> y \<and> y < 2"
    then obtain k where "BitLen x - 1 = int k" and y: "y = x div 2 ^ k"
      by (auto simp: bitlen_inv_def)
    then have k: "nat (BitLen x) = Suc k" "0 < BitLen x" "y = x div 2 ^ k" by simp_all
    moreover have "y = 1" using a by simp
    ultimately show ?thesis using up [of y k] low [of y k] by simp
  qed
qed

section \<open>Properties\<close>

text \<open>
  The encoding of float vectors is a bijection onto the byte strings whose length is a multiple
  of four: decoding succeeds on the encodings and on nothing else, and gives the vector back.
\<close>

theorem float_vectors_roundtrip:
  "(ByteToFloat32Array bs = Inr fa \<longleftrightarrow> bs = FloatArrayByte fa) \<and>
   (isl (ByteToFloat32Array bs) \<longleftrightarrow> length bs mod 4 \<noteq> 0)"
  using ByteToFloat32Array_Inr_iff [of bs fa] by (simp add: ByteToFloat32Array_def)

text \<open>The encoding of integers: every \<^verbatim>\<open>int64\<close> and every \<^verbatim>\<open>int32\<close> is read back as written.\<close>

theorem integers_roundtrip:
  assumes "- (2 ^ 63) \<le> v" and "v < 2 ^ 63" and "- (2 ^ 31) \<le> u" and "u < 2 ^ 31"
  shows "Bytes2Int (Int64ToByte v) = Inr v \<and> Bytes2Int32 (Int32ToByte u) = Inr u"
  using Bytes2Int_Int64ToByte [OF assms(1,2)] Bytes2Int32_Int32ToByte [OF assms(3,4)] by simp

theorem integers_roundtrip_witness:
  "Bytes2Int (Int64ToByte (- 5)) = Inr (- 5) \<and> Bytes2Int32 (Int32ToByte 2147483647) = Inr 2147483647"
  by (rule integers_roundtrip) simp_all

text \<open>
  \<^verbatim>\<open>BitLen\<close> computes the bit length of every positive number, by shifting 16 bits at a time and
  then by 8, 4 and 2.
\<close>

theorem BitLen_is_bit_length:
  assumes "0 < x"
  shows "0 < BitLen x \<and> 2 ^ (nat (BitLen x) - 1) \<le> x \<and> x < 2 ^ nat (BitLen x)"
  using assms by (rule BitLen_correct)

theorem BitLen_is_bit_length_witness:
  "0 < BitLen 300 \<and> 2 ^ (nat (BitLen 300) - 1) \<le> (300 :: int) \<and> 300 < (2 :: int) ^ nat (BitLen 300)"
  by (rule BitLen_is_bit_length) simp

end
