(* ===== verification/Entities.thy ===== *)
theory Entities
  imports Access
begin

text \<open>
  The records of the metadata: partitions and partition rules
  (\<^verbatim>\<open>internal/entity/partition.go\<close>), indexes, field properties and spaces
  (\<^verbatim>\<open>internal/entity/space.go\<close>), servers (\<^verbatim>\<open>internal/entity/server.go\<close>), with the enumerations
  of \<^verbatim>\<open>internal/proto/vearchpb/data_model.pb.go\<close>. A pointer field is an \<open>option\<close>. Raw JSON is
  kept as its text.
\<close>

text \<open>
  The conversions of the package \<^verbatim>\<open>spf13/cast\<close> that the code uses, a parameter of the model: to a
  time (in nanoseconds since the epoch), to an \<^verbatim>\<open>int64\<close>, and of an integer to a string.
\<close>

record cast_lib =
  ToInt64E :: "string \<Rightarrow> int res"
  ToTimeE :: "string \<Rightarrow> int res"
  ToString :: "int \<Rightarrow> string"

datatype FieldType = FieldType_INT | FieldType_LONG | FieldType_FLOAT | FieldType_DOUBLE | FieldType_STRING | FieldType_VECTOR | FieldType_BOOL | FieldType_DATE | FieldType_STRINGARRAY

datatype FieldOption = FO_Null | FO_Index | FO_Scalar | FO_Inverted | FO_InvertedList | FO_Bitmap
  | FO_Composite

datatype PartitionStatus = PA_UNKNOW | PA_INVALID | PA_CLOSED | PA_READONLY | PA_READWRITE

record Partition =
  pt_Id :: "32 word"
  pt_Name :: string
  pt_SpaceId :: int
  pt_DBId :: int
  pt_Slot :: "32 word"
  pt_LeaderID :: "64 word"
  pt_Replicas :: "64 word list"
  pt_UpdateTime :: int
  pt_AddNum :: int
  pt_ResourceExhausted :: bool
  pt_Path :: string
  pt_status :: PartitionStatus
  pt_ReStatusMap :: "64 word \<rightharpoonup> 32 word"

definition SetStatus :: "Partition \<Rightarrow> PartitionStatus \<Rightarrow> Partition" where
  "SetStatus p s = p\<lparr>pt_status := s\<rparr>"

definition GetStatus :: "Partition \<Rightarrow> PartitionStatus" where
  "GetStatus p = pt_status p"

text \<open>The partition that a composite literal with these five fields makes.\<close>

definition new_partition :: "32 word \<Rightarrow> string \<Rightarrow> int \<Rightarrow> int \<Rightarrow> 32 word \<Rightarrow> Partition" where
  "new_partition pid name spaceId dbId slot =
     \<lparr> pt_Id = pid, pt_Name = name, pt_SpaceId = spaceId, pt_DBId = dbId, pt_Slot = slot,
       pt_LeaderID = 0, pt_Replicas = [], pt_UpdateTime = 0, pt_AddNum = 0,
       pt_ResourceExhausted = False, pt_Path = [], pt_status = PA_UNKNOW,
       pt_ReStatusMap = Map.empty \<rparr>"

record Range =
  rg_Name :: string
  rg_Value :: string

record PartitionRule =
  pr_Type :: string
  pr_Field :: string
  pr_Partitions :: int
  pr_Ranges :: "Range list"

record Index =
  ix_Name :: string
  ix_Type :: string
  ix_FieldName :: string
  ix_FieldNames :: "string list"
  ix_Params :: string

record SpaceProperties =
  fp_FieldType :: FieldType
  fp_Type :: string
  fp_Index :: "Index option"
  fp_Format :: "string option"
  fp_Dimension :: int
  fp_StoreType :: "string option"
  fp_StoreParam :: string
  fp_Option :: FieldOption

record Space =
  sp_Id :: int
  sp_Desc :: string
  sp_Name :: string
  sp_ResourceName :: string
  sp_Version :: "64 word"
  sp_DBId :: int
  sp_Enabled :: "bool option"
  sp_Partitions :: "Partition list"
  sp_PartitionNum :: int
  sp_ReplicaNum :: "8 word"
  sp_Fields :: string
  sp_Indexes :: "Index option list"
  sp_PartitionRule :: "PartitionRule option"
  sp_SpaceProperties :: "(string, SpaceProperties) gomap"
  sp_RefreshInterval :: "int option"
  sp_PartitionName :: "string option"
  sp_PartitionOperatorType :: "string option"
  sp_EnableIdCache :: "bool option"
  sp_EnableRealtime :: "bool option"

text \<open>A space with nothing set, for examples.\<close>

definition empty_space :: Space where
  "empty_space =
     \<lparr> sp_Id = 0, sp_Desc = [], sp_Name = [], sp_ResourceName = [], sp_Version = 0, sp_DBId = 0,
       sp_Enabled = None, sp_Partitions = [], sp_PartitionNum = 0, sp_ReplicaNum = 0,
       sp_Fields = [], sp_Indexes = [], sp_PartitionRule = None, sp_SpaceProperties = [],
       sp_RefreshInterval = None, sp_PartitionName = None, sp_PartitionOperatorType = None,
       sp_EnableIdCache = None, sp_EnableRealtime = None \<rparr>"

record Server =
  sv_ID :: "64 word"
  sv_ResourceName :: string
  sv_RpcPort :: nat
  sv_RaftHeartbeatPort :: nat
  sv_RaftReplicatePort :: nat
  sv_Ip :: string
  sv_HostIp :: string
  sv_HostRack :: string
  sv_HostZone :: string
  sv_PartitionIds :: "32 word list"
  sv_Spaces :: "Space list"
  sv_Size :: "64 word"
  sv_Private :: bool
  sv_Version :: "(string \<times> string \<times> string) option"

definition RpcAddr :: "cast_lib \<Rightarrow> Server \<Rightarrow> string" where
  "RpcAddr cl s = sv_Ip s @ '':'' @ ToString cl (int (sv_RpcPort s))"

record Replica =
  rp_NodeID :: "64 word"
  rp_HeartbeatAddr :: string
  rp_ReplicateAddr :: string
  rp_RpcAddr :: string

definition Server_Replica :: "Server \<Rightarrow> Replica" where
  "Server_Replica s =
     \<lparr> rp_NodeID = sv_ID s,
       rp_HeartbeatAddr = sv_Ip s @ '':'' @ FormatNat (sv_RaftHeartbeatPort s),
       rp_ReplicateAddr = sv_Ip s @ '':'' @ FormatNat (sv_RaftReplicatePort s),
       rp_RpcAddr = sv_Ip s @ '':'' @ FormatNat (sv_RpcPort s) \<rparr>"

text \<open>\<^verbatim>\<open>internal/entity/constant.go\<close>.\<close>

definition MaxPartitions :: int where "MaxPartitions = 1024"

definition MaxTotalPartitions :: int where "MaxTotalPartitions = 1024 * 16"

end
