(* ===== verification/PartitionRules.thy ===== *)
theory PartitionRules
  imports Entities
begin

text \<open>
  Range partition rules: \<^verbatim>\<open>PartitionRule.Validate\<close>, \<^verbatim>\<open>ValidateRange\<close>, \<^verbatim>\<open>AddRanges\<close> and
  \<^verbatim>\<open>RangeIsSame\<close> of \<^verbatim>\<open>internal/entity/partition.go\<close>.

  A range value is a date or a number of seconds, read by the conversions of \<open>cast_lib\<close>. The
  lemmas give the exact condition under which a rule is accepted (\<open>ranges_ok\<close>), and that the binary search of \<^verbatim>\<open>insertIntoRanges\<close> keeps the ranges
  ordered by time.
\<close>

definition ToTimestamp :: "cast_lib \<Rightarrow> string \<Rightarrow> int res" where
  "ToTimestamp cl v =
     (case ToInt64E cl v of
        Inr i \<Rightarrow> Inr (int64 (i * 10 ^ 9))
      | Inl _ \<Rightarrow> (case ToTimeE cl v of
          Inl e \<Rightarrow> Inl (param_err ''date Unmarshal err'')
        | Inr t \<Rightarrow> Inr (int64 t)))"

text \<open>The value that \<^verbatim>\<open>value, _ := ToTimestamp(r.Value)\<close> leaves: 0 when there is an error.\<close>

definition ts_of :: "cast_lib \<Rightarrow> Range \<Rightarrow> int" where
  "ts_of cl r = (case ToTimestamp cl (rg_Value r) of Inr t \<Rightarrow> t | Inl _ \<Rightarrow> 0)"

definition parses :: "cast_lib \<Rightarrow> Range \<Rightarrow> bool" where
  "parses cl r = (\<not> isl (ToTimestamp cl (rg_Value r)))"

lemma ToTimestamp_parses: "parses cl r \<Longrightarrow> ToTimestamp cl (rg_Value r) = Inr (ts_of cl r)"
  by (auto simp: parses_def ts_of_def split: sum.splits)

section \<open>Validation\<close>

text \<open>The loop of \<^verbatim>\<open>ValidateRange\<close>, with the last time and the names and values met so far.\<close>

fun check_ranges ::
  "cast_lib \<Rightarrow> int \<Rightarrow> string list \<Rightarrow> string list \<Rightarrow> Range list \<Rightarrow> unit res" where
  "check_ranges cl before names vals [] = Inr ()"
| "check_ranges cl before names vals (r # rs) =
     (if rg_Name r = [] then Inl (param_err ''space partition rule range name is empty'')
      else if rg_Name r \<in> set names then
        Inl (param_err ''space partition rule range name has same one'')
      else if rg_Value r \<in> set vals then
        Inl (param_err ''space partition rule range value has same one'')
      else if rg_Value r \<noteq> [] then
        bind_res (ToTimestamp cl (rg_Value r)) (\<lambda>timeNum.
          if timeNum \<le> before
          then Inl (param_err ''range partition value needs to be increasing'')
          else check_ranges cl timeNum (rg_Name r # names) (rg_Value r # vals) rs)
      else Inl (param_err ''range partition value is empty''))"

definition ValidateRange :: "cast_lib \<Rightarrow> PartitionRule \<Rightarrow> Space \<Rightarrow> Space res" where
  "ValidateRange cl pr space =
     (if pr_Type pr \<noteq> ''RANGE'' then Inl (param_err ''now only support partition type of RANGE'')
      else case sp_PartitionRule space of
        None \<Rightarrow> Inl (GoPanic ''nil pointer dereference'')
      | Some rule \<Rightarrow>
          let n = int (length (pr_Ranges rule));
              space' = space\<lparr>sp_PartitionRule := Some (rule\<lparr>pr_Partitions := n\<rparr>)\<rparr>
          in if n = 0 then Inl (param_err ''empty space partition rule of ranges'')
             else if n > MaxPartitions then Inl (param_err ''space partitions beyond MaxPartitions'')
             else if int64 (n * sp_PartitionNum space) > MaxTotalPartitions then
               Inl (param_err ''space total partitions beyond MaxTotalPartitions'')
             else bind_res (check_ranges cl (- 1) [] [] (pr_Ranges rule)) (\<lambda>_. Inr space'))"

definition PartitionRule_Validate ::
  "cast_lib \<Rightarrow> PartitionRule \<Rightarrow> Space \<Rightarrow> bool \<Rightarrow> Space res" where
  "PartitionRule_Validate cl pr space check_field =
     (if check_field then
        (case sp_PartitionRule space of
           None \<Rightarrow> Inl (GoPanic ''nil pointer dereference'')
         | Some rule \<Rightarrow>
             if pr_Field rule = [] then Inl (param_err ''space partition rule field is empty'')
             else (case map_of (sp_SpaceProperties space) (pr_Field rule) of
               None \<Rightarrow> Inl (param_err ''not in space fields'')
             | Some v \<Rightarrow>
                 if fp_FieldType v \<noteq> FieldType_DATE
                 then Inl (param_err ''currently only partition field with DATE data type are supported'')
                 else ValidateRange cl pr space))
      else ValidateRange cl pr space)"

text \<open>What an accepted list of ranges is.\<close>

definition ranges_ok :: "cast_lib \<Rightarrow> Range list \<Rightarrow> bool" where
  "ranges_ok cl rs \<longleftrightarrow>
     (\<forall>r \<in> set rs. rg_Name r \<noteq> [] \<and> rg_Value r \<noteq> [] \<and> parses cl r \<and> 0 \<le> ts_of cl r) \<and>
     distinct (map rg_Name rs) \<and> distinct (map rg_Value rs) \<and>
     sorted_wrt (<) (map (ts_of cl) rs)"

lemma check_ranges_Inr_iff:
  "check_ranges cl before names vals rs = Inr () \<longleftrightarrow>
     (\<forall>r \<in> set rs. rg_Name r \<noteq> [] \<and> rg_Name r \<notin> set names \<and> rg_Value r \<noteq> [] \<and>
        rg_Value r \<notin> set vals \<and> parses cl r) \<and>
     distinct (map rg_Name rs) \<and> distinct (map rg_Value rs) \<and>
     sorted_wrt (<) (before # map (ts_of cl) rs)"
proof (induction rs arbitrary: before names vals)
  case Nil
  then show ?case by simp
next
  case (Cons r rs)
  show ?case
  proof (cases "ToTimestamp cl (rg_Value r)")
    case (Inl e)
    then have "\<not> parses cl r" by (simp add: parses_def)
    with Inl show ?thesis by auto
  next
    case (Inr t)
    then have "parses cl r" and t: "ts_of cl r = t" by (simp_all add: parses_def ts_of_def)
    have "(\<forall>x \<in> set (map (ts_of cl) rs). before < x) \<and> before < t"
      if "before < t" and "\<forall>x \<in> set (map (ts_of cl) rs). t < x"
      using that by force
    then show ?thesis
      using \<open>parses cl r\<close> Inr by (auto simp: Cons.IH t image_iff)
  qed
qed

lemma check_ranges_ranges_ok: "check_ranges cl (- 1) [] [] rs = Inr u \<longleftrightarrow> ranges_ok cl rs"
  by (auto simp: check_ranges_Inr_iff ranges_ok_def)

lemma ValidateRange_Inr_iff:
  "ValidateRange cl pr space = Inr space' \<longleftrightarrow>
     pr_Type pr = ''RANGE'' \<and>
     (\<exists>rule. sp_PartitionRule space = Some rule \<and> pr_Ranges rule \<noteq> [] \<and>
        int (length (pr_Ranges rule)) \<le> MaxPartitions \<and>
        int64 (int (length (pr_Ranges rule)) * sp_PartitionNum space) \<le> MaxTotalPartitions \<and>
        ranges_ok cl (pr_Ranges rule) \<and>
        space' = space\<lparr>sp_PartitionRule :=
          Some (rule\<lparr>pr_Partitions := int (length (pr_Ranges rule))\<rparr>)\<rparr>)"
  by (auto simp: ValidateRange_def Let_def res_simps check_ranges_ranges_ok split: option.splits)

section \<open>Adding ranges\<close>

text \<open>The binary search of \<^verbatim>\<open>insertIntoRanges\<close>: the first index whose time is not before \<open>ts\<close>.\<close>

function search_pos :: "cast_lib \<Rightarrow> Range list \<Rightarrow> int \<Rightarrow> nat \<Rightarrow> nat \<Rightarrow> nat res" where
  "search_pos cl arr ts left right =
     (if left < right then
        let mid = (left + right) div 2 in
        bind_res (go_index arr (int mid)) (\<lambda>r.
        bind_res (ToTimestamp cl (rg_Value r)) (\<lambda>midValue.
          if midValue < ts then search_pos cl arr ts (mid + 1) right
          else search_pos cl arr ts left mid))
      else Inr left)"
  by pat_completeness auto
termination
  by (relation "measure (\<lambda>(cl, arr, ts, left, right). right - left)") auto

declare search_pos.simps [simp del]

text \<open>\<^verbatim>\<open>append\<close>, \<^verbatim>\<open>copy\<close> and the assignment put the new range at the position found.\<close>

definition insertIntoRanges :: "cast_lib \<Rightarrow> Range list \<Rightarrow> Range \<Rightarrow> (Range list) res" where
  "insertIntoRanges cl arr r =
     bind_res (ToTimestamp cl (rg_Value r)) (\<lambda>ts.
     bind_res (search_pos cl arr ts 0 (length arr)) (\<lambda>left.
       Inr (take left arr @ r # drop left arr)))"

fun AddRanges :: "cast_lib \<Rightarrow> Range list \<Rightarrow> Range list \<Rightarrow> (Range list) res" where
  "AddRanges cl new_ranges [] = Inr new_ranges"
| "AddRanges cl new_ranges (r # rs) =
     bind_res (insertIntoRanges cl new_ranges r) (\<lambda>arr. AddRanges cl arr rs)"

text \<open>
  \<^verbatim>\<open>RangeIsSame\<close>: the first loop, over the rule's own ranges, then the second, over the ranges
  to add. It returns \<^verbatim>\<open>false\<close> or \<^verbatim>\<open>true\<close> with an error.
\<close>

fun same_own :: "string list \<Rightarrow> string list \<Rightarrow> Range list \<Rightarrow> (string list \<times> string list) res" where
  "same_own names vals [] = Inr (names, vals)"
| "same_own names vals (r # rs) =
     (if rg_Name r \<in> set names then
        Inl (param_err ''space partition rule range name has same one'')
      else if rg_Value r \<in> set vals then
        Inl (param_err ''space partition rule range value has same one'')
      else same_own (rg_Name r # names) (rg_Value r # vals) rs)"

definition RangeIsSame :: "PartitionRule \<Rightarrow> Range list \<Rightarrow> bool res" where
  "RangeIsSame pr ranges =
     bind_res (same_own [] [] (pr_Ranges pr)) (\<lambda>(names, vals).
     bind_res (each_res (\<lambda>r.
         if rg_Name r \<in> set names then
           Inl (param_err ''space partition rule range name has same one'')
         else guard (rg_Value r \<in> set vals)
           (param_err ''space partition rule range value has same one'')) ranges)
       (\<lambda>_. Inr False))"

lemma search_pos_spec:
  assumes "\<forall>r \<in> set arr. parses cl r" and "sorted (map (ts_of cl) arr)"
    and "left \<le> right" and "right \<le> length arr"
    and "\<forall>i < left. ts_of cl (arr ! i) < ts"
    and "\<forall>i. right \<le> i \<and> i < length arr \<longrightarrow> ts \<le> ts_of cl (arr ! i)"
  shows "\<exists>p. search_pos cl arr ts left right = Inr p \<and> p \<le> length arr \<and>
    (\<forall>i < p. ts_of cl (arr ! i) < ts) \<and>
    (\<forall>i. p \<le> i \<and> i < length arr \<longrightarrow> ts \<le> ts_of cl (arr ! i))"
  using assms
proof (induction cl arr ts left right rule: search_pos.induct)
  case (1 cl arr ts left right)
  show ?case
  proof (cases "left < right")
    case False
    with "1.prems" have "left = right" by simp
    with "1.prems" show ?thesis by (subst search_pos.simps) auto
  next
    case True
    define mid where "mid = (left + right) div 2"
    have mid: "left \<le> mid" "mid < right" "mid < length arr"
      using True "1.prems"(4) by (auto simp: mid_def)
    then have time: "ToTimestamp cl (rg_Value (arr ! mid)) = Inr (ts_of cl (arr ! mid))"
      using "1.prems"(1) by (simp add: ToTimestamp_parses)
    have idx: "go_index arr (int mid) = Inr (arr ! mid)"
      using mid by simp
    have step: "search_pos cl arr ts left right =
        (if ts_of cl (arr ! mid) < ts then search_pos cl arr ts (mid + 1) right
         else search_pos cl arr ts left mid)"
      using True time mid(3)
      by (simp add: search_pos.simps [of cl arr ts left right] mid_def [symmetric])
    have mono: "ts_of cl (arr ! i) \<le> ts_of cl (arr ! j)" if "i \<le> j" "j < length arr" for i j
      using "1.prems"(2) that sorted_nth_mono [of "map (ts_of cl) arr" i j] by simp
    show ?thesis
    proof (cases "ts_of cl (arr ! mid) < ts")
      case True
      have "\<forall>i < mid + 1. ts_of cl (arr ! i) < ts"
        using True mono [of _ mid] mid(3) by (metis Suc_eq_plus1 less_Suc_eq_le le_less_trans)
      then show ?thesis
        using "1.IH"(1) [OF \<open>left < right\<close> mid_def idx time True] "1.prems" mid True
        by (simp add: step)
    next
      case False
      have "\<forall>i. mid \<le> i \<and> i < length arr \<longrightarrow> ts \<le> ts_of cl (arr ! i)"
        using False mono [of mid] by (meson le_less_trans not_less)
      then show ?thesis
        using "1.IH"(2) [OF \<open>left < right\<close> mid_def idx time False] "1.prems" mid False
        by (simp add: step)
    qed
  qed
qed

lemma insertIntoRanges_spec:
  assumes "\<forall>a \<in> set arr. parses cl a" and "sorted (map (ts_of cl) arr)" and "parses cl r"
  shows "\<exists>arr'. insertIntoRanges cl arr r = Inr arr' \<and> sorted (map (ts_of cl) arr') \<and>
    mset arr' = add_mset r (mset arr)"
proof -
  obtain p where p: "search_pos cl arr (ts_of cl r) 0 (length arr) = Inr p" "p \<le> length arr"
    and lo: "\<forall>i < p. ts_of cl (arr ! i) < ts_of cl r"
    and hi: "\<forall>i. p \<le> i \<and> i < length arr \<longrightarrow> ts_of cl r \<le> ts_of cl (arr ! i)"
    using search_pos_spec [OF assms(1,2), of 0 "length arr" "ts_of cl r"] by auto
  have "\<forall>a \<in> set (take p arr). ts_of cl a \<le> ts_of cl r"
    using lo p(2) by (fastforce simp: in_set_conv_nth)
  moreover have "\<forall>a \<in> set (drop p arr). ts_of cl r \<le> ts_of cl a"
    using hi p(2) by (auto simp: in_set_conv_nth)
  moreover have "sorted (map (ts_of cl) (take p arr))" "sorted (map (ts_of cl) (drop p arr))"
    using assms(2) by (metis sorted_wrt_take take_map, metis sorted_wrt_drop drop_map)
  ultimately have "sorted (map (ts_of cl) (take p arr) @ ts_of cl r # map (ts_of cl) (drop p arr))"
    by (fastforce simp: sorted_append)
  moreover have "mset (take p arr @ r # drop p arr) = add_mset r (mset arr)"
    by (simp add: mset_take_drop)
  ultimately show ?thesis
    using p(1) ToTimestamp_parses [OF assms(3)] by (simp add: insertIntoRanges_def)
qed

lemma AddRanges_spec:
  assumes "\<forall>a \<in> set arr. parses cl a" and "sorted (map (ts_of cl) arr)"
    and "\<forall>r \<in> set rs. parses cl r"
  shows "\<exists>arr'. AddRanges cl arr rs = Inr arr' \<and> sorted (map (ts_of cl) arr') \<and>
    mset arr' = mset arr + mset rs"
  using assms
proof (induction rs arbitrary: arr)
  case Nil
  then show ?case by simp
next
  case (Cons r rs)
  obtain arr1 where a: "insertIntoRanges cl arr r = Inr arr1" "sorted (map (ts_of cl) arr1)"
    "mset arr1 = add_mset r (mset arr)"
    using insertIntoRanges_spec [OF Cons.prems(1,2)] Cons.prems(3) by auto
  have "\<forall>a \<in> set arr1. parses cl a"
    using Cons.prems(1,3) by (metis a(3) insert_iff list.set_intros(1) set_mset_add_mset_insert
        set_mset_mset)
  from Cons.IH [OF this a(2)] Cons.prems(3) show ?case
    by (auto simp: a(1,3))
qed

lemma AddRanges_parses:
  "AddRanges cl arr rs = Inr arr' \<Longrightarrow> \<forall>r \<in> set rs. parses cl r"
proof (induction rs arbitrary: arr)
  case Nil
  then show ?case by simp
next
  case (Cons r rs)
  then show ?case
    by (auto simp: res_simps insertIntoRanges_def parses_def)
qed

lemma same_own_Inr_iff:
  "same_own names vals rs = Inr z \<longleftrightarrow>
     distinct (map rg_Name rs) \<and> distinct (map rg_Value rs) \<and>
     (\<forall>r \<in> set rs. rg_Name r \<notin> set names \<and> rg_Value r \<notin> set vals) \<and>
     z = (rev (map rg_Name rs) @ names, rev (map rg_Value rs) @ vals)"
  by (induction rs arbitrary: names vals) (auto simp: image_iff)

lemma RangeIsSame_Inr_iff:
  "RangeIsSame pr ranges = Inr b \<longleftrightarrow>
     \<not> b \<and> distinct (map rg_Name (pr_Ranges pr)) \<and> distinct (map rg_Value (pr_Ranges pr)) \<and>
     (\<forall>r \<in> set ranges. rg_Name r \<notin> rg_Name ` set (pr_Ranges pr) \<and>
        rg_Value r \<notin> rg_Value ` set (pr_Ranges pr))"
  by (auto simp: RangeIsSame_def res_simps same_own_Inr_iff split: if_splits prod.splits)

section \<open>Properties\<close>

text \<open>
  \<^verbatim>\<open>ValidateRange\<close> accepts exactly the rules of type \<^verbatim>\<open>RANGE\<close> whose ranges are within the limits
  and well formed: names and values set and pairwise different, all values times, and the times
  strictly increasing; it then records the number of ranges.
\<close>

theorem ValidateRange_accepts:
  "ValidateRange cl pr space = Inr space' \<longleftrightarrow>
     pr_Type pr = ''RANGE'' \<and>
     (\<exists>rule. sp_PartitionRule space = Some rule \<and> pr_Ranges rule \<noteq> [] \<and>
        int (length (pr_Ranges rule)) \<le> MaxPartitions \<and>
        int64 (int (length (pr_Ranges rule)) * sp_PartitionNum space) \<le> MaxTotalPartitions \<and>
        ranges_ok cl (pr_Ranges rule) \<and>
        space' = space\<lparr>sp_PartitionRule :=
          Some (rule\<lparr>pr_Partitions := int (length (pr_Ranges rule))\<rparr>)\<rparr>)"
  by (rule ValidateRange_Inr_iff)

text \<open>
  \<^verbatim>\<open>AddRanges\<close> inserts ranges by time. On ranges ordered by time it succeeds exactly when the
  values of all new ranges are times, and the result is ordered and consists of the old and the new
  ranges.
\<close>

theorem AddRanges_keeps_order:
  assumes "\<forall>a \<in> set arr. parses cl a" and "sorted (map (ts_of cl) arr)"
  shows "(\<exists>arr'. AddRanges cl arr rs = Inr arr') = (\<forall>r \<in> set rs. parses cl r) \<and>
    (\<forall>arr'. AddRanges cl arr rs = Inr arr' \<longrightarrow>
       sorted (map (ts_of cl) arr') \<and> mset arr' = mset arr + mset rs)"
proof (cases "\<forall>r \<in> set rs. parses cl r")
  case True
  with AddRanges_spec [OF assms] show ?thesis by fastforce
next
  case False
  then have "\<nexists>arr'. AddRanges cl arr rs = Inr arr'" using AddRanges_parses by blast
  with False show ?thesis by blast
qed

text \<open>Whole seconds as decimal numbers, and nothing else, stand for times in the examples.\<close>

definition demo_cast :: cast_lib where
  "demo_cast =
     \<lparr> ToInt64E = (\<lambda>s. ParseInt s), ToTimeE = (\<lambda>s. Inl (GoErr ''unable to parse date'')),
       ToString = FormatInt \<rparr>"

theorem AddRanges_keeps_order_witness:
  "\<exists>arr'. AddRanges demo_cast [\<lparr>rg_Name = ''a'', rg_Value = ''5''\<rparr>] [\<lparr>rg_Name = ''b'', rg_Value = ''3''\<rparr>] = Inr arr' \<and>
     sorted (map (ts_of demo_cast) arr') \<and>
     mset arr' = mset [\<lparr>rg_Name = ''a'', rg_Value = ''5''\<rparr>] + mset [\<lparr>rg_Name = ''b'', rg_Value = ''3''\<rparr>]"
proof -
  have "\<forall>a \<in> set [\<lparr>rg_Name = ''a'', rg_Value = ''5''\<rparr>]. parses demo_cast a" by code_simp
  moreover have "sorted (map (ts_of demo_cast) [\<lparr>rg_Name = ''a'', rg_Value = ''5''\<rparr>])" by simp
  moreover have "\<forall>r \<in> set [\<lparr>rg_Name = ''b'', rg_Value = ''3''\<rparr>]. parses demo_cast r" by code_simp
  ultimately show ?thesis using AddRanges_keeps_order by blast
qed

end
