(* ===== verification/SpaceRouting.thy ===== *)
theory SpaceRouting
  imports PartitionRules Bytes "HOL-Library.Signed_Division"
begin

text \<open>
  Which partition a document belongs to: \<^verbatim>\<open>Space.GetPartition\<close>, \<^verbatim>\<open>Space.PartitionId\<close>,
  \<^verbatim>\<open>Space.PartitionIdsByRangeField\<close> and \<^verbatim>\<open>Space.GetFieldIndexType\<close> of
  \<^verbatim>\<open>internal/entity/space.go\<close>, and the slots that \<^verbatim>\<open>CreateSpace\<close> of
  \<^verbatim>\<open>internal/master/services/space_service.go\<close> gives to the partitions.

  A slot is a \<open>32 word\<close>; a partition owns the slots from its own up to the next partition's.
  The lemmas show that the binary search finds the owner whenever the slots start at 0 and
  increase strictly (\<open>slots_ok\<close>), that the slots of a new space are of that kind, and hence
  in closed form which partition a hash goes to.
\<close>

section \<open>Lookups\<close>

definition GetPartition :: "Space \<Rightarrow> 32 word \<Rightarrow> Partition option" where
  "GetPartition s pid = find (\<lambda>p. pt_Id p = pid) (sp_Partitions s)"

text \<open>The loop over the indexes, then the entry of the field in the properties.\<close>

fun find_index_type :: "Index option list \<Rightarrow> string \<Rightarrow> (string option) res" where
  "find_index_type [] fieldName = Inr None"
| "find_index_type (None # ixs) fieldName = Inl (GoPanic ''nil pointer dereference'')"
| "find_index_type (Some ix # ixs) fieldName =
     (if ix_FieldName ix = fieldName then Inr (Some (ix_Type ix))
      else find_index_type ixs fieldName)"

definition GetFieldIndexType :: "Space \<Rightarrow> string \<Rightarrow> string res" where
  "GetFieldIndexType s fieldName =
     bind_res (find_index_type (sp_Indexes s) fieldName) (\<lambda>t.
       case t of
         Some ty \<Rightarrow> Inr ty
       | None \<Rightarrow> (case map_of (sp_SpaceProperties s) fieldName of
           None \<Rightarrow> Inr []
         | Some pro \<Rightarrow> (case fp_Index pro of None \<Rightarrow> Inr [] | Some ix \<Rightarrow> Inr (ix_Type ix))))"

section \<open>Routing by slot\<close>

function PartitionId_loop :: "Partition list \<Rightarrow> 32 word \<Rightarrow> int \<Rightarrow> int \<Rightarrow> (32 word) res" where
  "PartitionId_loop arr slotID low high =
     (if low \<le> high then
        let mid = (low + high) div 2 in
        bind_res (go_index arr mid) (\<lambda>p.
          if pt_Slot p > slotID then PartitionId_loop arr slotID low (mid - 1)
          else if pt_Slot p < slotID then PartitionId_loop arr slotID (mid + 1) high
          else Inr (pt_Id p))
      else bind_res (go_index arr (low - 1)) (\<lambda>p. Inr (pt_Id p)))"
  by pat_completeness auto
termination
  by (relation "measure (\<lambda>(arr, slotID, low, high). nat (high - low + 1))") auto

declare PartitionId_loop.simps [simp del]

definition PartitionId :: "Space \<Rightarrow> 32 word \<Rightarrow> (32 word) res" where
  "PartitionId s slotID =
     (if length (sp_Partitions s) = 1 then Inr (pt_Id (sp_Partitions s ! 0))
      else PartitionId_loop (sp_Partitions s) slotID 0 (int (length (sp_Partitions s)) - 1))"

text \<open>\<open>owns arr slot i\<close>: the partition at \<open>i\<close> is the last one whose slot is not above \<open>slot\<close>.\<close>

definition owns :: "Partition list \<Rightarrow> 32 word \<Rightarrow> nat \<Rightarrow> bool" where
  "owns arr slot i \<longleftrightarrow>
     i < length arr \<and> pt_Slot (arr ! i) \<le> slot \<and>
     (\<forall>j. i < j \<and> j < length arr \<longrightarrow> slot < pt_Slot (arr ! j))"

definition slots_ok :: "Partition list \<Rightarrow> bool" where
  "slots_ok arr \<longleftrightarrow>
     arr \<noteq> [] \<and> pt_Slot (hd arr) = 0 \<and> sorted_wrt (<) (map pt_Slot arr)"

lemma slots_ok_mono:
  "slots_ok arr \<Longrightarrow> i < j \<Longrightarrow> j < length arr \<Longrightarrow> pt_Slot (arr ! i) < pt_Slot (arr ! j)"
  unfolding slots_ok_def using sorted_wrt_nth_less [of "(<)" "map pt_Slot arr" i j] by simp

lemma owns_unique: "slots_ok arr \<Longrightarrow> owns arr slot i \<Longrightarrow> owns arr slot j \<Longrightarrow> i = j"
  by (metis linorder_neqE_nat not_le owns_def)

lemma PartitionId_loop_spec:
  assumes "slots_ok arr" and "0 \<le> low" and "high < int (length arr)" and "low \<le> high + 1"
    and "\<forall>i. int i < low \<longrightarrow> pt_Slot (arr ! i) < slot"
    and "\<forall>i. high < int i \<and> i < length arr \<longrightarrow> slot < pt_Slot (arr ! i)"
  shows "\<exists>i. PartitionId_loop arr slot low high = Inr (pt_Id (arr ! i)) \<and> owns arr slot i"
  using assms
proof (induction arr slot low high rule: PartitionId_loop.induct)
  case (1 arr slot low high)
  note unfold = PartitionId_loop.simps [of arr slot low high]
  show ?case
  proof (cases "low \<le> high")
    case False
    with "1.prems" have hl: "low = high + 1" by simp
    have "low \<noteq> 0"
    proof
      assume "low = 0"
      with hl "1.prems"(1,6) have "slot < pt_Slot (arr ! 0)"
        by (auto simp: slots_ok_def)
      moreover have "pt_Slot (arr ! 0) = 0"
        using "1.prems"(1) by (auto simp: slots_ok_def simp flip: hd_conv_nth)
      ultimately show False by simp
    qed
    then have i: "0 \<le> low - 1" "low - 1 < int (length arr)"
      using "1.prems" hl by auto
    define i where "i = nat (low - 1)"
    have "pt_Slot (arr ! i) < slot" and "\<forall>j. i < j \<and> j < length arr \<longrightarrow> slot < pt_Slot (arr ! j)"
      using "1.prems"(5,6) i hl by (auto simp: i_def)
    then have "owns arr slot i"
      using i by (auto simp: owns_def i_def)
    moreover have "PartitionId_loop arr slot low high = Inr (pt_Id (arr ! i))"
      using False i by (simp add: unfold go_index_def i_def)
    ultimately show ?thesis by blast
  next
    case True
    define mid where "mid = (low + high) div 2"
    have mid: "low \<le> mid" "mid \<le> high" "0 \<le> mid" "mid < int (length arr)"
      using True "1.prems" by (auto simp: mid_def)
    define m where "m = nat mid"
    have m: "mid = int m" "m < length arr" using mid by (auto simp: m_def)
    have idx: "go_index arr mid = Inr (arr ! m)" using m(2) by (simp add: m(1))
    have step: "PartitionId_loop arr slot low high =
        (if pt_Slot (arr ! m) > slot then PartitionId_loop arr slot low (mid - 1)
         else if pt_Slot (arr ! m) < slot then PartitionId_loop arr slot (mid + 1) high
         else Inr (pt_Id (arr ! m)))"
      using True by (simp add: unfold mid_def [symmetric] idx)
    consider (gt) "pt_Slot (arr ! m) > slot" | (lt) "pt_Slot (arr ! m) < slot"
      | (eq) "pt_Slot (arr ! m) = slot" by fastforce
    then show ?thesis
    proof cases
      case gt
      have "slot < pt_Slot (arr ! i)" if "mid - 1 < int i" "i < length arr" for i
        using that gt slots_ok_mono [OF "1.prems"(1), of m i] m
        by (cases "i = m") (auto intro: less_trans)
      with "1.IH"(1) [OF True mid_def idx gt] "1.prems" mid gt show ?thesis
        by (simp add: step)
    next
      case lt
      have "pt_Slot (arr ! i) < slot" if "int i < mid + 1" for i
        using that lt slots_ok_mono [OF "1.prems"(1), of i m] m
        by (cases "i = m") (auto intro: less_trans)
      moreover have nlt: "\<not> slot < pt_Slot (arr ! m)" using lt by simp
      ultimately show ?thesis
        using "1.IH"(2) [OF True mid_def idx nlt lt] "1.prems" mid lt nlt by (simp add: step)
    next
      case eq
      have "owns arr slot m"
        using m eq slots_ok_mono [OF "1.prems"(1), of m] by (auto simp: owns_def)
      with eq show ?thesis by (auto simp: step)
    qed
  qed
qed

lemma PartitionId_owner:
  assumes "slots_ok (sp_Partitions s)"
  shows "\<exists>i. PartitionId s slot = Inr (pt_Id (sp_Partitions s ! i)) \<and>
    owns (sp_Partitions s) slot i"
proof (cases "length (sp_Partitions s) = 1")
  case True
  then obtain p where p: "sp_Partitions s = [p]"
    by (auto simp: length_Suc_conv)
  then have "owns (sp_Partitions s) slot 0"
    using assms by (auto simp: owns_def slots_ok_def)
  with True show ?thesis by (auto simp: PartitionId_def)
next
  case False
  have "0 < length (sp_Partitions s)" using assms by (simp add: slots_ok_def)
  then have "\<exists>i. PartitionId_loop (sp_Partitions s) slot 0 (int (length (sp_Partitions s)) - 1) =
      Inr (pt_Id (sp_Partitions s ! i)) \<and> owns (sp_Partitions s) slot i"
    by (intro PartitionId_loop_spec [OF assms]) auto
  with False show ?thesis by (simp add: PartitionId_def)
qed

lemma PartitionId_owner_eq:
  assumes "slots_ok (sp_Partitions s)" and "owns (sp_Partitions s) slot i"
  shows "PartitionId s slot = Inr (pt_Id (sp_Partitions s ! i))"
  using PartitionId_owner [OF assms(1)] owns_unique [OF assms(1) assms(2)] by blast

section \<open>The slots of a new space\<close>

text \<open>The partitions that a loop of \<^verbatim>\<open>CreateSpace\<close> makes from the numbers \<open>ids\<close>.\<close>

definition make_partitions ::
  "int \<Rightarrow> int \<Rightarrow> int \<Rightarrow> (nat \<Rightarrow> string) \<Rightarrow> int list \<Rightarrow> Partition list" where
  "make_partitions spaceId dbId slotWidth name ids =
     map (\<lambda>i. new_partition (word_of_int (ids ! i)) (name i) spaceId dbId
                (word_of_int (int i * slotWidth))) [0..<length ids]"

text \<open>
  The two loops of \<^verbatim>\<open>CreateSpace\<close>, with a partition rule and without: \<open>gen i\<close> is what the
  \<open>i\<close>-th call of \<^verbatim>\<open>NewIDGenerate\<close> returns. \<^verbatim>\<open>math.MaxUint32 / n\<close> panics for 0, a negative
  \<open>n\<close> makes no partition, and the new partitions are appended to those the space has.
\<close>

definition slot_loop :: "(nat \<Rightarrow> int res) \<Rightarrow> Space \<Rightarrow> int \<Rightarrow> (nat \<Rightarrow> string res) \<Rightarrow> Space res" where
  "slot_loop gen space n name =
     (if n = 0 then Inl (GoPanic ''integer divide by zero'')
      else bind_res (map_res (\<lambda>i.
          bind_res (gen i) (\<lambda>pid. bind_res (name i) (\<lambda>nm.
            Inr (new_partition (word_of_int pid) nm (sp_Id space) (sp_DBId space)
                   (word_of_int (int i * (4294967295 sdiv n))))))) [0..<nat n])
        (\<lambda>ps. Inr (space\<lparr>sp_Partitions := sp_Partitions space @ ps\<rparr>)))"

definition alloc_partitions :: "(nat \<Rightarrow> int res) \<Rightarrow> Space \<Rightarrow> Space res" where
  "alloc_partitions gen space =
     (case sp_PartitionRule space of
        None \<Rightarrow> slot_loop gen space (sp_PartitionNum space) (\<lambda>i. Inr [])
      | Some rule \<Rightarrow>
          slot_loop gen space (int64 (sp_PartitionNum space * pr_Partitions rule))
            (\<lambda>i. bind_res (go_index (pr_Ranges rule) (int i sdiv sp_PartitionNum space))
                   (\<lambda>r. Inr (rg_Name r))))"

lemma length_make_partitions [simp]:
  "length (make_partitions sid did w name ids) = length ids"
  by (simp add: make_partitions_def)

lemma make_partitions_nth:
  "i < length ids \<Longrightarrow> make_partitions sid did w name ids ! i =
     new_partition (word_of_int (ids ! i)) (name i) sid did (word_of_int (int i * w))"
  by (simp add: make_partitions_def)

lemma slot_width_bounds:
  assumes "0 < n" and "n \<le> (4294967295 :: int)"
  shows "1 \<le> 4294967295 div n" and "0 \<le> i \<Longrightarrow> i < n \<Longrightarrow> i * (4294967295 div n) < 2 ^ 32"
proof -
  show "1 \<le> 4294967295 div n"
    using assms by (simp add: int_one_le_iff_zero_less pos_imp_zdiv_pos_iff)
  have "n * (4294967295 div n) \<le> 4294967295"
    using assms(1) by (metis mult.commute pos_mod_sign minus_mod_eq_div_mult diff_le_self
        le_add_same_cancel1 minus_mod_eq_mult_div diff_le_eq)
  then show "i * (4294967295 div n) < 2 ^ 32" if "0 \<le> i" and "i < n"
  proof -
    have "i * (4294967295 div n) \<le> n * (4294967295 div n)"
      using that \<open>1 \<le> 4294967295 div n\<close> by (intro mult_right_mono) auto
    with \<open>n * (4294967295 div n) \<le> 4294967295\<close> show ?thesis by simp
  qed
qed

lemma uint_slot:
  assumes "0 < n" and "n \<le> 4294967295" and "int i < n"
  shows "uint (word_of_int (int i * (4294967295 div n)) :: 32 word) = int i * (4294967295 div n)"
proof -
  have "0 \<le> int i * (4294967295 div n)"
    using slot_width_bounds(1) [OF assms(1,2)] by simp
  moreover have "int i * (4294967295 div n) < 2 ^ 32"
    using slot_width_bounds(2) [OF assms(1,2)] assms(3) by simp
  ultimately show ?thesis
    by (simp add: uint_word_of_int_eq take_bit_int_eq_self del: of_int_mult of_int_of_nat_eq)
qed

lemma slots_ok_make_partitions:
  assumes "0 < length ids" and "length ids \<le> 4294967295"
  shows "slots_ok (make_partitions sid did (4294967295 div int (length ids)) name ids)"
proof -
  let ?n = "int (length ids)" and ?w = "4294967295 div int (length ids)"
  let ?ps = "make_partitions sid did ?w name ids"
  have n: "0 < ?n" "?n \<le> 4294967295" using assms by auto
  have "pt_Slot (?ps ! i) < pt_Slot (?ps ! j)" if "i < j" "j < length ids" for i j
  proof -
    have "int i * ?w < int j * ?w"
      using that(1) slot_width_bounds(1) [OF n] by simp
    then show ?thesis
      using that uint_slot [OF n, of i] uint_slot [OF n, of j]
      by (simp add: make_partitions_nth new_partition_def word_less_def)
  qed
  then have "sorted_wrt (<) (map pt_Slot ?ps)"
    by (simp add: sorted_wrt_iff_nth_less)
  moreover have "?ps \<noteq> []" and "pt_Slot (hd ?ps) = 0"
    using assms(1) by (auto simp: hd_conv_nth make_partitions_nth new_partition_def
        simp flip: length_greater_0_conv)
  ultimately show ?thesis by (simp add: slots_ok_def)
qed

text \<open>The partition that owns a slot: slot divided by the width, the last one at most.\<close>

lemma owns_make_partitions:
  fixes slot :: "32 word"
  assumes "0 < length ids" and "length ids \<le> 4294967295"
  defines "w \<equiv> 4294967295 div int (length ids)"
  shows "owns (make_partitions sid did w name ids) slot
    (min (length ids - 1) (nat (uint slot div w)))"
proof -
  let ?n = "int (length ids)"
  let ?ps = "make_partitions sid did w name ids"
  have n: "0 < ?n" "?n \<le> 4294967295" using assms(1,2) by auto
  have w: "1 \<le> w" using slot_width_bounds(1) [OF n] by (simp add: w_def)
  have slot: "uint (pt_Slot (?ps ! i)) = int i * w" if "i < length ids" for i
    using that uint_slot [OF n, of i]
    by (simp add: make_partitions_nth new_partition_def w_def)
  define q where "q = nat (uint slot div w)"
  define i where "i = min (length ids - 1) q"
  have i: "i < length ids" using assms(1) by (simp add: i_def min_def) linarith
  have q: "int q = uint slot div w" using w by (simp add: q_def pos_imp_zdiv_nonneg_iff)
  have "int i * w \<le> int q * w" using w by (simp add: i_def)
  also have "\<dots> \<le> uint slot"
    using w pos_mod_sign [of w "uint slot"] div_mult_mod_eq [of "uint slot" w]
    unfolding q by linarith
  finally have le: "pt_Slot (?ps ! i) \<le> slot" using slot [OF i] by (simp add: word_le_def)
  have gt: "slot < pt_Slot (?ps ! j)" if "i < j" "j < length ids" for j
  proof -
    from that have "q < j" by (auto simp: i_def min_def split: if_splits)
    then have "int q + 1 \<le> int j" by simp
    then have "(int q + 1) * w \<le> int j * w" using w by (simp add: mult_right_mono)
    moreover have "uint slot < (int q + 1) * w"
      using w pos_mod_bound [of w "uint slot"] div_mult_mod_eq [of "uint slot" w]
      unfolding q distrib_right by linarith
    ultimately show ?thesis using slot [OF that(2)] by (simp add: word_less_def)
  qed
  show ?thesis
    using i le gt unfolding owns_def q_def [symmetric] i_def [symmetric] by simp
qed

lemma slot_loop_Inr:
  assumes "0 < n" and "\<And>i. i < nat n \<Longrightarrow> gen i = Inr (ids ! i)" and "length ids = nat n"
    and "\<And>i. i < nat n \<Longrightarrow> name i = Inr (nm i)"
  shows "slot_loop gen space n name = Inr (space\<lparr>sp_Partitions := sp_Partitions space @
    make_partitions (sp_Id space) (sp_DBId space) (4294967295 div int (length ids)) nm ids\<rparr>)"
proof -
  let ?mk = "\<lambda>i. new_partition (word_of_int (ids ! i)) (nm i) (sp_Id space) (sp_DBId space)
    (word_of_int (int i * (4294967295 sdiv n)))"
  have w: "4294967295 sdiv n = 4294967295 div int (length ids)"
    using assms(1,3) by (simp add: signed_divide_int_def)
  have "map_res (\<lambda>i. bind_res (gen i) (\<lambda>pid. bind_res (name i) (\<lambda>nm.
      Inr (new_partition (word_of_int pid) nm (sp_Id space) (sp_DBId space)
        (word_of_int (int i * (4294967295 sdiv n))))))) [0..<nat n] = Inr (map ?mk [0..<nat n])"
    using assms(2,4) by (intro map_res_Inr) simp
  then show ?thesis
    using assms(1,3) by (simp only: slot_loop_def make_partitions_def w) simp
qed

lemma PartitionId_make_partitions:
  assumes "sp_Partitions s = make_partitions sid did (4294967295 div int (length ids)) name ids"
    and "0 < length ids" and "length ids \<le> 4294967295"
  shows "PartitionId s slot = Inr (word_of_int
    (ids ! min (length ids - 1) (nat (uint slot div (4294967295 div int (length ids))))))"
proof -
  let ?i = "min (length ids - 1) (nat (uint slot div (4294967295 div int (length ids))))"
  have "?i < length ids" using assms(2) by (simp add: min_def) linarith
  then show ?thesis
    using PartitionId_owner_eq [of s slot ?i] slots_ok_make_partitions [OF assms(2,3)]
      owns_make_partitions [OF assms(2,3)]
    by (simp add: assms(1) make_partitions_nth new_partition_def)
qed

section \<open>Routing by the range field\<close>

text \<open>The \<open>ranges\<close> loop takes the first range whose bound is above the time stamp.\<close>

definition PartitionIdsByRangeField ::
  "cast_lib \<Rightarrow> Space \<Rightarrow> 8 word list \<Rightarrow> (32 word list) res" where
  "PartitionIdsByRangeField cl s value =
     (if length (sp_Partitions s) = 1 then Inr [pt_Id (sp_Partitions s ! 0)]
      else bind_res (Bytes2Int value) (\<lambda>ts.
        case sp_PartitionRule s of
          None \<Rightarrow> Inl (GoPanic ''nil pointer dereference'')
        | Some rule \<Rightarrow>
           (case find (\<lambda>r. ts < ts_of cl r) (pr_Ranges rule) of
              None \<Rightarrow> Inl (param_err ''can't set partition for field value'')
            | Some r \<Rightarrow>
                Inr (map pt_Id (filter (\<lambda>p. pt_Name p = rg_Name r) (sp_Partitions s))))))"

lemma find_sorted_Some:
  assumes "sorted_wrt (<) (map f xs)"
  shows "find (\<lambda>x. t < f x) xs = Some x \<longleftrightarrow>
    (\<exists>i < length xs. x = xs ! i \<and> t < f (xs ! i) \<and> (i = 0 \<or> f (xs ! (i - 1)) \<le> (t :: int)))"
proof -
  have "(\<forall>j < i. \<not> t < f (xs ! j)) \<longleftrightarrow> (i = 0 \<or> f (xs ! (i - 1)) \<le> t)" if "i < length xs" for i
  proof (cases i)
    case (Suc k)
    have "f (xs ! j) \<le> f (xs ! k)" if "j \<le> k" for j
      using that \<open>i < length xs\<close> Suc sorted_wrt_nth_less [OF assms, of j k]
      by (cases "j = k") auto
    then have "f (xs ! j) \<le> t" if "f (xs ! k) \<le> t" "j < Suc k" for j
      using that order_trans [of "f (xs ! j)" "f (xs ! k)" t] by simp
    then show ?thesis using Suc by (auto simp: not_less)
  qed simp
  then show ?thesis unfolding find_Some_iff by blast
qed

lemma find_sorted_None:
  assumes "sorted_wrt (<) (map f xs)" and "xs \<noteq> []"
  shows "find (\<lambda>x. t < f x) xs = None \<longleftrightarrow> f (last xs) \<le> (t :: int)"
proof -
  have "f x \<le> f (last xs)" if "x \<in> set xs" for x
  proof -
    from that obtain i where i: "i < length xs" "x = xs ! i" by (auto simp: in_set_conv_nth)
    then show ?thesis
      using sorted_wrt_nth_less [OF assms(1), of i "length xs - 1"] assms(2)
      by (cases "i = length xs - 1") (auto simp: last_conv_nth intro: less_imp_le)
  qed
  then show ?thesis
    using assms(2) by (auto simp: find_None_iff not_less intro: order_trans)
qed

section \<open>Properties\<close>

text \<open>
  C11: \<^verbatim>\<open>Space.PartitionId\<close> is total and right on every space whose slots start at 0 and
  increase: the binary search ends without a panic, and the partition it returns is the only
  one whose slot interval contains the slot.
\<close>

theorem PartitionId_finds_owner:
  assumes "slots_ok (sp_Partitions s)"
  shows "\<exists>!i. owns (sp_Partitions s) slot i \<and>
    PartitionId s slot = Inr (pt_Id (sp_Partitions s ! i))"
  using PartitionId_owner [OF assms] owns_unique [OF assms] by metis

theorem PartitionId_finds_owner_witness:
  "\<exists>!i. owns (sp_Partitions (empty_space\<lparr>sp_Partitions := make_partitions 1 2 1431655765 (\<lambda>i. []) [7, 8, 9]\<rparr>)) 5 i \<and>
     PartitionId (empty_space\<lparr>sp_Partitions := make_partitions 1 2 1431655765 (\<lambda>i. []) [7, 8, 9]\<rparr>) 5 =
       Inr (pt_Id (sp_Partitions (empty_space\<lparr>sp_Partitions := make_partitions 1 2 1431655765 (\<lambda>i. []) [7, 8, 9]\<rparr>) ! i))"
  by (rule PartitionId_finds_owner) (simp add: slots_ok_def make_partitions_def new_partition_def upt_rec)

text \<open>
  C1: the slots that \<^verbatim>\<open>CreateSpace\<close> hands out cover the whole hash range. When every id
  is generated and the space has \<open>n\<close> partitions in all, \<open>1 \<le> n \<le> MaxUint32\<close>, the allocation
  succeeds, and a document with hash \<open>h\<close> goes to partition \<open>h div (MaxUint32 div n)\<close>, or to
  the last one: no key is unroutable and the shares are equal up to the remainder.
\<close>

theorem alloc_partitions_route:
  assumes "sp_PartitionRule space = None" and "sp_Partitions space = []"
    and "sp_PartitionNum space = int n" and "0 < n" and "n \<le> 4294967295"
    and "\<And>i. gen i = Inr (ids i)"
  shows "\<exists>space'. alloc_partitions gen space = Inr space' \<and>
    slots_ok (sp_Partitions space') \<and> length (sp_Partitions space') = n \<and>
    (\<forall>h. PartitionId space' h =
       Inr (word_of_int (ids (min (n - 1) (nat (uint h div (4294967295 div int n)))))))"
proof -
  let ?ids = "map ids [0..<n]"
  let ?s = "space\<lparr>sp_Partitions := make_partitions (sp_Id space) (sp_DBId space)
    (4294967295 div int (length ?ids)) (\<lambda>i. []) ?ids\<rparr>"
  have "alloc_partitions gen space = Inr ?s"
    using slot_loop_Inr [of "int n" gen ?ids "\<lambda>i. Inr []" "\<lambda>i. []" space] assms
    by (simp add: alloc_partitions_def)
  moreover have "slots_ok (sp_Partitions ?s)"
    using slots_ok_make_partitions [of ?ids] assms(4,5) by simp
  moreover have "min (n - 1) k < n" for k using assms(4) by (simp add: min_def) linarith
  then have "PartitionId ?s h =
      Inr (word_of_int (ids (min (n - 1) (nat (uint h div (4294967295 div int n))))))" for h
    using PartitionId_make_partitions [of ?s _ _ ?ids _ h] assms(4,5) by (simp del: min_less_iff_conj)
  ultimately show ?thesis by auto
qed

theorem alloc_partitions_route_witness:
  "\<exists>space'. alloc_partitions (\<lambda>i. Inr (int i + 10)) (empty_space\<lparr>sp_PartitionNum := int 3\<rparr>) = Inr space' \<and>
    slots_ok (sp_Partitions space') \<and> length (sp_Partitions space') = 3 \<and>
    (\<forall>h. PartitionId space' h =
       Inr (word_of_int (int (min (3 - 1) (nat (uint h div (4294967295 div int 3)))) + 10)))"
  by (rule alloc_partitions_route) (simp_all add: empty_space_def)



end
