(* ===== verification/IndexRules.thy ===== *)
theory IndexRules
  imports Entities
begin

text \<open>
  The schema of a space: \<^verbatim>\<open>Index.UnmarshalJSON\<close>, \<^verbatim>\<open>Space.Validate\<close>, \<^verbatim>\<open>UnmarshalPropertyJSON\<close>,
  \<^verbatim>\<open>IsScalarIndexType\<close>, \<^verbatim>\<open>ValidateIndexes\<close> and \<^verbatim>\<open>MergeFieldIndexes\<close> of
  \<^verbatim>\<open>internal/entity/space.go\<close>.

  The decoder of \<^verbatim>\<open>vjson\<close> is the parameter \<open>schema_json\<close>: what it makes of an index object, of
  index parameters, and of an array of fields. The last one calls the \<^verbatim>\<open>UnmarshalJSON\<close> of
  \<^verbatim>\<open>Index\<close> for the index of a field, so it takes that function as an argument.

  The lemmas give the exact sets of index parameters, properties and index lists that are
  accepted.
\<close>

section \<open>Index objects\<close>

definition AutoIndexNamePrefix :: string where "AutoIndexNamePrefix = ''__idx__''"

definition MakeAutoIndexName :: "string \<Rightarrow> string \<Rightarrow> string" where
  "MakeAutoIndexName fieldName indexType =
     AutoIndexNamePrefix @ fieldName @ ''_'' @ indexType"

definition ScalarIndexType :: string where "ScalarIndexType = ''SCALAR''"
definition InvertedIndexType :: string where "InvertedIndexType = ''INVERTED''"
definition InvertedListIndexType :: string where "InvertedListIndexType = ''INVERTED_LIST''"
definition BitmapIndexType :: string where "BitmapIndexType = ''BITMAP''"
definition CompositeIndexType :: string where "CompositeIndexType = ''COMPOSITE''"

lemmas index_type_defs = ScalarIndexType_def InvertedIndexType_def InvertedListIndexType_def
  BitmapIndexType_def CompositeIndexType_def

definition IsScalarIndexType :: "string \<Rightarrow> bool" where
  "IsScalarIndexType indexType \<longleftrightarrow>
     indexType \<in> set [ScalarIndexType, InvertedIndexType, BitmapIndexType, CompositeIndexType]"

record IndexParams =
  ip_Nlinks :: int
  ip_EfSearch :: int
  ip_EfConstruction :: int
  ip_MetricType :: string
  ip_Ncentroids :: int
  ip_Nprobe :: int
  ip_Nsubvector :: int
  ip_TrainingThreshold :: int

definition MinNlinks :: int where "MinNlinks = 8"
definition MaxNlinks :: int where "MaxNlinks = 96"
definition MinEfConstruction :: int where "MinEfConstruction = 16"
definition MaxEfConstruction :: int where "MaxEfConstruction = 1024"
definition MinNcentroids :: int where "MinNcentroids = 1"
definition MaxNcentroids :: int where "MaxNcentroids = 262144"
definition MinTrainingThreshold :: int where "MinTrainingThreshold = 256"
definition DefaultMinPointsPerCentroid :: int where "DefaultMinPointsPerCentroid = 39"

lemmas param_bounds = MinNlinks_def MaxNlinks_def MinEfConstruction_def MaxEfConstruction_def
  MinNcentroids_def MaxNcentroids_def MinTrainingThreshold_def DefaultMinPointsPerCentroid_def

definition indexTypeMap :: "string list" where
  "indexTypeMap = [''IVFPQ'', ''IVFFLAT'', ''BINARYIVF'', ''FLAT'', ''HNSW'', ''GPU_IVFPQ'',
     ''GPU_IVFFLAT'', ''SSG'', ''IVFPQ_RELAYOUT'', ''SCANN'', ''SCALAR'', ''IVFRABITQ'',
     ''DISKANN_STATIC'', ''INVERTED'', ''BITMAP'', ''COMPOSITE'']"

definition ivf_types :: "string list" where
  "ivf_types = [''BINARYIVF'', ''IVFFLAT'', ''IVFPQ'', ''GPU_IVFPQ'', ''GPU_IVFFLAT'', ''IVFRABITQ'']"

text \<open>The checks of the parameters, by the type of the index.\<close>

definition check_hnsw :: "IndexParams \<Rightarrow> unit res" where
  "check_hnsw ip =
     bind_res (guard (ip_Nlinks ip \<noteq> 0 \<and> (ip_Nlinks ip < MinNlinks \<or> ip_Nlinks ip > MaxNlinks))
       (param_err ''index params nlinks should in range'')) (\<lambda>_.
     guard (ip_EfConstruction ip \<noteq> 0 \<and>
         (ip_EfConstruction ip < MinEfConstruction \<or> ip_EfConstruction ip > MaxEfConstruction))
       (param_err ''index params efConstruction should in range''))"

definition check_ivf :: "IndexParams \<Rightarrow> unit res" where
  "check_ivf ip =
     bind_res (guard (ip_Ncentroids ip \<noteq> 0 \<and>
         (ip_Ncentroids ip < MinNcentroids \<or> ip_Ncentroids ip > MaxNcentroids))
       (param_err ''index params ncentroids should in range'')) (\<lambda>_.
     bind_res
       (if ip_TrainingThreshold ip \<noteq> 0 then
          bind_res (guard (ip_TrainingThreshold ip < ip_Ncentroids ip)
            (param_err ''training_threshold should more than ncentroids'')) (\<lambda>_.
          guard (ip_TrainingThreshold ip < MinTrainingThreshold)
            (param_err ''training_threshold should more than''))
        else
          guard (ip_Ncentroids ip \<noteq> 0 \<and>
              ip_Ncentroids ip * DefaultMinPointsPerCentroid < MinTrainingThreshold)
            (param_err ''training_threshold should more than'')) (\<lambda>_.
     guard (ip_Nprobe ip \<noteq> 0 \<and> ip_Nprobe ip > ip_Ncentroids ip)
       (param_err ''nprobe should less than ncentroids'')))"

definition check_index_params :: "string \<Rightarrow> IndexParams \<Rightarrow> unit res" where
  "check_index_params ty ip =
     bind_res (guard (ip_MetricType ip \<noteq> [] \<and> ip_MetricType ip \<noteq> ''InnerProduct'' \<and>
         ip_MetricType ip \<noteq> ''L2'')
       (param_err ''index params metric_type not support'')) (\<lambda>_.
     if ty = ''HNSW'' then check_hnsw ip
     else if ty = ''FLAT'' then Inr ()
     else if ty \<in> set ivf_types then check_ivf ip
     else Inr ())"

text \<open>A field as the request has it, and the decoder.\<close>

record Field =
  fl_Name :: string
  fl_Type :: string
  fl_Dimension :: int
  fl_StoreType :: "string option"
  fl_Format :: "string option"
  fl_Index :: "Index option"

record schema_json =
  js_index :: "string \<Rightarrow> Index res"
  js_params :: "string \<Rightarrow> IndexParams res"
  js_fields :: "(string \<Rightarrow> Index res) \<Rightarrow> string \<Rightarrow> (Field list) res"

definition Index_UnmarshalJSON :: "schema_json \<Rightarrow> string \<Rightarrow> Index res" where
  "Index_UnmarshalJSON js bs =
     (if bs = [] then Inl (param_err ''space vector field index should not be empty'')
      else case js_index js bs of
        Inl e \<Rightarrow> Inl (param_err ''space Index json.Unmarshal err'')
      | Inr tempIndex \<Rightarrow>
          bind_res (guard (ix_Type tempIndex = []) (param_err ''index type is null'')) (\<lambda>_.
          bind_res (guard (ix_Type tempIndex \<notin> set indexTypeMap)
            (param_err ''index type not support'')) (\<lambda>_.
          bind_res
            (if ix_Params tempIndex \<noteq> [] then
               (case js_params js (ix_Params tempIndex) of
                  Inl e \<Rightarrow> Inl (param_err ''index params json.Unmarshal err'')
                | Inr indexParams \<Rightarrow> check_index_params (ix_Type tempIndex) indexParams)
             else Inr ()) (\<lambda>_.
          Inr tempIndex))))"

definition Space_Validate :: "(nat \<Rightarrow> bool) \<Rightarrow> Space \<Rightarrow> unit res" where
  "Space_Validate nt space = check_name nt (sp_Name space)"

section \<open>Fields\<close>

definition IdField :: string where "IdField = ''_id''"
definition ScoreField :: string where "ScoreField = ''_score''"

definition field_type_of :: "string \<Rightarrow> FieldType option" where
  "field_type_of ty =
     (if ty \<in> set [''text'', ''keyword'', ''string''] then Some FieldType_STRING
      else if ty = ''date'' then Some FieldType_DATE
      else if ty \<in> set [''integer'', ''short'', ''byte''] then Some FieldType_INT
      else if ty = ''long'' then Some FieldType_LONG
      else if ty = ''float'' then Some FieldType_FLOAT
      else if ty = ''double'' then Some FieldType_DOUBLE
      else if ty \<in> set [''boolean'', ''bool''] then Some FieldType_BOOL
      else if ty \<in> set [''stringArray'', ''StringArray'', ''string_array''] then Some FieldType_STRINGARRAY
      else if ty = ''vector'' then Some FieldType_VECTOR
      else None)"

text \<open>
  The branch \<^verbatim>\<open>case "vector"\<close>. The message for a wrong store type reads \<^verbatim>\<open>*sp.StoreType\<close>, which
  is still nil there.
\<close>

definition check_vector_field :: "Field \<Rightarrow> unit res" where
  "check_vector_field field =
     bind_res (guard (fl_Dimension field = 0) (param_err ''dimension can not be zero by field'')) (\<lambda>_.
     bind_res
       (case fl_StoreType field of
          None \<Rightarrow> Inr ()
        | Some st \<Rightarrow> guard (st \<noteq> [] \<and> st \<noteq> ''RocksDB'' \<and> st \<noteq> ''MemoryOnly'')
            (GoPanic ''nil pointer dereference'')) (\<lambda>_.
     (case fl_Format field of
        None \<Rightarrow> Inr ()
      | Some format \<Rightarrow> guard (\<not> (format = ''normalization'' \<or> format = ''normal'' \<or> format = ''no''))
          (param_err ''unknow vector process method''))))"

definition scalar_option :: "string \<Rightarrow> FieldOption" where
  "scalar_option ty =
     (if ty = ScalarIndexType then FO_Scalar
      else if ty = InvertedIndexType then FO_Inverted
      else if ty = InvertedListIndexType then FO_InvertedList
      else if ty = BitmapIndexType then FO_Bitmap
      else if ty = CompositeIndexType then FO_Composite
      else FO_Scalar)"

definition index_option :: "bool \<Rightarrow> Index option \<Rightarrow> FieldOption res" where
  "index_option isVector ix =
     (case ix of
        None \<Rightarrow> Inr FO_Null
      | Some i \<Rightarrow>
          if isVector then
            bind_res (guard (IsScalarIndexType (ix_Type i))
              (param_err ''field is a vector field, scalar index type is not allowed'')) (\<lambda>_.
            Inr FO_Index)
          else
            bind_res (guard (\<not> IsScalarIndexType (ix_Type i))
              (param_err ''field is a scalar field, index type is not allowed'')) (\<lambda>_.
            Inr (scalar_option (ix_Type i))))"

definition field_property :: "Field \<Rightarrow> SpaceProperties res" where
  "field_property field =
     (case field_type_of (fl_Type field) of
        None \<Rightarrow> Inl (param_err ''space invalid field type'')
      | Some ft \<Rightarrow>
          let isVector = (ft = FieldType_VECTOR);
              format = (if isVector then fl_Format field else None) in
          bind_res (if isVector then check_vector_field field else Inr ()) (\<lambda>_.
          bind_res (index_option isVector (fl_Index field)) (\<lambda>opt.
          bind_res (guard (format \<noteq> None \<and> \<not> (ft = FieldType_DATE \<or> ft = FieldType_VECTOR))
            (param_err ''type can not set format'')) (\<lambda>_.
          Inr \<lparr> fp_FieldType = ft, fp_Type = fl_Type field, fp_Index = fl_Index field,
                fp_Format = format,
                fp_Dimension = (if isVector then fl_Dimension field else 0),
                fp_StoreType = (if isVector then fl_StoreType field else None),
                fp_StoreParam = [], fp_Option = opt \<rparr>))))"

text \<open>The loop over the fields, with the names of fields and indexes met so far.\<close>

fun property_loop ::
  "string list \<Rightarrow> string list \<Rightarrow> (string, SpaceProperties) gomap \<Rightarrow> Field list \<Rightarrow>
     ((string, SpaceProperties) gomap) res" where
  "property_loop names indexNames tmpPro [] = Inr tmpPro"
| "property_loop names indexNames tmpPro (field # rest) =
     bind_res (guard (fl_Name field = []) (param_err ''field name can not be empty'')) (\<lambda>_.
     bind_res (guard (fl_Name field = IdField) (param_err ''field name can not be _id'')) (\<lambda>_.
     bind_res (guard (fl_Name field = ScoreField) (param_err ''field name can not be _score'')) (\<lambda>_.
     bind_res (guard (fl_Name field \<in> set names) (param_err ''field name can not be duplicate'')) (\<lambda>_.
     bind_res
       (case fl_Index field of
          None \<Rightarrow> Inr indexNames
        | Some ix \<Rightarrow> bind_res (guard (ix_Name ix \<in> set indexNames)
            (param_err ''index name can not be duplicate'')) (\<lambda>_. Inr (ix_Name ix # indexNames)))
       (\<lambda>indexNames'.
     bind_res (field_property field) (\<lambda>sp.
     property_loop (fl_Name field # names) indexNames'
       (AList.update (fl_Name field) sp tmpPro) rest))))))"

definition UnmarshalPropertyJSON ::
  "schema_json \<Rightarrow> string \<Rightarrow> ((string, SpaceProperties) gomap) res" where
  "UnmarshalPropertyJSON js propertity =
     bind_res (js_fields js (Index_UnmarshalJSON js) propertity) (\<lambda>fs.
       property_loop [] [] [] fs)"

section \<open>Index lists\<close>

fun composite_fields ::
  "(string, SpaceProperties) gomap \<Rightarrow> string list \<Rightarrow> string list \<Rightarrow> unit res" where
  "composite_fields props seen [] = Inr ()"
| "composite_fields props seen (name # names) =
     (case map_of props name of
        None \<Rightarrow> Inl (param_err ''field not found in fields'')
      | Some prop \<Rightarrow>
          bind_res (guard (fp_FieldType prop = FieldType_VECTOR)
            (param_err ''field is a vector field, composite index only supports scalar fields'')) (\<lambda>_.
          bind_res (guard (name \<in> set seen) (param_err ''duplicate field in field_names'')) (\<lambda>_.
          composite_fields props (name # seen) names)))"

definition check_index_fields :: "(string, SpaceProperties) gomap \<Rightarrow> Index \<Rightarrow> unit res" where
  "check_index_fields props idx =
     bind_res (guard (ix_FieldName idx \<noteq> [] \<and> length (ix_FieldNames idx) > 0)
       (param_err ''field_name and field_names cannot both be set'')) (\<lambda>_.
     if ix_Type idx = CompositeIndexType then
       bind_res (guard (length (ix_FieldNames idx) < 2)
         (param_err ''requires at least 2 fields'')) (\<lambda>_.
       composite_fields props [] (ix_FieldNames idx))
     else
       bind_res (guard (ix_FieldName idx = [])
         (param_err ''requires field_name to be set'')) (\<lambda>_.
       case map_of props (ix_FieldName idx) of
         None \<Rightarrow> Inl (param_err ''field not found in fields'')
       | Some prop \<Rightarrow>
           if IsScalarIndexType (ix_Type idx) then
             guard (fp_FieldType prop = FieldType_VECTOR)
               (param_err ''field is a vector field, scalar index types are not allowed'')
           else
             guard (fp_FieldType prop \<noteq> FieldType_VECTOR)
               (param_err ''field is a scalar field, use scalar index types instead'')))"

fun validate_indexes_loop ::
  "(string, SpaceProperties) gomap \<Rightarrow> string list \<Rightarrow> Index option list \<Rightarrow> unit res" where
  "validate_indexes_loop props indexNames [] = Inr ()"
| "validate_indexes_loop props indexNames (None # ixs) = Inl (GoPanic ''nil pointer dereference'')"
| "validate_indexes_loop props indexNames (Some idx # ixs) =
     bind_res (guard (ix_Name idx = []) (param_err ''name cannot be empty'')) (\<lambda>_.
     bind_res (guard (ix_Name idx \<in> set indexNames)
       (param_err ''index name can not be duplicate'')) (\<lambda>_.
     bind_res (check_index_fields props idx) (\<lambda>_.
     validate_indexes_loop props (ix_Name idx # indexNames) ixs)))"

definition ValidateIndexes ::
  "Index option list \<Rightarrow> (string, SpaceProperties) gomap \<Rightarrow> unit res" where
  "ValidateIndexes indexes props = validate_indexes_loop props [] indexes"

text \<open>
  The index that \<^verbatim>\<open>MergeFieldIndexes\<close> makes of the one written inside a field. Its loop appends to
  the slice it is given; on an error the callers drop that slice.
\<close>

definition field_index :: "string \<Rightarrow> Index \<Rightarrow> Index" where
  "field_index fieldName ix =
     \<lparr> ix_Name = (if ix_Name ix = [] then MakeAutoIndexName fieldName (ix_Type ix) else ix_Name ix),
       ix_Type = ix_Type ix, ix_FieldName = fieldName, ix_FieldNames = [],
       ix_Params = ix_Params ix \<rparr>"

definition single_on :: "string \<Rightarrow> Index option \<Rightarrow> bool" where
  "single_on fieldName idx =
     (case idx of None \<Rightarrow> False
      | Some i \<Rightarrow> fieldName = ix_FieldName i \<and> ix_Type i \<noteq> CompositeIndexType)"

fun merge_loop ::
  "(string, SpaceProperties) gomap \<Rightarrow> Index option list \<Rightarrow> (Index option list) res" where
  "merge_loop [] indexes = Inr indexes"
| "merge_loop ((fieldName, field) # props) indexes =
     (case fp_Index field of
        None \<Rightarrow> merge_loop props indexes
      | Some ix \<Rightarrow>
          bind_res (guard (ix_Type ix = CompositeIndexType)
            (param_err ''index type[COMPOSITE] can not set in fields'')) (\<lambda>_.
          bind_res (guard (\<exists>i \<in> set indexes. single_on fieldName i)
            (param_err ''index duplicated'')) (\<lambda>_.
          merge_loop props (indexes @ [Some (field_index fieldName ix)]))))"

definition MergeFieldIndexes ::
  "(string, SpaceProperties) gomap \<Rightarrow> Index option list \<Rightarrow> (Index option list) res" where
  "MergeFieldIndexes props indexes =
     bind_res (merge_loop props indexes) (\<lambda>indexes'.
     bind_res (ValidateIndexes indexes' props) (\<lambda>_. Inr indexes'))"

section \<open>What is accepted\<close>

text \<open>The parameters that are accepted, by the type of the index.\<close>

definition hnsw_ok :: "IndexParams \<Rightarrow> bool" where
  "hnsw_ok ip \<longleftrightarrow> (ip_Nlinks ip = 0 \<or> ip_Nlinks ip \<in> {8..96}) \<and>
     (ip_EfConstruction ip = 0 \<or> ip_EfConstruction ip \<in> {16..1024})"

definition ivf_ok :: "IndexParams \<Rightarrow> bool" where
  "ivf_ok ip \<longleftrightarrow> (ip_Ncentroids ip = 0 \<or> ip_Ncentroids ip \<in> {1..262144}) \<and>
     (if ip_TrainingThreshold ip = 0 then ip_Ncentroids ip = 0 \<or> 7 \<le> ip_Ncentroids ip
      else max 256 (ip_Ncentroids ip) \<le> ip_TrainingThreshold ip) \<and>
     (ip_Nprobe ip = 0 \<or> ip_Nprobe ip \<le> ip_Ncentroids ip)"

definition params_ok :: "string \<Rightarrow> IndexParams \<Rightarrow> bool" where
  "params_ok ty ip \<longleftrightarrow>
     ip_MetricType ip \<in> {[], ''InnerProduct'', ''L2''} \<and>
     (ty = ''HNSW'' \<longrightarrow> hnsw_ok ip) \<and> (ty \<in> set ivf_types \<longrightarrow> ivf_ok ip)"

lemma check_hnsw_Inr_iff: "check_hnsw ip = Inr u \<longleftrightarrow> hnsw_ok ip"
  by (simp add: check_hnsw_def hnsw_ok_def param_bounds res_simps not_less not_le)

lemma check_ivf_Inr_iff: "check_ivf ip = Inr u \<longleftrightarrow> ivf_ok ip"
proof -
  have "(n :: int) * 39 < 256 \<longleftrightarrow> n < 7" for n by presburger
  then show ?thesis
    by (simp add: check_ivf_def ivf_ok_def param_bounds res_simps not_less not_le max_def) linarith
qed

lemma check_index_params_Inr_iff: "check_index_params ty ip = Inr u \<longleftrightarrow> params_ok ty ip"
proof -
  have "''HNSW'' \<notin> set ivf_types" and "''FLAT'' \<notin> set ivf_types"
    by (simp_all add: ivf_types_def)
  then show ?thesis
    unfolding check_index_params_def params_ok_def bind_res_Inr_iff guard_Inr_iff
    by (auto simp: check_hnsw_Inr_iff check_ivf_Inr_iff simp del: set_simps)
qed

lemma Index_UnmarshalJSON_Inr_iff:
  "Index_UnmarshalJSON js bs = Inr ix \<longleftrightarrow>
     bs \<noteq> [] \<and> js_index js bs = Inr ix \<and> ix_Type ix \<in> set indexTypeMap \<and>
     (ix_Params ix = [] \<or> (\<exists>ip. js_params js (ix_Params ix) = Inr ip \<and> params_ok (ix_Type ix) ip))"
proof -
  have "[] \<notin> set indexTypeMap" by (simp add: indexTypeMap_def)
  then show ?thesis
    by (auto simp: Index_UnmarshalJSON_def res_simps check_index_params_Inr_iff
        split: sum.splits if_splits)
qed

text \<open>A property that \<^verbatim>\<open>UnmarshalPropertyJSON\<close> can store.\<close>

definition prop_ok :: "SpaceProperties \<Rightarrow> bool" where
  "prop_ok p \<longleftrightarrow>
     field_type_of (fp_Type p) = Some (fp_FieldType p) \<and>
     (if fp_FieldType p = FieldType_VECTOR
      then fp_Dimension p \<noteq> 0 \<and>
        fp_StoreType p \<in> {None, Some [], Some ''RocksDB'', Some ''MemoryOnly''} \<and>
        fp_Format p \<in> {None, Some ''normalization'', Some ''normal'', Some ''no''}
      else fp_Dimension p = 0 \<and> fp_StoreType p = None \<and> fp_Format p = None) \<and>
     (case fp_Index p of
        None \<Rightarrow> fp_Option p = FO_Null
      | Some ix \<Rightarrow>
          if fp_FieldType p = FieldType_VECTOR
          then \<not> IsScalarIndexType (ix_Type ix) \<and> fp_Option p = FO_Index
          else IsScalarIndexType (ix_Type ix) \<and> fp_Option p = scalar_option (ix_Type ix) \<and>
            fp_Option p \<in> {FO_Scalar, FO_Inverted, FO_Bitmap, FO_Composite})"

lemma scalar_option_scalar:
  "IsScalarIndexType ty \<Longrightarrow> scalar_option ty \<in> {FO_Scalar, FO_Inverted, FO_Bitmap, FO_Composite}"
  by (auto simp: IsScalarIndexType_def scalar_option_def index_type_defs)

lemma check_vector_field_Inr_iff:
  "check_vector_field f = Inr u \<longleftrightarrow> fl_Dimension f \<noteq> 0 \<and>
     fl_StoreType f \<in> {None, Some [], Some ''RocksDB'', Some ''MemoryOnly''} \<and>
     fl_Format f \<in> {None, Some ''normalization'', Some ''normal'', Some ''no''}"
  unfolding check_vector_field_def bind_res_Inr_iff guard_Inr_iff
  by (cases "fl_StoreType f"; cases "fl_Format f") (simp_all add: guard_Inr_iff)

lemma index_option_Inr:
  "index_option v ix = Inr opt \<Longrightarrow>
     (case ix of None \<Rightarrow> opt = FO_Null
      | Some i \<Rightarrow> if v then \<not> IsScalarIndexType (ix_Type i) \<and> opt = FO_Index
          else IsScalarIndexType (ix_Type i) \<and> opt = scalar_option (ix_Type i) \<and>
            opt \<in> {FO_Scalar, FO_Inverted, FO_Bitmap, FO_Composite})"
  using scalar_option_scalar
  by (auto simp: index_option_def bind_res_Inr_iff guard_Inr_iff split: option.splits if_splits)

lemma field_property_prop_ok:
  "field_property f = Inr p \<Longrightarrow> prop_ok p \<and> fp_Index p = fl_Index f \<and> fp_Type p = fl_Type f"
proof -
  assume "field_property f = Inr p"
  then obtain ft opt where ft: "field_type_of (fl_Type f) = Some ft"
    and v: "ft = FieldType_VECTOR \<longrightarrow> check_vector_field f = Inr ()"
    and opt: "index_option (ft = FieldType_VECTOR) (fl_Index f) = Inr opt"
    and p: "p = \<lparr> fp_FieldType = ft, fp_Type = fl_Type f, fp_Index = fl_Index f,
                fp_Format = (if ft = FieldType_VECTOR then fl_Format f else None),
                fp_Dimension = (if ft = FieldType_VECTOR then fl_Dimension f else 0),
                fp_StoreType = (if ft = FieldType_VECTOR then fl_StoreType f else None),
                fp_StoreParam = [], fp_Option = opt \<rparr>"
    by (auto simp: field_property_def Let_def res_simps split: option.splits if_splits)
  show ?thesis
    using ft v index_option_Inr [OF opt]
    by (cases "ft = FieldType_VECTOR"; cases "fl_Index f")
      (simp_all add: p prop_ok_def check_vector_field_Inr_iff)
qed

lemma property_loop_Inr:
  assumes "property_loop names ixNames acc fs = Inr props"
  shows "distinct (map fl_Name fs) \<and> set (map fl_Name fs) \<inter> set names = {} \<and>
    set (map fl_Name fs) \<inter> {[], IdField, ScoreField} = {} \<and>
    (\<exists>ps. list_all2 (\<lambda>f p. field_property f = Inr p) fs ps \<and>
      props = fold (\<lambda>(k, v). AList.update k v) (zip (map fl_Name fs) ps) acc)"
  using assms
proof (induction fs arbitrary: names ixNames acc)
  case Nil
  then show ?case by simp
next
  case (Cons f fs)
  then obtain ixNames' p where
    g: "fl_Name f \<notin> {[], IdField, ScoreField}" "fl_Name f \<notin> set names" and
    p: "field_property f = Inr p" and
    rest: "property_loop (fl_Name f # names) ixNames' (AList.update (fl_Name f) p acc) fs = Inr props"
    by (auto simp: res_simps)
  from Cons.IH [OF rest] obtain ps where
    "list_all2 (\<lambda>f p. field_property f = Inr p) fs ps"
    "props = fold (\<lambda>(k, v). AList.update k v) (zip (map fl_Name fs) ps)
       (AList.update (fl_Name f) p acc)" by blast
  then have "\<exists>ps'. list_all2 (\<lambda>f p. field_property f = Inr p) (f # fs) ps' \<and>
      props = fold (\<lambda>(k, v). AList.update k v) (zip (map fl_Name (f # fs)) ps') acc"
    using p by (intro exI [of _ "p # ps"]) simp
  with Cons.IH [OF rest] g show ?case by auto
qed

lemma fold_update_fresh:
  assumes "distinct ks" and "set ks \<inter> fst ` set acc = {}" and "length ks = length vs"
  shows "fold (\<lambda>(k, v). AList.update k v) (zip ks vs) acc = acc @ zip ks vs"
proof -
  have upd: "AList.update k v m = m @ [(k, v)]" if "k \<notin> fst ` set m" for k v and m :: "('a \<times> 'b) list"
    using that by (induction m) auto
  show ?thesis
    using assms(3,1,2)
  proof (induction ks vs arbitrary: acc rule: list_induct2)
    case (Cons k ks v vs)
    then have "set ks \<inter> fst ` set (acc @ [(k, v)]) = {}" by auto
    with Cons show ?case by (simp add: upd)
  qed simp
qed

text \<open>The properties of a schema are those of its fields, one each, in order.\<close>

lemma property_loop_props:
  assumes "property_loop [] [] [] fs = Inr props"
  shows "map fst props = map fl_Name fs \<and> gomap_ok props \<and>
    set (map fst props) \<inter> {[], IdField, ScoreField} = {} \<and>
    (\<forall>(name, p) \<in> set props. prop_ok p \<and> (\<exists>f \<in> set fs. name = fl_Name f \<and> fp_Index p = fl_Index f))"
proof -
  from property_loop_Inr [OF assms] obtain ps where
    d: "distinct (map fl_Name fs)" "set (map fl_Name fs) \<inter> {[], IdField, ScoreField} = {}" and
    ps: "list_all2 (\<lambda>f p. field_property f = Inr p) fs ps" and
    eq: "props = fold (\<lambda>(k, v). AList.update k v) (zip (map fl_Name fs) ps) []" by blast
  have len: "length fs = length ps" using ps by (rule list_all2_lengthD)
  have z: "props = zip (map fl_Name fs) ps"
    unfolding eq by (subst fold_update_fresh) (use d len in auto)
  have "prop_ok p \<and> (\<exists>f \<in> set fs. name = fl_Name f \<and> fp_Index p = fl_Index f)"
    if "(name, p) \<in> set props" for name p
  proof -
    from that obtain i where "i < length fs" "name = fl_Name (fs ! i)" "p = ps ! i"
      by (auto simp: z set_zip)
    with ps field_property_prop_ok [of "fs ! i" p] show ?thesis
      by (auto simp: list_all2_conv_all_nth)
  qed
  with d len show ?thesis by (auto simp: z)
qed

text \<open>An index that \<^verbatim>\<open>ValidateIndexes\<close> accepts.\<close>

definition index_ok :: "(string, SpaceProperties) gomap \<Rightarrow> Index \<Rightarrow> bool" where
  "index_ok props idx \<longleftrightarrow>
     ix_Name idx \<noteq> [] \<and>
     (if ix_Type idx = CompositeIndexType
      then ix_FieldName idx = [] \<and> 2 \<le> length (ix_FieldNames idx) \<and> distinct (ix_FieldNames idx) \<and>
        (\<forall>name \<in> set (ix_FieldNames idx).
           \<exists>p. map_of props name = Some p \<and> fp_FieldType p \<noteq> FieldType_VECTOR)
      else ix_FieldName idx \<noteq> [] \<and> ix_FieldNames idx = [] \<and>
        (\<exists>p. map_of props (ix_FieldName idx) = Some p \<and>
           (IsScalarIndexType (ix_Type idx) \<longleftrightarrow> fp_FieldType p \<noteq> FieldType_VECTOR)))"

lemma composite_fields_Inr_iff:
  "composite_fields props seen names = Inr u \<longleftrightarrow>
     distinct names \<and> set names \<inter> set seen = {} \<and>
     (\<forall>name \<in> set names. \<exists>p. map_of props name = Some p \<and> fp_FieldType p \<noteq> FieldType_VECTOR)"
  by (induction names arbitrary: seen) (auto simp: res_simps split: option.splits)

lemma check_index_fields_Inr_iff:
  "ix_Name idx \<noteq> [] \<Longrightarrow> check_index_fields props idx = Inr u \<longleftrightarrow> index_ok props idx"
  by (auto simp: check_index_fields_def index_ok_def res_simps composite_fields_Inr_iff
      split: option.splits if_splits)

lemma validate_indexes_loop_Inr_iff:
  "validate_indexes_loop props names ixs = Inr u \<longleftrightarrow>
     (\<exists>us. ixs = map Some us \<and> list_all (index_ok props) us \<and>
        distinct (map ix_Name us) \<and> set (map ix_Name us) \<inter> set names = {})"
proof (induction ixs arbitrary: names)
  case Nil
  then show ?case by simp
next
  case (Cons ix ixs)
  show ?case
  proof (cases ix)
    case None
    then show ?thesis by auto
  next
    case (Some idx)
    have "index_ok props idx \<Longrightarrow> ix_Name idx \<noteq> []" by (simp add: index_ok_def)
    then have "validate_indexes_loop props names (ix # ixs) = Inr u \<longleftrightarrow>
        index_ok props idx \<and> ix_Name idx \<notin> set names \<and>
        validate_indexes_loop props (ix_Name idx # names) ixs = Inr u"
      using check_index_fields_Inr_iff [of idx props] by (auto simp: Some res_simps)
    also have "\<dots> \<longleftrightarrow> (\<exists>us. ix # ixs = map Some us \<and> list_all (index_ok props) us \<and>
        distinct (map ix_Name us) \<and> set (map ix_Name us) \<inter> set names = {})"
      unfolding Cons.IH Cons_eq_map_conv using Some by auto
    finally show ?thesis .
  qed
qed

text \<open>The indexes written inside fields, as they are merged.\<close>

definition field_indexes :: "(string, SpaceProperties) gomap \<Rightarrow> Index list" where
  "field_indexes props =
     concat (map (\<lambda>(name, p). case fp_Index p of None \<Rightarrow> [] | Some ix \<Rightarrow> [field_index name ix]) props)"

lemma field_indexes_simps [simp]:
  "field_indexes [] = []"
  "field_indexes ((name, p) # props) =
     (case fp_Index p of None \<Rightarrow> [] | Some ix \<Rightarrow> [field_index name ix]) @ field_indexes props"
  by (simp_all add: field_indexes_def)

lemma field_indexes_names: "ix \<in> set (field_indexes props) \<Longrightarrow> ix_FieldName ix \<in> fst ` set props"
  by (auto simp: field_indexes_def field_index_def intro: rev_image_eqI split: option.splits)

lemma field_indexes_of_field:
  assumes "gomap_ok props" and "(name, p) \<in> set props" and "fp_Index p = Some ix"
  shows "filter (\<lambda>i. ix_FieldName i = name) (field_indexes props) = [field_index name ix]"
  using assms
proof (induction props)
  case (Cons kv props)
  obtain n q where kv: "kv = (n, q)" by force
  have none: "filter (\<lambda>i. ix_FieldName i = n) (field_indexes props) = []"
    using field_indexes_names [of _ props] Cons.prems(1) kv by (auto simp: filter_empty_conv)
  show ?case
  proof (cases "n = name")
    case True
    with Cons.prems kv have "q = p" by (auto simp: image_iff)
    with True none kv Cons.prems(3) show ?thesis by (simp add: field_index_def)
  next
    case False
    with Cons kv show ?thesis by (auto simp: field_index_def split: option.splits)
  qed
qed simp

lemma single_on_field_index [simp]:
  "single_on name (Some (field_index name' ix)) \<longleftrightarrow> name = name' \<and> ix_Type ix \<noteq> CompositeIndexType"
  by (auto simp: single_on_def field_index_def)

lemma merge_loop_Inr_iff:
  "gomap_ok props \<Longrightarrow> merge_loop props ixs = Inr ixs' \<longleftrightarrow>
     ixs' = ixs @ map Some (field_indexes props) \<and>
     (\<forall>ix \<in> set (field_indexes props). ix_Type ix \<noteq> CompositeIndexType \<and>
        (\<forall>i \<in> set ixs. \<not> single_on (ix_FieldName ix) i))"
proof (induction props arbitrary: ixs)
  case Nil
  then show ?case by auto
next
  case (Cons kv props)
  obtain name p where kv: "kv = (name, p)" by force
  show ?case
  proof (cases "fp_Index p")
    case None
    with Cons kv show ?thesis by simp
  next
    case (Some ix)
    have fresh: "name \<noteq> ix_FieldName i" if "i \<in> set (field_indexes props)" for i
      using that field_indexes_names [OF that] Cons.prems kv by (auto simp: image_iff)
    have *: "ix_Type (field_index name ix) = ix_Type ix" "ix_FieldName (field_index name ix) = name"
      by (simp_all add: field_index_def)
    have "merge_loop (kv # props) ixs = Inr ixs' \<longleftrightarrow>
        ix_Type ix \<noteq> CompositeIndexType \<and> (\<forall>i \<in> set ixs. \<not> single_on name i) \<and>
        merge_loop props (ixs @ [Some (field_index name ix)]) = Inr ixs'"
      by (auto simp: kv Some res_simps)
    also have "\<dots> \<longleftrightarrow> ixs' = ixs @ map Some (field_indexes (kv # props)) \<and>
        (\<forall>ix \<in> set (field_indexes (kv # props)). ix_Type ix \<noteq> CompositeIndexType \<and>
          (\<forall>i \<in> set ixs. \<not> single_on (ix_FieldName ix) i))"
      using fresh Cons.IH [of "ixs @ [Some (field_index name ix)]"] Cons.prems kv Some
      by (auto simp: *)
    finally show ?thesis .
  qed
qed

lemma MergeFieldIndexes_Inr_iff:
  assumes "gomap_ok props"
  shows "MergeFieldIndexes props ixs = Inr ixs' \<longleftrightarrow>
    (\<exists>us. ixs = map Some us \<and> ixs' = map Some (us @ field_indexes props) \<and>
       list_all (index_ok props) (us @ field_indexes props) \<and>
       distinct (map ix_Name (us @ field_indexes props)) \<and>
       (\<forall>ix \<in> set (field_indexes props). ix_Type ix \<noteq> CompositeIndexType \<and>
          (\<forall>i \<in> set us. ix_FieldName i = ix_FieldName ix \<longrightarrow> ix_Type i = CompositeIndexType)))"
    (is "?l \<longleftrightarrow> (\<exists>us. ?r us)")
proof
  assume ?l
  then have m: "merge_loop props ixs = Inr ixs'" and v: "ValidateIndexes ixs' props = Inr ()"
    by (auto simp: MergeFieldIndexes_def res_simps)
  from m have ixs': "ixs' = ixs @ map Some (field_indexes props)"
    by (simp add: merge_loop_Inr_iff [OF assms])
  from v obtain js where js: "ixs' = map Some js" "list_all (index_ok props) js" "distinct (map ix_Name js)"
    by (auto simp: ValidateIndexes_def validate_indexes_loop_Inr_iff)
  define us where "us = take (length ixs) js"
  have "map Some us = ixs" "map Some (drop (length ixs) js) = map Some (field_indexes props)"
    using ixs' js(1) by (simp_all add: us_def flip: take_map drop_map)
  then have "ixs = map Some us" "js = us @ field_indexes props"
    by (auto simp: us_def inj_map_eq_map [OF inj_Some])
      (metis append_take_drop_id inj_Some inj_map_eq_map)
  with js m have "?r us"
    by (auto simp: merge_loop_Inr_iff [OF assms] single_on_def)
  then show "\<exists>us. ?r us" ..
next
  assume "\<exists>us. ?r us"
  then obtain us where us: "?r us" ..
  then have "merge_loop props ixs = Inr ixs'"
    unfolding merge_loop_Inr_iff [OF assms] by (auto simp: single_on_def)
  moreover from us have "ValidateIndexes ixs' props = Inr ()"
    unfolding ValidateIndexes_def validate_indexes_loop_Inr_iff
    by (intro exI [of _ "us @ field_indexes props"]) auto
  ultimately
  show ?l by (simp add: MergeFieldIndexes_def)
qed

section \<open>Properties\<close>

text \<open>
  \<^verbatim>\<open>Index.UnmarshalJSON\<close> accepts exactly the index objects with a known type and, when
  parameters are given, with parameters in the documented bounds: a known metric, for HNSW
  \<open>nlinks\<close> in 8..96 and \<open>efConstruction\<close> in 16..1024, and for the IVF types a number of centroids,
  a training threshold and a number of probes that fit together. The object is kept as decoded.
\<close>

theorem Index_UnmarshalJSON_accepts:
  "Index_UnmarshalJSON js bs = Inr ix \<longleftrightarrow>
     bs \<noteq> [] \<and> js_index js bs = Inr ix \<and> ix_Type ix \<in> set indexTypeMap \<and>
     (ix_Params ix = [] \<or> (\<exists>ip. js_params js (ix_Params ix) = Inr ip \<and> params_ok (ix_Type ix) ip))"
  by (rule Index_UnmarshalJSON_Inr_iff)

text \<open>
  C22: every schema that \<^verbatim>\<open>UnmarshalPropertyJSON\<close> accepts is well formed. There is one property
  per field, under its name; no name is empty, reserved or used twice; a vector field has a
  dimension, a supported store type and format and no scalar index; a scalar field has none of
  these and at most a scalar index; and the option of the field says which kind of index it has.
\<close>

theorem UnmarshalPropertyJSON_well_formed:
  assumes "UnmarshalPropertyJSON js bs = Inr props"
  shows "\<exists>fs. js_fields js (Index_UnmarshalJSON js) bs = Inr fs \<and>
    map fst props = map fl_Name fs \<and> distinct (map fst props) \<and>
    set (map fst props) \<inter> {[], IdField, ScoreField} = {} \<and>
    (\<forall>(name, p) \<in> set props. prop_ok p \<and>
       (\<exists>f \<in> set fs. name = fl_Name f \<and> fp_Index p = fl_Index f))"
proof -
  from assms obtain fs where fs: "js_fields js (Index_UnmarshalJSON js) bs = Inr fs"
    and props: "property_loop [] [] [] fs = Inr props"
    unfolding UnmarshalPropertyJSON_def bind_res_Inr_iff by blast
  show ?thesis
    by (rule exI [of _ fs]) (rule conjI [OF fs property_loop_props [OF props]])
qed

text \<open>A schema of a vector field with an HNSW index and an indexed keyword, for the examples.\<close>

definition demo_index :: "string \<Rightarrow> string \<Rightarrow> Index" where
  "demo_index name ty =
     \<lparr> ix_Name = name, ix_Type = ty, ix_FieldName = [], ix_FieldNames = [], ix_Params = [] \<rparr>"

definition demo_field :: "string \<Rightarrow> string \<Rightarrow> int \<Rightarrow> Index option \<Rightarrow> Field" where
  "demo_field name ty d ix =
     \<lparr> fl_Name = name, fl_Type = ty, fl_Dimension = d, fl_StoreType = None, fl_Format = None,
       fl_Index = ix \<rparr>"

definition demo_js :: schema_json where
  "demo_js =
     \<lparr> js_index = (\<lambda>bs. Inr (demo_index ''gamma'' bs)),
       js_params = (\<lambda>bs. Inl (GoErr ''no parameters'')),
       js_fields = (\<lambda>um bs. bind_res (um ''HNSW'') (\<lambda>h. bind_res (um ''SCALAR'') (\<lambda>k.
         Inr [demo_field ''v'' ''vector'' 8 (Some h),
              demo_field ''k'' ''keyword'' 0 (Some (k\<lparr>ix_Name := []\<rparr>))]))) \<rparr>"

definition demo_props :: "(string, SpaceProperties) gomap" where
  "demo_props = (case UnmarshalPropertyJSON demo_js ''fields'' of Inr m \<Rightarrow> m | Inl _ \<Rightarrow> [])"

lemmas demo_schema_defs = demo_js_def demo_field_def demo_index_def Index_UnmarshalJSON_def
  indexTypeMap_def IdField_def ScoreField_def field_property_def field_type_of_def
  check_vector_field_def index_option_def IsScalarIndexType_def index_type_defs scalar_option_def

lemma demo_unmarshal:
  "UnmarshalPropertyJSON demo_js ''fields'' =
     Inr [(''v'', \<lparr> fp_FieldType = FieldType_VECTOR, fp_Type = ''vector'',
             fp_Index = Some (demo_index ''gamma'' ''HNSW''), fp_Format = None, fp_Dimension = 8,
             fp_StoreType = None, fp_StoreParam = [], fp_Option = FO_Index \<rparr>),
          (''k'', \<lparr> fp_FieldType = FieldType_STRING, fp_Type = ''keyword'',
             fp_Index = Some (demo_index [] ''SCALAR''), fp_Format = None, fp_Dimension = 0,
             fp_StoreType = None, fp_StoreParam = [], fp_Option = FO_Scalar \<rparr>)]"
  by (simp add: UnmarshalPropertyJSON_def demo_schema_defs)

lemmas demo_props_eval = demo_props_def demo_unmarshal

theorem UnmarshalPropertyJSON_well_formed_witness:
  "\<exists>fs. js_fields demo_js (Index_UnmarshalJSON demo_js) ''fields'' = Inr fs \<and>
    map fst demo_props = map fl_Name fs \<and> distinct (map fst demo_props) \<and>
    set (map fst demo_props) \<inter> {[], IdField, ScoreField} = {} \<and>
    (\<forall>(name, p) \<in> set demo_props. prop_ok p \<and>
       (\<exists>f \<in> set fs. name = fl_Name f \<and> fp_Index p = fl_Index f))"
  by (rule UnmarshalPropertyJSON_well_formed) (simp add: demo_props_eval)


text \<open>
  C12: what \<^verbatim>\<open>MergeFieldIndexes\<close> returns is the given list followed by the indexes written inside
  fields, and it is valid; every field with an index of its own has exactly one single-field
  index in it. The order in which the fields are visited does not matter.
\<close>

theorem MergeFieldIndexes_one_per_field:
  assumes "gomap_ok props" and "MergeFieldIndexes props ixs = Inr ixs'"
    and "(name, p) \<in> set props" and "fp_Index p = Some ix"
  shows "\<exists>us. ixs' = map Some us \<and> ValidateIndexes ixs' props = Inr () \<and>
    ixs = map Some (take (length ixs) us) \<and>
    filter (\<lambda>i. ix_FieldName i = name \<and> ix_Type i \<noteq> CompositeIndexType) us = [field_index name ix]"
proof -
  from assms(1,2) obtain us where us: "ixs = map Some us" "ixs' = map Some (us @ field_indexes props)"
    and ok: "list_all (index_ok props) (us @ field_indexes props)"
      "distinct (map ix_Name (us @ field_indexes props))"
    and ty: "\<forall>ix \<in> set (field_indexes props). ix_Type ix \<noteq> CompositeIndexType \<and>
          (\<forall>i \<in> set us. ix_FieldName i = ix_FieldName ix \<longrightarrow> ix_Type i = CompositeIndexType)"
    using MergeFieldIndexes_Inr_iff by blast
  note f = field_indexes_of_field [OF assms(1,3,4)]
  have "field_index name ix \<in> set (filter (\<lambda>i. ix_FieldName i = name) (field_indexes props))"
    unfolding f by simp
  then have "field_index name ix \<in> set (field_indexes props)" by simp
  with ty have "\<forall>i \<in> set us. ix_FieldName i = name \<longrightarrow> ix_Type i = CompositeIndexType"
    by (auto simp: field_index_def)
  then have "filter (\<lambda>i. ix_FieldName i = name \<and> ix_Type i \<noteq> CompositeIndexType) us = []"
    by (auto simp: filter_empty_conv)
  moreover have "filter (\<lambda>i. ix_FieldName i = name \<and> ix_Type i \<noteq> CompositeIndexType) (field_indexes props)
      = filter (\<lambda>i. ix_FieldName i = name) (field_indexes props)"
    using ty by (intro filter_cong) auto
  ultimately have "filter (\<lambda>i. ix_FieldName i = name \<and> ix_Type i \<noteq> CompositeIndexType)
      (us @ field_indexes props) = [field_index name ix]"
    using f by simp
  moreover have "ValidateIndexes ixs' props = Inr ()"
    unfolding ValidateIndexes_def validate_indexes_loop_Inr_iff
    by (rule exI [of _ "us @ field_indexes props"]) (use us(2) ok in auto)
  moreover have "ixs = map Some (take (length ixs) (us @ field_indexes props))"
    using us(1) by simp
  ultimately show ?thesis using us(2) by blast
qed

theorem MergeFieldIndexes_one_per_field_witness:
  "\<exists>us. (case MergeFieldIndexes demo_props [] of Inr m \<Rightarrow> m | Inl _ \<Rightarrow> []) = map Some us \<and>
    ValidateIndexes (case MergeFieldIndexes demo_props [] of Inr m \<Rightarrow> m | Inl _ \<Rightarrow> []) demo_props = Inr () \<and>
    [] = map Some (take (length ([] :: Index option list)) us) \<and>
    filter (\<lambda>i. ix_FieldName i = ''k'' \<and> ix_Type i \<noteq> CompositeIndexType) us =
      [field_index ''k'' (demo_index [] ''SCALAR'')]"
  by (rule MergeFieldIndexes_one_per_field [where p = "the (map_of demo_props ''k'')"])
    (simp_all add: demo_props_eval MergeFieldIndexes_def ValidateIndexes_def demo_index_def
      index_type_defs field_index_def single_on_def MakeAutoIndexName_def AutoIndexNamePrefix_def
      check_index_fields_def IsScalarIndexType_def)

text \<open>
  A vector field with a store type that is not supported is meant to be refused with a
  parameter error; the code panics instead, because the message dereferences the store type of the
  property, which is not set yet.
\<close>

theorem unsupported_store_type_panics:
  assumes "fl_Type f = ''vector''" and "fl_Dimension f \<noteq> 0" and "fl_StoreType f = Some st"
    and "st \<notin> {[], ''RocksDB'', ''MemoryOnly''}"
  shows "field_property f = Inl (GoPanic ''nil pointer dereference'')"
  using assms by (simp add: field_property_def field_type_of_def check_vector_field_def)

theorem unsupported_store_type_panics_witness:
  "field_property ((demo_field ''v'' ''vector'' 8 None)\<lparr>fl_StoreType := Some ''Disk''\<rparr>) =
     Inl (GoPanic ''nil pointer dereference'')"
  by (rule unsupported_store_type_panics [where st = "''Disk''"]) (simp_all add: demo_field_def)

end
