(* ===== verification/Store.thy ===== *)
theory Store
  imports GoLib "HOL-Library.List_Lexorder" "HOL-Library.Char_ord"
begin

text \<open>
  The metadata store of the master: \<^verbatim>\<open>internal/master/store/etcdstore.go\<close>, with the client side
  of the lock of \<^verbatim>\<open>distlock.go\<close> as the services see it.

  The services are state-passing functions with errors, \<open>('s, 'a) act\<close>. Their state is the
  \<open>world\<close>: the keys and values of etcd, and what the network will do to the coming calls. A call
  can succeed, fail without effect (\<open>Lost\<close>), or take effect although the caller sees an error
  (\<open>Unconfirmed\<close>), which is what a time-out means. The body of an STM is such a function on
  the keys and values alone; etcd runs it atomically.
\<close>

section \<open>Actions\<close>

type_synonym ('s, 'a) act = "'s \<Rightarrow> 'a res \<times> 's"

definition ret :: "'a \<Rightarrow> ('s, 'a) act" where
  "ret x s = (Inr x, s)"

definition fail :: "go_error \<Rightarrow> ('s, 'a) act" where
  "fail e s = (Inl e, s)"

definition lift :: "'a res \<Rightarrow> ('s, 'a) act" where
  "lift r s = (r, s)"

definition bindA :: "('s, 'a) act \<Rightarrow> ('a \<Rightarrow> ('s, 'b) act) \<Rightarrow> ('s, 'b) act" where
  "bindA m f s = (case m s of (Inl e, s') \<Rightarrow> (Inl e, s') | (Inr x, s') \<Rightarrow> f x s')"

named_theorems act_simps

lemma ret_apply [simp, act_simps]: "ret x s = (Inr x, s)" by (simp add: ret_def)
lemma fail_apply [simp, act_simps]: "fail e s = (Inl e, s)" by (simp add: fail_def)
lemma lift_apply [simp, act_simps]: "lift r s = (r, s)" by (simp add: lift_def)

lemma bindA_Inr [simp, act_simps]: "m s = (Inr x, s') \<Longrightarrow> bindA m f s = f x s'"
  by (simp add: bindA_def)

lemma bindA_Inl [simp, act_simps]: "m s = (Inl e, s') \<Longrightarrow> bindA m f s = (Inl e, s')"
  by (simp add: bindA_def)

lemma bindA_ret [simp]: "bindA (ret x) f = f x" by (rule ext) simp
lemma bindA_fail [simp]: "bindA (fail e) f = fail e" by (rule ext) simp

lemma bindA_eq_Inr [act_simps]:
  "bindA m f s = (Inr y, t) \<longleftrightarrow> (\<exists>x u. m s = (Inr x, u) \<and> f x u = (Inr y, t))"
  by (cases "m s"; cases "fst (m s)") auto

text \<open>The loop that appends \<open>f x\<close> for every element and returns at the first error.\<close>

fun mapA :: "('a \<Rightarrow> ('s, 'b) act) \<Rightarrow> 'a list \<Rightarrow> ('s, 'b list) act" where
  "mapA f [] = ret []"
| "mapA f (x # xs) = bindA (f x) (\<lambda>y. bindA (mapA f xs) (\<lambda>ys. ret (y # ys)))"

section \<open>The world\<close>

type_synonym kvs = "(string, string) gomap"

datatype fault = NoFault | Lost go_error | Unconfirmed go_error

record world =
  kv :: kvs
  faults :: "fault list"

text \<open>One call to etcd.\<close>

definition etcd :: "(kvs, 'a) act \<Rightarrow> (world, 'a) act" where
  "etcd opr w =
     (let run = (\<lambda>w. case opr (kv w) of (r, m) \<Rightarrow> (r, w\<lparr>kv := m\<rparr>)) in
      case faults w of
        [] \<Rightarrow> run w
      | NoFault # fs \<Rightarrow> run (w\<lparr>faults := fs\<rparr>)
      | Lost e # fs \<Rightarrow> (Inl e, w\<lparr>faults := fs\<rparr>)
      | Unconfirmed e # fs \<Rightarrow> (Inl e, snd (run (w\<lparr>faults := fs\<rparr>))))"

definition calm :: "world \<Rightarrow> bool" where
  "calm w \<longleftrightarrow> set (faults w) \<subseteq> {NoFault}"

text \<open>In a calm world every call does its work; \<open>tick\<close> takes the call off the schedule.\<close>

definition tick :: "world \<Rightarrow> world" where
  "tick w = w\<lparr>faults := tl (faults w)\<rparr>"

lemma kv_tick [simp]: "kv (tick w) = kv w"
  by (simp add: tick_def)

lemma calm_tick [simp]: "calm w \<Longrightarrow> calm (tick w)"
  by (cases "faults w") (auto simp: calm_def tick_def)

lemma calm_kv [simp]: "calm (w\<lparr>kv := m\<rparr>) = calm w"
  by (simp add: calm_def)

lemma etcd_calm:
  "calm w \<Longrightarrow> etcd opr w = (fst (opr (kv w)), (tick w)\<lparr>kv := snd (opr (kv w))\<rparr>)"
  by (cases "faults w") (auto simp: etcd_def calm_def tick_def split: prod.splits)

text \<open>Whatever happens, a call does its work or leaves the store alone.\<close>

lemma etcd_cases:
  assumes "etcd opr w = (r, w')"
  obtains (success) "r = fst (opr (kv w))" "kv w' = snd (opr (kv w))"
  | (lost) e where "r = Inl e" "kv w' = kv w"
  | (unconfirmed) e where "r = Inl e" "kv w' = snd (opr (kv w))"
  using assms
  by (cases "faults w") (auto simp: etcd_def Let_def split: fault.splits prod.splits)

section \<open>Operations of the store\<close>

definition Put :: "string \<Rightarrow> string \<Rightarrow> (world, unit) act" where
  "Put key val = etcd (\<lambda>m. (Inr (), AList.update key val m))"

definition Create :: "string \<Rightarrow> string \<Rightarrow> (world, unit) act" where
  "Create key val = etcd (\<lambda>m.
     if map_of m key = None then (Inr (), AList.update key val m)
     else (Inl (GoErr ''etcd store key error''), m))"

text \<open>\<^verbatim>\<open>Grant\<close> asks for a lease. That the key disappears when the lease ends is an event of its own.\<close>

definition Grant :: "(world, unit) act" where
  "Grant = etcd (\<lambda>m. (Inr (), m))"

definition ttl_guard :: "int \<Rightarrow> (world, unit) act" where
  "ttl_guard ttl = lift (guard (ttl \<noteq> 0 \<and> \<bar>ttl\<bar> < 1000000000)
     (GoErr ''ttl time must greater than 1 second''))"

definition CreateWithTTL :: "string \<Rightarrow> string \<Rightarrow> int \<Rightarrow> (world, unit) act" where
  "CreateWithTTL key val ttl =
     bindA (ttl_guard ttl) (\<lambda>_. bindA Grant (\<lambda>_. Put key val))"

definition KeepAlive :: "string \<Rightarrow> string \<Rightarrow> int \<Rightarrow> (world, unit) act" where
  "KeepAlive key val ttl =
     bindA (ttl_guard ttl) (\<lambda>_. bindA Grant (\<lambda>_. bindA (Put key val) (\<lambda>_.
       etcd (\<lambda>m. (Inr (), m)))))"

definition PutWithLeaseId :: "string \<Rightarrow> string \<Rightarrow> int \<Rightarrow> (world, unit) act" where
  "PutWithLeaseId key val ttl = bindA (ttl_guard ttl) (\<lambda>_. Put key val)"

definition Update :: "string \<Rightarrow> string \<Rightarrow> (world, unit) act" where
  "Update key val = etcd (\<lambda>m. (Inr (), AList.update key val m))"

definition Get :: "string \<Rightarrow> (world, string option) act" where
  "Get key = etcd (\<lambda>m. (Inr (map_of m key), m))"

text \<open>The keys and values under a prefix, in the order of the keys.\<close>

definition PrefixScan :: "string \<Rightarrow> (world, (string \<times> string) list) act" where
  "PrefixScan prefix = etcd (\<lambda>m. (Inr (sort_key fst (filter (\<lambda>(k, v). HasPrefix k prefix) m)), m))"

definition wrap_err :: "go_error \<Rightarrow> (world, 'a) act \<Rightarrow> (world, 'a) act" where
  "wrap_err e act w = (case act w of (Inl _, w') \<Rightarrow> (Inl e, w') | (Inr x, w') \<Rightarrow> (Inr x, w'))"

definition Delete :: "string \<Rightarrow> (world, unit) act" where
  "Delete key =
     bindA (wrap_err (GoErr ''failed to delete from etcd store'')
              (etcd (\<lambda>m. (Inr (if map_of m key = None then 0 else 1 :: nat), AList.delete key m))))
       (\<lambda>deleted. lift (guard (deleted \<noteq> 1) (GoErr ''key not exist error'')))"

text \<open>A transaction: an error of the body drops its writes.\<close>

definition STM :: "(kvs, 'a) act \<Rightarrow> (world, 'a) act" where
  "STM body = etcd (\<lambda>m. case body m of (Inl e, _) \<Rightarrow> (Inl e, m) | (Inr x, m') \<Rightarrow> (Inr x, m'))"

definition stm_Get :: "string \<Rightarrow> (kvs, string) act" where
  "stm_Get key m = (Inr (case map_of m key of None \<Rightarrow> [] | Some v \<Rightarrow> v), m)"

definition stm_Put :: "string \<Rightarrow> string \<Rightarrow> (kvs, unit) act" where
  "stm_Put key val m = (Inr (), AList.update key val m)"

definition stm_Del :: "string \<Rightarrow> (kvs, unit) act" where
  "stm_Del key m = (Inr (), AList.delete key m)"

definition NewIDGenerate :: "string \<Rightarrow> int \<Rightarrow> (world, int) act" where
  "NewIDGenerate key bas = STM (
     bindA (stm_Get key) (\<lambda>v.
       if length v = 0 then bindA (stm_Put key (FormatInt bas)) (\<lambda>_. ret bas)
       else case ParseInt v of
         Inl _ \<Rightarrow> fail (GoErr ''increment id error in storage'')
       | Inr intv \<Rightarrow>
           let nextID = int64 (intv + 1) in
           bindA (stm_Put key (FormatInt nextID)) (\<lambda>_. ret nextID)))"

text \<open>
  \<^verbatim>\<open>DistLock.Lock\<close> and the deferred \<^verbatim>\<open>Unlock\<close> of the services. When \<^verbatim>\<open>lock\<close> fails, \<^verbatim>\<open>Lock\<close> returns what
  revoking the lease returns, so it fails only if both calls do. An error of \<^verbatim>\<open>Unlock\<close> is logged.
\<close>

definition noop :: "(world, unit) act" where
  "noop = etcd (\<lambda>m. (Inr (), m))"

definition lock_call :: "(world, unit) act" where
  "lock_call w = (case noop w of (Inr _, w') \<Rightarrow> (Inr (), w') | (Inl _, w') \<Rightarrow>
     wrap_err (GoErr ''revoke lease error'') noop w')"

definition with_lock :: "string \<Rightarrow> (world, 'a) act \<Rightarrow> (world, 'a) act" where
  "with_lock key body w =
     (case lock_call w of
        (Inl e, w') \<Rightarrow> (Inl e, w')
      | (Inr _, w') \<Rightarrow> (case body w' of (r, w'') \<Rightarrow> (r, snd (noop w''))))"

section \<open>Facts\<close>

named_theorems calm_simps

lemma kv_eta [simp]: "(tick w)\<lparr>kv := kv w\<rparr> = tick w"
  by (cases w) (simp add: tick_def)

lemma calm_store_ops [calm_simps]:
  assumes "calm w"
  shows "Put k v w = (Inr (), (tick w)\<lparr>kv := AList.update k v (kv w)\<rparr>)"
    and "Get k w = (Inr (map_of (kv w) k), tick w)"
    and "Grant w = (Inr (), tick w)"
    and "noop w = (Inr (), tick w)"
    and "lock_call w = (Inr (), tick w)"
    and "PrefixScan p w =
      (Inr (sort_key fst (filter (\<lambda>(k, v). HasPrefix k p) (kv w))), tick w)"
  using assms
  by (simp_all add: Put_def Get_def Grant_def noop_def lock_call_def PrefixScan_def etcd_calm)

lemma calm_Create [calm_simps]:
  "calm w \<Longrightarrow> Create k v w =
     (if map_of (kv w) k = None then (Inr (), (tick w)\<lparr>kv := AList.update k v (kv w)\<rparr>)
      else (Inl (GoErr ''etcd store key error''), tick w))"
  by (simp add: Create_def etcd_calm)

lemma calm_Delete [calm_simps]:
  "calm w \<Longrightarrow> Delete k w =
     (if map_of (kv w) k = None then Inl (GoErr ''key not exist error'') else Inr (),
      (tick w)\<lparr>kv := AList.delete k (kv w)\<rparr>)"
  by (simp add: Delete_def etcd_calm wrap_err_def bindA_def)

lemma calm_STM [calm_simps]:
  "calm w \<Longrightarrow> STM body w =
     (case body (kv w) of (Inl e, _) \<Rightarrow> (Inl e, tick w) | (Inr x, m) \<Rightarrow> (Inr x, (tick w)\<lparr>kv := m\<rparr>))"
  by (simp add: STM_def etcd_calm split: prod.splits sum.splits)

lemma calm_with_lock [calm_simps]:
  "calm w \<Longrightarrow> body (tick w) = (r, w') \<Longrightarrow> calm w' \<Longrightarrow> with_lock k body w = (r, tick w')"
  by (simp add: with_lock_def calm_store_ops)

lemma stm_ops [simp, act_simps]:
  "stm_Get k m = (Inr (case map_of m k of None \<Rightarrow> [] | Some v \<Rightarrow> v), m)"
  "stm_Put k v m = (Inr (), AList.update k v m)"
  "stm_Del k m = (Inr (), AList.delete k m)"
  by (simp_all add: stm_Get_def stm_Put_def stm_Del_def)

text \<open>Locks change no key; with any faults, so only the body does.\<close>

lemma kv_noop [simp]: "kv (snd (noop w)) = kv w"
  by (cases "noop w") (auto simp: noop_def elim: etcd_cases)

lemma kv_lock_call [simp]: "kv (snd (lock_call w)) = kv w"
proof -
  have "noop w = (r, w') \<Longrightarrow> kv w' = kv w" for r w w' using kv_noop [of w] by simp
  then show ?thesis
    by (auto simp: lock_call_def wrap_err_def split: prod.splits sum.splits)
qed

lemma with_lock_kv:
  "(\<And>w'. kv w' = kv w \<Longrightarrow> P (kv (snd (body w')))) \<Longrightarrow> P (kv w) \<Longrightarrow> P (kv (snd (with_lock k body w)))"
proof -
  assume body: "\<And>w'. kv w' = kv w \<Longrightarrow> P (kv (snd (body w')))" and P: "P (kv w)"
  obtain r w' where lc: "lock_call w = (r, w')" by force
  with kv_lock_call [of w] have w': "kv w' = kv w" by simp
  obtain r'' w'' where b: "body w' = (r'', w'')" by force
  with body [OF w'] have "P (kv w'')" by simp
  with lc w' b P show ?thesis by (cases r) (simp_all add: with_lock_def)
qed

text \<open>A transaction leaves the store alone or does the whole of its body.\<close>

lemma STM_atomic:
  assumes "STM body w = (r, w')"
  shows "kv w' = kv w \<or> (\<exists>x m. body (kv w) = (Inr x, m) \<and> kv w' = m)"
    and "r = Inr x \<Longrightarrow> body (kv w) = (Inr x, kv w')"
  using assms unfolding STM_def
  by (auto elim!: etcd_cases split: prod.splits sum.splits)

section \<open>Triples\<close>

text \<open>
  \<open>triple P act Q E\<close>: from a store with \<open>P\<close>, and whatever calls to etcd fail, \<open>act\<close> ends with a
  result \<open>x\<close> and a store with \<open>Q x\<close>, or with an error and a store with \<open>E\<close>. An invariant \<open>I\<close> that an
  operation keeps is \<open>keeps I act\<close>.
\<close>

definition triple :: "(kvs \<Rightarrow> bool) \<Rightarrow> (world, 'a) act \<Rightarrow> ('a \<Rightarrow> kvs \<Rightarrow> bool) \<Rightarrow> (kvs \<Rightarrow> bool) \<Rightarrow> bool" where
  "triple P act Q E \<longleftrightarrow>
     (\<forall>w. P (kv w) \<longrightarrow> (case act w of (Inr x, w') \<Rightarrow> Q x (kv w') | (Inl _, w') \<Rightarrow> E (kv w')))"

abbreviation keeps :: "(kvs \<Rightarrow> bool) \<Rightarrow> (world, 'a) act \<Rightarrow> bool" where
  "keeps I act \<equiv> triple I act (\<lambda>_. I) I"

named_theorems triple_rules

lemma triple_ret [triple_rules]: "(\<And>m. P m \<Longrightarrow> Q x m) \<Longrightarrow> triple P (ret x) Q E"
  by (simp add: triple_def)

lemma triple_fail [triple_rules]: "(\<And>m. P m \<Longrightarrow> E m) \<Longrightarrow> triple P (fail e) Q E"
  by (simp add: triple_def)

lemma triple_lift [triple_rules]:
  "(\<And>m x. P m \<Longrightarrow> r = Inr x \<Longrightarrow> Q x m) \<Longrightarrow> (\<And>m. P m \<Longrightarrow> E m) \<Longrightarrow> triple P (lift r) Q E"
  by (simp add: triple_def split: sum.splits)

lemma triple_bindA:
  "triple P act R E \<Longrightarrow> (\<And>x. triple (R x) (f x) Q E) \<Longrightarrow> triple P (bindA act f) Q E"
  by (fastforce simp: triple_def bindA_def split: prod.splits sum.splits)

lemma triple_weaken:
  "triple P' act Q' E' \<Longrightarrow> (\<And>m. P m \<Longrightarrow> P' m) \<Longrightarrow> (\<And>x m. Q' x m \<Longrightarrow> Q x m) \<Longrightarrow> (\<And>m. E' m \<Longrightarrow> E m) \<Longrightarrow>
     triple P act Q E"
  by (fastforce simp: triple_def split: prod.splits sum.splits)

lemma triple_if [triple_rules]:
  "(b \<Longrightarrow> triple P act1 Q E) \<Longrightarrow> (\<not> b \<Longrightarrow> triple P act2 Q E) \<Longrightarrow> triple P (if b then act1 else act2) Q E"
  by simp

lemma triple_etcd:
  assumes "\<And>m. P m \<Longrightarrow> E m"
    and "\<And>m x m'. P m \<Longrightarrow> opr m = (Inr x, m') \<Longrightarrow> Q x m' \<and> E m'"
    and "\<And>m e m'. P m \<Longrightarrow> opr m = (Inl e, m') \<Longrightarrow> E m'"
  shows "triple P (etcd opr) Q E"
  unfolding triple_def
proof (intro allI impI)
  fix w :: world
  assume P: "P (kv w)"
  obtain r w' where e: "etcd opr w = (r, w')" by force
  obtain r1 m1 where o: "opr (kv w) = (r1, m1)" by force
  from e show "case etcd opr w of (Inr x, w') \<Rightarrow> Q x (kv w') | (Inl _, w') \<Rightarrow> E (kv w')"
    by (rule etcd_cases) (use P e o assms in \<open>auto split: sum.splits\<close>, (cases r1; force)+)
qed

lemma triple_STM:
  assumes "\<And>m. P m \<Longrightarrow> E m" and "\<And>m x m'. P m \<Longrightarrow> body m = (Inr x, m') \<Longrightarrow> Q x m' \<and> E m'"
  shows "triple P (STM body) Q E"
  unfolding STM_def
proof (rule triple_etcd)
  fix m x m'
  assume "P m" and "(case body m of (Inl e, _) \<Rightarrow> (Inl e, m) | (Inr x, m') \<Rightarrow> (Inr x, m')) = (Inr x, m')"
  then show "Q x m' \<and> E m'"
    by (intro assms(2)) (auto split: prod.splits sum.splits)
next
  fix m e m'
  assume "P m" and "(case body m of (Inl e, _) \<Rightarrow> (Inl e, m) | (Inr x, m') \<Rightarrow> (Inr x, m')) = (Inl e, m')"
  then have "P m'" by (auto split: prod.splits sum.splits)
  then show "E m'" by (rule assms(1))
qed (rule assms(1))

lemma triple_reads [triple_rules]:
  "(\<And>m. P m \<Longrightarrow> Q (map_of m k) m) \<Longrightarrow> (\<And>m. P m \<Longrightarrow> E m) \<Longrightarrow> triple P (Get k) Q E"
  "(\<And>m rows. P m \<Longrightarrow> rows = sort_key fst (filter (\<lambda>(k, v). HasPrefix k p) m) \<Longrightarrow> Q' rows m) \<Longrightarrow>
     (\<And>m. P m \<Longrightarrow> E m) \<Longrightarrow> triple P (PrefixScan p) Q' E"
  unfolding Get_def PrefixScan_def by (rule triple_etcd; blast)+

lemma triple_Put:
  "(\<And>m. P m \<Longrightarrow> E m \<and> E (AList.update k v m) \<and> Q () (AList.update k v m)) \<Longrightarrow> triple P (Put k v) Q E"
  unfolding Put_def by (rule triple_etcd) (blast, clarify, blast, clarify)

lemma tripleD:
  "triple P act Q E \<Longrightarrow> P (kv w) \<Longrightarrow> act w = (r, w') \<Longrightarrow> (case r of Inr x \<Rightarrow> Q x (kv w') | Inl _ \<Rightarrow> E (kv w'))"
  unfolding triple_def by (drule spec [of _ w]) simp

lemma triple_with_lock:
  assumes "triple P body Q E" and "\<And>m. P m \<Longrightarrow> E m"
  shows "triple P (with_lock l body) Q E"
  unfolding triple_def
proof (intro allI impI)
  fix w :: world
  assume P: "P (kv w)"
  obtain r w1 where l: "lock_call w = (r, w1)" by force
  with kv_lock_call [of w] have w1: "kv w1 = kv w" by simp
  obtain r' w2 where b: "body w1 = (r', w2)" by force
  have "P (kv w1)" using P w1 by simp
  from tripleD [OF assms(1) this b] have "case r' of Inr x \<Rightarrow> Q x (kv w2) | Inl _ \<Rightarrow> E (kv w2)" .
  then show "case with_lock l body w of (Inr x, w') \<Rightarrow> Q x (kv w') | (Inl _, w') \<Rightarrow> E (kv w')"
    using l b w1 assms(2) [OF P] by (auto simp: with_lock_def split: sum.splits)
qed

lemma keepsD: "keeps I act \<Longrightarrow> I (kv w) \<Longrightarrow> I (kv (snd (act w)))"
  by (cases "act w"; drule (2) tripleD) (simp split: sum.splits)

section \<open>Generated ids\<close>

text \<open>\<open>counter key bas c m\<close>: the last id given out under \<open>key\<close> is \<open>c\<close>.\<close>

definition counter :: "string \<Rightarrow> int \<Rightarrow> int \<Rightarrow> kvs \<Rightarrow> bool" where
  "counter key bas c m \<longleftrightarrow>
     (case map_of m key of None \<Rightarrow> c = bas - 1 | Some v \<Rightarrow> v = [] \<and> c = bas - 1 \<or> v = FormatInt c)"

definition id_body :: "string \<Rightarrow> int \<Rightarrow> (kvs, int) act" where
  "id_body key bas =
     bindA (stm_Get key) (\<lambda>v.
       if length v = 0 then bindA (stm_Put key (FormatInt bas)) (\<lambda>_. ret bas)
       else case ParseInt v of
         Inl _ \<Rightarrow> fail (GoErr ''increment id error in storage'')
       | Inr intv \<Rightarrow>
           let nextID = int64 (intv + 1) in
           bindA (stm_Put key (FormatInt nextID)) (\<lambda>_. ret nextID))"

lemma NewIDGenerate_body: "NewIDGenerate key bas = STM (id_body key bas)"
  by (simp add: NewIDGenerate_def id_body_def)

lemma id_body_counter:
  assumes "counter key bas c m" and "- (2 ^ 63) \<le> c" and "c < 2 ^ 63 - 1"
  shows "id_body key bas m = (Inr (c + 1), AList.update key (FormatInt (c + 1)) m)"
proof -
  have p: "ParseInt (FormatInt c) = Inr c" using assms(2,3) by (simp add: ParseInt_FormatInt)
  have i: "int64 (c + 1) = c + 1" using assms(2,3) by simp
  show ?thesis
  proof (cases "map_of m key")
    case None
    then show ?thesis using assms(1) by (simp add: id_body_def counter_def bindA_def)
  next
    case (Some v)
    with assms(1) consider "v = []" "c = bas - 1" | "v = FormatInt c"
      by (auto simp: counter_def)
    then show ?thesis
      by cases (simp_all add: id_body_def bindA_def Some p i Let_def)
  qed
qed

lemma counter_update [simp]: "counter key bas c (AList.update key (FormatInt c) m)"
  by (simp add: counter_def update_conv')

lemma NewIDGenerate_counter:
  assumes "counter key bas c (kv w)" and "- (2 ^ 63) \<le> c" and "c < 2 ^ 63 - 1"
    and "NewIDGenerate key bas w = (r, w')"
  shows "(\<exists>c' \<in> {c, c + 1}. counter key bas c' (kv w')) \<and>
    (\<forall>i. r = Inr i \<longrightarrow> i = c + 1 \<and> counter key bas (c + 1) (kv w'))"
proof -
  note atomic = STM_atomic [OF assms(4) [unfolded NewIDGenerate_body]]
  note body = id_body_counter [OF assms(1-3)]
  have "counter key bas (c + 1) (AList.update key (FormatInt (c + 1)) (kv w))" by simp
  with atomic(1) body assms(1) have "\<exists>c' \<in> {c, c + 1}. counter key bas c' (kv w')" by auto
  moreover have "i = c + 1 \<and> counter key bas (c + 1) (kv w')" if "r = Inr i" for i
  proof -
    from atomic(2) [OF that] body have "i = c + 1" "kv w' = AList.update key (FormatInt (c + 1)) (kv w)"
      by auto
    then show ?thesis by simp
  qed
  ultimately show ?thesis by blast
qed

text \<open>The ids of \<open>n\<close> calls one after the other, failed calls left out.\<close>

fun gen_ids :: "string \<Rightarrow> int \<Rightarrow> nat \<Rightarrow> world \<Rightarrow> int list \<times> world" where
  "gen_ids key bas 0 w = ([], w)"
| "gen_ids key bas (Suc n) w =
     (case NewIDGenerate key bas w of (r, w1) \<Rightarrow>
        (case gen_ids key bas n w1 of (ids, w2) \<Rightarrow>
           ((case r of Inl _ \<Rightarrow> ids | Inr i \<Rightarrow> i # ids), w2)))"

lemma gen_ids_counter:
  assumes "counter key bas c (kv w)" and "- (2 ^ 63) \<le> c" and "c + int n < 2 ^ 63"
    and "gen_ids key bas n w = (ids, w')"
  shows "sorted_wrt (<) ids \<and> set ids \<subseteq> {c + 1..c + int n}"
  using assms
proof (induction n arbitrary: c w ids w')
  case 0
  then show ?case by simp
next
  case (Suc n)
  obtain r w1 where r: "NewIDGenerate key bas w = (r, w1)" by force
  obtain ids' w2 where g: "gen_ids key bas n w1 = (ids', w2)" by force
  from Suc.prems(3) have "c < 2 ^ 63 - 1" by simp
  note step = NewIDGenerate_counter [OF Suc.prems(1,2) this r]
  show ?case
  proof (cases r)
    case (Inr i)
    with step have i: "i = c + 1" "counter key bas (c + 1) (kv w1)" by auto
    have "sorted_wrt (<) ids' \<and> set ids' \<subseteq> {c + 1 + 1..c + 1 + int n}"
      using Suc.prems by (intro Suc.IH [OF i(2) _ _ g]) auto
    moreover have "ids = (c + 1) # ids'" using Suc.prems(4) r g Inr i(1) by simp
    ultimately show ?thesis by (auto simp: subset_iff)
  next
    case (Inl e)
    from step obtain c' where c': "c' \<in> {c, c + 1}" "counter key bas c' (kv w1)" by blast
    have "sorted_wrt (<) ids' \<and> set ids' \<subseteq> {c' + 1..c' + int n}"
      using Suc.prems c'(1) by (intro Suc.IH [OF c'(2) _ _ g]) auto
    moreover have "ids = ids'" using Suc.prems(4) r g Inl by simp
    ultimately show ?thesis using c'(1) by (auto simp: subset_iff)
  qed
qed

text \<open>
  C18: the ids that \<^verbatim>\<open>NewIDGenerate\<close> hands out are unique. Whatever calls fail, with or without
  effect, the ids of the successful ones strictly increase; as long as the counter stays below
  \<open>2\<^sup>6\<^sup>3\<close>, no id is given out twice.
\<close>

theorem NewIDGenerate_unique:
  assumes "counter key bas c (kv w)" and "- (2 ^ 63) \<le> c" and "c + int n < 2 ^ 63"
  shows "sorted_wrt (<) (fst (gen_ids key bas n w)) \<and> distinct (fst (gen_ids key bas n w)) \<and>
    set (fst (gen_ids key bas n w)) \<subseteq> {c + 1..c + int n}"
  using gen_ids_counter [OF assms, of "fst (gen_ids key bas n w)" "snd (gen_ids key bas n w)"]
  by (simp add: strict_sorted_iff)

theorem NewIDGenerate_unique_witness:
  "sorted_wrt (<) (fst (gen_ids ''/id/db'' 1 4 \<lparr>kv = [], faults = [NoFault, Unconfirmed (GoErr ''timeout'')]\<rparr>)) \<and>
   distinct (fst (gen_ids ''/id/db'' 1 4 \<lparr>kv = [], faults = [NoFault, Unconfirmed (GoErr ''timeout'')]\<rparr>)) \<and>
   set (fst (gen_ids ''/id/db'' 1 4 \<lparr>kv = [], faults = [NoFault, Unconfirmed (GoErr ''timeout'')]\<rparr>)) \<subseteq> {0 + 1..0 + int 4}"
  by (rule NewIDGenerate_unique) (simp_all add: counter_def)

end
