(* ===== verification/DistLock.thy ===== *)
theory DistLock
  imports Prelude
begin

text \<open>
  The distributed lock of the master, \<^verbatim>\<open>internal/master/store/distlock.go\<close>.

  A client that wants the lock takes a lease, puts a key under the path of the lock with that
  lease, and waits until no key with a smaller revision is left. The state holds the keys under
  the path (lease and revision), the revision of the store, and for every client how far its call
  of \<^verbatim>\<open>Lock\<close> has come; the steps of \<open>lock_step\<close> are the answers of etcd. \<open>Holding\<close> means that
  \<^verbatim>\<open>Lock\<close> has returned nil, so the client goes on as if it had the lock.

  Shown: mutual exclusion and progress as long as no error turns into a success, and that such
  an error exists: when the transaction that puts the key fails, \<^verbatim>\<open>Lock\<close> returns the result of
  revoking the lease, which is nil.
\<close>

section \<open>Model\<close>

text \<open>\<^verbatim>\<open>Lock\<close>: the result of \<^verbatim>\<open>lock\<close>, or of \<^verbatim>\<open>Unlock\<close> when that is an error.\<close>

definition Lock :: "unit res \<Rightarrow> unit res \<Rightarrow> unit res" where
  "Lock lock_result unlock_result =
     (case lock_result of Inl _ \<Rightarrow> unlock_result | Inr _ \<Rightarrow> Inr ())"

definition Unlock :: "unit res \<Rightarrow> unit res" where
  "Unlock revoke_result =
     (case revoke_result of Inl _ \<Rightarrow> Inl (GoErr ''revoke lease error'') | Inr _ \<Rightarrow> Inr ())"

datatype phase = Idle | Leased nat | Waiting nat nat | Holding nat

record lock_state =
  lk_entries :: "(nat \<times> nat) list"
  lk_rev :: nat
  lk_lease :: nat
  lk_phase :: "nat \<Rightarrow> phase"

definition init_lock :: lock_state where
  "init_lock = \<lparr> lk_entries = [], lk_rev = 0, lk_lease = 0, lk_phase = (\<lambda>_. Idle) \<rparr>"

text \<open>Revoking a lease, or its end, removes the key that was put with it.\<close>

definition Revoke :: "nat \<Rightarrow> (nat \<times> nat) list \<Rightarrow> (nat \<times> nat) list" where
  "Revoke l es = filter (\<lambda>(l', r). l' \<noteq> l) es"

text \<open>\<^verbatim>\<open>waitOnLastRev\<close>: done when no key has a revision of at most \<open>revision - 1\<close>.\<close>

definition waitOnLastRev :: "(nat \<times> nat) list \<Rightarrow> nat \<Rightarrow> bool" where
  "waitOnLastRev es revision \<longleftrightarrow> filter (\<lambda>(l, r). r \<le> revision - 1) es = []"

text \<open>The phase after a call of \<^verbatim>\<open>Lock\<close> with lease \<open>l\<close> has returned \<open>res\<close>.\<close>

definition returned :: "nat \<Rightarrow> unit res \<Rightarrow> phase" where
  "returned l res = (case res of Inl _ \<Rightarrow> Idle | Inr _ \<Rightarrow> Holding l)"

datatype event = Grants nat | Puts nat | PutFails nat bool bool | Acquires nat | WaitFails nat bool bool
  | Unlocks nat bool | Expires nat

definition etcd_err :: "unit res" where "etcd_err = Inl (GoErr ''etcd error'')"

definition reply :: "bool \<Rightarrow> unit res" where
  "reply ok = (if ok then Inr () else etcd_err)"

text \<open>
  In \<open>PutFails c applied ok\<close> and \<open>WaitFails c ok1 ok2\<close> the last flags say whether the calls that
  revoke the lease succeed, and \<open>applied\<close> whether the transaction took effect although it failed.
  A lease that is already revoked cannot be revoked again.
\<close>

inductive lock_step :: "lock_state \<Rightarrow> event \<Rightarrow> lock_state \<Rightarrow> bool" where
  grant: "lk_phase s c = Idle \<Longrightarrow>
    lock_step s (Grants c)
      (s\<lparr>lk_lease := Suc (lk_lease s), lk_phase := (lk_phase s)(c := Leased (lk_lease s))\<rparr>)"
| put: "lk_phase s c = Leased l \<Longrightarrow>
    lock_step s (Puts c)
      (s\<lparr>lk_rev := Suc (lk_rev s), lk_entries := lk_entries s @ [(l, Suc (lk_rev s))],
         lk_phase := (lk_phase s)(c := Waiting l (Suc (lk_rev s)))\<rparr>)"
| put_fails: "lk_phase s c = Leased l \<Longrightarrow>
    lock_step s (PutFails c applied ok)
      (s\<lparr>lk_rev := (if applied then Suc (lk_rev s) else lk_rev s),
         lk_entries := lk_entries s @ (if applied \<and> \<not> ok then [(l, Suc (lk_rev s))] else []),
         lk_phase := (lk_phase s)(c := returned l (Lock etcd_err (Unlock (reply ok))))\<rparr>)"
| acquire: "lk_phase s c = Waiting l r \<Longrightarrow> waitOnLastRev (lk_entries s) r \<Longrightarrow>
    lock_step s (Acquires c)
      (s\<lparr>lk_phase := (lk_phase s)(c := returned l (Lock (Inr ()) (Inr ())))\<rparr>)"
| wait_fails: "lk_phase s c = Waiting l r \<Longrightarrow> \<not> (ok1 \<and> ok2) \<Longrightarrow>
    lock_step s (WaitFails c ok1 ok2)
      (s\<lparr>lk_entries := (if ok1 \<or> ok2 then Revoke l (lk_entries s) else lk_entries s),
         lk_phase := (lk_phase s)(c := returned l (Lock etcd_err (Unlock (reply ok2))))\<rparr>)"
| unlock: "lk_phase s c = Holding l \<Longrightarrow>
    lock_step s (Unlocks c ok)
      (s\<lparr>lk_entries := (if ok then Revoke l (lk_entries s) else lk_entries s),
         lk_phase := (lk_phase s)(c := Idle)\<rparr>)"
| expire: "lock_step s (Expires l) (s\<lparr>lk_entries := Revoke l (lk_entries s)\<rparr>)"

inductive_cases lock_stepE: "lock_step s e s'"

inductive lock_run :: "(lock_state \<Rightarrow> event \<Rightarrow> bool) \<Rightarrow> lock_state \<Rightarrow> bool" for allowed where
  init: "lock_run allowed init_lock"
| step: "lock_run allowed s \<Longrightarrow> lock_step s e s' \<Longrightarrow> allowed s e \<Longrightarrow> lock_run allowed s'"

definition lease_of :: "phase \<Rightarrow> nat option" where
  "lease_of p = (case p of Idle \<Rightarrow> None | Leased l \<Rightarrow> Some l | Waiting l r \<Rightarrow> Some l | Holding l \<Rightarrow> Some l)"

text \<open>
  The runs in which no failed call ends in a success: no failed put whose lease is then revoked,
  no failed wait whose lease only the second call revokes, and no lease that ends while its client
  still counts on it.
\<close>

fun benign :: "lock_state \<Rightarrow> event \<Rightarrow> bool" where
  "benign s (PutFails c applied ok) = (\<not> ok)"
| "benign s (WaitFails c ok1 ok2) = (\<not> ok2)"
| "benign s (Expires l) = (\<forall>c. lease_of (lk_phase s c) \<noteq> Some l)"
| "benign s _ = True"

section \<open>Mutual exclusion\<close>

definition entries_ok :: "(nat \<times> nat) list \<Rightarrow> nat \<Rightarrow> nat \<Rightarrow> bool" where
  "entries_ok es rv ls \<longleftrightarrow>
     sorted_wrt (<) (map snd es) \<and> distinct (map fst es) \<and> (\<forall>(l, r) \<in> set es. l < ls \<and> 0 < r \<and> r \<le> rv)"

fun phase_ok :: "(nat \<times> nat) list \<Rightarrow> nat \<Rightarrow> phase \<Rightarrow> bool" where
  "phase_ok es ls Idle = True"
| "phase_ok es ls (Leased l) = (l < ls \<and> l \<notin> fst ` set es)"
| "phase_ok es ls (Waiting l r) = (l < ls \<and> (l, r) \<in> set es)"
| "phase_ok es ls (Holding l) = (l < ls \<and> (\<exists>r. (l, r) \<in> set es \<and> (\<forall>(l', r') \<in> set es. r \<le> r')))"

definition lock_inv :: "lock_state \<Rightarrow> bool" where
  "lock_inv s \<longleftrightarrow>
     entries_ok (lk_entries s) (lk_rev s) (lk_lease s) \<and>
     (\<forall>c. phase_ok (lk_entries s) (lk_lease s) (lk_phase s c)) \<and>
     (\<forall>c c' l. lease_of (lk_phase s c) = Some l \<longrightarrow> lease_of (lk_phase s c') = Some l \<longrightarrow> c = c')"

lemma lease_of_simps [simp]:
  "lease_of Idle = None" "lease_of (Leased l) = Some l" "lease_of (Waiting l r) = Some l"
  "lease_of (Holding l) = Some l"
  by (simp_all add: lease_of_def)

lemma Lock_results [simp]:
  "returned l (Lock etcd_err (Unlock (reply ok))) = (if ok then Holding l else Idle)"
  "returned l (Lock (Inr ()) u) = Holding l"
  by (simp_all add: returned_def Lock_def Unlock_def reply_def etcd_err_def)

lemma set_Revoke [simp]: "set (Revoke l es) = {e \<in> set es. fst e \<noteq> l}"
  by (auto simp: Revoke_def)

lemma Revoke_sorted:
  "sorted_wrt (<) (map snd es) \<Longrightarrow> sorted_wrt (<) (map snd (Revoke l es))"
  by (simp add: Revoke_def sorted_wrt_map sorted_wrt_filter)

lemma Revoke_distinct: "distinct (map fst es) \<Longrightarrow> distinct (map fst (Revoke l es))"
  by (simp add: Revoke_def distinct_map_filter)

lemma waitOnLastRev_iff:
  "0 < r \<Longrightarrow> waitOnLastRev es r \<longleftrightarrow> (\<forall>(l', r') \<in> set es. r \<le> r')"
  by (auto simp: waitOnLastRev_def filter_empty_conv split_beta)

lemma entries_ok_append:
  "entries_ok es rv ls \<Longrightarrow> l < ls \<Longrightarrow> l \<notin> fst ` set es \<Longrightarrow>
     entries_ok (es @ [(l, Suc rv)]) (Suc rv) ls"
  by (force simp: entries_ok_def sorted_wrt_append)

lemma entries_ok_Revoke: "entries_ok es rv ls \<Longrightarrow> entries_ok (Revoke l es) rv ls"
  by (auto simp: entries_ok_def Revoke_sorted Revoke_distinct)

lemma entries_ok_mono: "entries_ok es rv ls \<Longrightarrow> rv \<le> rv' \<Longrightarrow> ls \<le> ls' \<Longrightarrow> entries_ok es rv' ls'"
  by (force simp: entries_ok_def)

lemma phase_ok_append:
  "phase_ok es ls p \<Longrightarrow> entries_ok es rv ls \<Longrightarrow> lease_of p \<noteq> Some l \<Longrightarrow>
     phase_ok (es @ [(l, Suc rv)]) ls p"
proof (cases p)
  case (Holding l')
  assume p: "phase_ok es ls p" and es: "entries_ok es rv ls"
  from p Holding obtain r where r: "l' < ls" "(l', r) \<in> set es" "\<forall>(l', r') \<in> set es. r \<le> r'"
    by auto
  with es have "r \<le> Suc rv" by (auto simp: entries_ok_def)
  with r Holding show ?thesis by auto
qed auto

lemma phase_ok_Revoke:
  "phase_ok es ls p \<Longrightarrow> lease_of p \<noteq> Some l \<Longrightarrow> phase_ok (Revoke l es) ls p"
  by (cases p) auto

lemma phase_ok_mono: "phase_ok es ls p \<Longrightarrow> ls \<le> ls' \<Longrightarrow> phase_ok es ls' p"
  by (cases p) auto

lemma phase_ok_lease: "phase_ok es ls p \<Longrightarrow> lease_of p = Some l \<Longrightarrow> l < ls"
  by (cases p) auto

lemma lock_inv_init: "lock_inv init_lock"
  by (simp add: lock_inv_def init_lock_def entries_ok_def)

lemma lock_inv_other:
  "lock_inv s \<Longrightarrow> lease_of (lk_phase s c) = Some l \<Longrightarrow> c' \<noteq> c \<Longrightarrow> lease_of (lk_phase s c') \<noteq> Some l"
  by (auto simp: lock_inv_def)

lemma lock_inv_same:
  "lock_inv s \<Longrightarrow> lease_of (lk_phase s c) = Some l \<Longrightarrow> lease_of (lk_phase s c') = Some l \<Longrightarrow> c = c'"
  unfolding lock_inv_def by blast

lemma lock_invI:
  assumes "entries_ok (lk_entries s) (lk_rev s) (lk_lease s)"
    and "\<And>c. phase_ok (lk_entries s) (lk_lease s) (lk_phase s c)"
    and "\<And>c c' l. lease_of (lk_phase s c) = Some l \<Longrightarrow> lease_of (lk_phase s c') = Some l \<Longrightarrow> c = c'"
  shows "lock_inv s"
  using assms unfolding lock_inv_def by blast

text \<open>One client moves to phase \<open>p\<close> with its old lease, or with none.\<close>

lemma lock_inv_move:
  assumes "lock_inv s" and "lease_of p = None \<or> lease_of p = lease_of (lk_phase s c)"
    and "entries_ok es rv (lk_lease s)" and "phase_ok es (lk_lease s) p"
    and "\<And>c'. c' \<noteq> c \<Longrightarrow> phase_ok es (lk_lease s) (lk_phase s c')"
  shows "lock_inv (s\<lparr>lk_rev := rv, lk_entries := es, lk_phase := (lk_phase s)(c := p)\<rparr>)"
proof (rule lock_invI, goal_cases)
  case 1
  show ?case using assms(3) by simp
next
  case (2 c')
  show ?case using assms(4) assms(5) [of c'] by (cases "c' = c") simp_all
next
  case (3 c1 c2 l)
  have old: "lease_of (lk_phase s c') = Some l" if "lease_of (((lk_phase s)(c := p)) c') = Some l" for c'
    using that assms(2) by (cases "c' = c") auto
  from 3 have "lease_of (lk_phase s c1) = Some l" "lease_of (lk_phase s c2) = Some l"
    by (auto intro: old)
  then show ?case by (rule lock_inv_same [OF assms(1)])
qed

lemma lock_inv_phase: "lock_inv s \<Longrightarrow> phase_ok (lk_entries s) (lk_lease s) (lk_phase s c)"
  by (simp add: lock_inv_def)

lemma lock_inv_entries: "lock_inv s \<Longrightarrow> entries_ok (lk_entries s) (lk_rev s) (lk_lease s)"
  by (simp add: lock_inv_def)

text \<open>The entry of the client's lease goes away, or stays, and the client is idle.\<close>

lemma lock_inv_leave:
  assumes "lock_inv s" and "lease_of (lk_phase s c) = Some l"
  shows "lock_inv (s\<lparr>lk_entries := (if b then Revoke l (lk_entries s) else lk_entries s),
    lk_phase := (lk_phase s)(c := Idle)\<rparr>)"
proof -
  have "lock_inv (s\<lparr>lk_rev := lk_rev s, lk_entries := (if b then Revoke l (lk_entries s) else lk_entries s),
      lk_phase := (lk_phase s)(c := Idle)\<rparr>)"
  proof (rule lock_inv_move [OF assms(1)])
    show "entries_ok (if b then Revoke l (lk_entries s) else lk_entries s) (lk_rev s) (lk_lease s)"
      using lock_inv_entries [OF assms(1)] entries_ok_Revoke by simp
    show "phase_ok (if b then Revoke l (lk_entries s) else lk_entries s) (lk_lease s) (lk_phase s c')"
      if "c' \<noteq> c" for c'
      using lock_inv_phase [OF assms(1)] phase_ok_Revoke lock_inv_other [OF assms that] by simp
  qed simp_all
  then show ?thesis by simp
qed

lemma lock_inv_grant:
  assumes "lock_inv s" and "lk_phase s c = Idle"
  shows "lock_inv (s\<lparr>lk_lease := Suc (lk_lease s), lk_phase := (lk_phase s)(c := Leased (lk_lease s))\<rparr>)"
proof (rule lock_invI, goal_cases)
  case 1
  then show ?case using entries_ok_mono [OF lock_inv_entries [OF assms(1)]] by simp
next
  case (2 c')
  have "lk_lease s \<notin> fst ` set (lk_entries s)"
    using lock_inv_entries [OF assms(1)] by (force simp: entries_ok_def)
  then show ?case using phase_ok_mono [OF lock_inv_phase [OF assms(1)]] by simp
next
  case (3 c1 c2 l)
  have new: "lease_of (lk_phase s c') \<noteq> Some (lk_lease s)" for c'
    using phase_ok_lease [OF lock_inv_phase [OF assms(1)]] by blast
  with 3 show ?case
    using lock_inv_same [OF assms(1), of c1 l c2] by (cases "c1 = c"; cases "c2 = c") auto
qed

text \<open>The client's key is put, and the client waits or has given up.\<close>

lemma lock_inv_put:
  assumes "lock_inv s" and "lk_phase s c = Leased l" and "p = Waiting l (Suc (lk_rev s)) \<or> p = Idle"
  shows "lock_inv (s\<lparr>lk_rev := Suc (lk_rev s), lk_entries := lk_entries s @ [(l, Suc (lk_rev s))],
    lk_phase := (lk_phase s)(c := p)\<rparr>)"
proof -
  have l: "lease_of (lk_phase s c) = Some l" "l < lk_lease s" "l \<notin> fst ` set (lk_entries s)"
    using lock_inv_phase [OF assms(1), of c] assms(2) by simp_all
  show ?thesis
  proof (rule lock_inv_move [OF assms(1)])
    show "entries_ok (lk_entries s @ [(l, Suc (lk_rev s))]) (Suc (lk_rev s)) (lk_lease s)"
      using entries_ok_append [OF lock_inv_entries [OF assms(1)] l(2,3)] .
    show "phase_ok (lk_entries s @ [(l, Suc (lk_rev s))]) (lk_lease s) (lk_phase s c')" if "c' \<noteq> c" for c'
      using phase_ok_append [OF lock_inv_phase [OF assms(1)] lock_inv_entries [OF assms(1)]
          lock_inv_other [OF assms(1) l(1) that]] .
  qed (use assms(2,3) l(2) in auto)
qed

lemma lock_inv_acquire:
  assumes "lock_inv s" and "lk_phase s c = Waiting l r" and "waitOnLastRev (lk_entries s) r"
  shows "lock_inv (s\<lparr>lk_phase := (lk_phase s)(c := Holding l)\<rparr>)"
proof -
  have w: "l < lk_lease s" "(l, r) \<in> set (lk_entries s)"
    using lock_inv_phase [OF assms(1), of c] assms(2) by simp_all
  then have "0 < r" using lock_inv_entries [OF assms(1)] by (auto simp: entries_ok_def)
  with w assms(3) have h: "phase_ok (lk_entries s) (lk_lease s) (Holding l)"
    by (auto simp: waitOnLastRev_iff)
  have "lock_inv (s\<lparr>lk_rev := lk_rev s, lk_entries := lk_entries s, lk_phase := (lk_phase s)(c := Holding l)\<rparr>)"
    by (rule lock_inv_move [OF assms(1)])
      (use h assms(2) lock_inv_phase [OF assms(1)] lock_inv_entries [OF assms(1)] in auto)
  then show ?thesis by simp
qed

lemma lock_inv_expire:
  assumes "lock_inv s" and "\<forall>c. lease_of (lk_phase s c) \<noteq> Some l"
  shows "lock_inv (s\<lparr>lk_entries := Revoke l (lk_entries s)\<rparr>)"
  by (rule lock_invI)
    (use assms lock_inv_same [OF assms(1)] in \<open>simp_all add: lock_inv_entries lock_inv_phase
      entries_ok_Revoke phase_ok_Revoke\<close>)

lemma lock_inv_step:
  assumes "lock_inv s" and "lock_step s e s'" and "benign s e"
  shows "lock_inv s'"
  using assms(2,1,3)
proof (cases rule: lock_step.cases)
  case (put_fails c l applied ok)
  then have "\<not> ok" using assms(3) by simp
  have "lock_inv (s\<lparr>lk_rev := lk_rev s, lk_entries := lk_entries s, lk_phase := (lk_phase s)(c := Idle)\<rparr>)"
    using lock_inv_leave [OF assms(1), of c l False] put_fails by simp
  with lock_inv_put [OF assms(1) put_fails(3), of Idle] \<open>\<not> ok\<close> show ?thesis
    unfolding put_fails by (cases applied) simp_all
next
  case (wait_fails c l r ok1 ok2)
  with lock_inv_leave [OF assms(1), of c l "ok1 \<or> ok2"] assms(3) show ?thesis by simp
next
  case (unlock c l ok)
  with lock_inv_leave [OF assms(1), of c l ok] show ?thesis by simp
qed (auto intro: lock_inv_grant lock_inv_put lock_inv_acquire lock_inv_expire)

lemma lock_run_inv: "lock_run benign s \<Longrightarrow> lock_inv s"
  by (induction rule: lock_run.induct) (auto intro: lock_inv_init lock_inv_step)

lemma lock_inv_exclusive:
  assumes "lock_inv s" and "lk_phase s c = Holding l" and "lk_phase s c' = Holding l'"
  shows "c = c'"
proof -
  from lock_inv_phase [OF assms(1), of c] assms(2) obtain r where
    r: "(l, r) \<in> set (lk_entries s)" "\<forall>(k, q) \<in> set (lk_entries s). r \<le> q" by auto
  from lock_inv_phase [OF assms(1), of c'] assms(3) obtain r' where
    r': "(l', r') \<in> set (lk_entries s)" "\<forall>(k, q) \<in> set (lk_entries s). r' \<le> q" by auto
  from r r' have "r = r'" by fastforce
  moreover have "inj_on snd (set (lk_entries s))"
    using lock_inv_entries [OF assms(1)] by (simp add: entries_ok_def strict_sorted_iff distinct_map)
  ultimately have "l = l'" using r(1) r'(1) by (metis inj_onD prod.inject snd_conv)
  with assms show ?thesis by (auto simp: lock_inv_def)
qed

section \<open>Properties\<close>

text \<open>
  C10: mutual exclusion. In every run in which no failed call is turned into a success and no lease
  ends under its client, at most one client is past \<^verbatim>\<open>Lock\<close> at a time.
\<close>

theorem lock_mutual_exclusion:
  assumes "lock_run benign s" and "lk_phase s c = Holding l" and "lk_phase s c' = Holding l'"
  shows "c = c' \<and> l = l'"
  using lock_inv_exclusive [OF lock_run_inv [OF assms(1)] assms(2,3)] assms(2,3) by auto

text \<open>A run in which client 0 gets the lock while client 1 waits.\<close>

definition demo_lock :: lock_state where
  "demo_lock = \<lparr> lk_entries = [(0, 1), (1, 2)], lk_rev = 2, lk_lease = 2,
     lk_phase = (\<lambda>_. Idle)(0 := Holding 0, 1 := Waiting 1 2) \<rparr>"

lemma demo_lock_run: "lock_run benign demo_lock"
proof -
  let ?s1 = "init_lock\<lparr>lk_lease := 1, lk_phase := (\<lambda>_. Idle)(0 := Leased 0)\<rparr>"
  let ?s2 = "?s1\<lparr>lk_lease := 2, lk_phase := (\<lambda>_. Idle)(0 := Leased 0, 1 := Leased 1)\<rparr>"
  let ?s3 = "?s2\<lparr>lk_rev := 1, lk_entries := [(0, 1)],
    lk_phase := (\<lambda>_. Idle)(0 := Waiting 0 1, 1 := Leased 1)\<rparr>"
  let ?s4 = "?s3\<lparr>lk_rev := 2, lk_entries := [(0, 1), (1, 2)],
    lk_phase := (\<lambda>_. Idle)(0 := Waiting 0 1, 1 := Waiting 1 2)\<rparr>"
  have "lock_step init_lock (Grants 0) ?s1"
    using lock_step.grant [of init_lock 0] by (simp add: init_lock_def)
  moreover have "lock_step ?s1 (Grants 1) ?s2"
    using lock_step.grant [of ?s1 1] by (simp add: numeral_2_eq_2)
  moreover have "lock_step ?s2 (Puts 0) ?s3"
    using lock_step.put [of ?s2 0 0] by (simp add: init_lock_def fun_upd_twist)
  moreover have "lock_step ?s3 (Puts 1) ?s4"
    using lock_step.put [of ?s3 1 1] by (simp add: numeral_2_eq_2)
  moreover have "lock_step ?s4 (Acquires 0) demo_lock"
    using lock_step.acquire [of ?s4 0 0 1]
    by (simp add: demo_lock_def waitOnLastRev_def init_lock_def fun_upd_twist)
  ultimately show ?thesis
    by (meson lock_run.intros benign.simps(4-7))
qed

theorem lock_mutual_exclusion_witness:
  "lock_run benign demo_lock \<and> {c. \<exists>l. lk_phase demo_lock c = Holding l} = {0}"
proof -
  have h: "lk_phase demo_lock 0 = Holding 0" by (simp add: demo_lock_def)
  with lock_mutual_exclusion [OF demo_lock_run _ h] demo_lock_run show ?thesis by blast
qed

text \<open>
  Progress. In such a run the client whose key is the oldest is never kept waiting: its next
  look at the store lets it in.
\<close>

theorem lock_oldest_enters:
  assumes "lock_run benign s" and "lk_phase s c = Waiting l r"
    and "\<forall>(l', r') \<in> set (lk_entries s). r \<le> r'"
  shows "\<exists>s'. lock_step s (Acquires c) s' \<and> lk_phase s' c = Holding l"
proof -
  have inv: "lock_inv s" using assms(1) by (rule lock_run_inv)
  with assms(2) have "(l, r) \<in> set (lk_entries s)" using lock_inv_phase [OF inv, of c] by simp
  with lock_inv_entries [OF inv] have "0 < r" by (auto simp: entries_ok_def)
  with assms(3) have "waitOnLastRev (lk_entries s) r" by (simp add: waitOnLastRev_iff)
  from lock_step.acquire [OF assms(2) this] show ?thesis
    by (intro exI [of _ "s\<lparr>lk_phase := (lk_phase s)(c := Holding l)\<rparr>"]) simp
qed

definition demo_waiting :: lock_state where
  "demo_waiting = demo_lock\<lparr>lk_entries := [(1, 2)], lk_phase := (\<lambda>_. Idle)(0 := Idle, 1 := Waiting 1 2)\<rparr>"

lemma demo_waiting_run: "lock_run benign demo_waiting"
proof -
  have "lock_step demo_lock (Unlocks 0 True) demo_waiting"
    using lock_step.unlock [of demo_lock 0 0 True]
    by (simp add: demo_lock_def demo_waiting_def Revoke_def fun_upd_twist)
  with demo_lock_run show ?thesis by (meson lock_run.step benign.simps)
qed

theorem lock_oldest_enters_witness:
  "\<exists>s'. lock_step demo_waiting (Acquires 1) s' \<and> lk_phase s' 1 = Holding 1"
  by (rule lock_oldest_enters [OF demo_waiting_run, where r = 2])
    (simp_all add: demo_waiting_def demo_lock_def)

text \<open>
  C27: \<^verbatim>\<open>Lock\<close> can return nil without the lock. When the transaction that puts the key fails, the
  error is replaced by the result of revoking the lease: there is a run in which two clients are
  past \<^verbatim>\<open>Lock\<close> at the same time although no lease has ended.
\<close>

theorem lock_failed_put_breaks_exclusion:
  "\<exists>s l l'. lock_run (\<lambda>s e. \<forall>k. e \<noteq> Expires k) s \<and>
     lk_phase s 0 = Holding l \<and> lk_phase s 1 = Holding l'"
proof -
  let ?ok = "\<lambda>s e. \<forall>k. e \<noteq> Expires k"
  let ?s1 = "init_lock\<lparr>lk_lease := 1, lk_phase := (\<lambda>_. Idle)(0 := Leased 0)\<rparr>"
  let ?s2 = "?s1\<lparr>lk_phase := (\<lambda>_. Idle)(0 := Holding 0)\<rparr>"
  let ?s3 = "?s2\<lparr>lk_lease := 2, lk_phase := (\<lambda>_. Idle)(0 := Holding 0, 1 := Leased 1)\<rparr>"
  let ?s4 = "?s3\<lparr>lk_phase := (\<lambda>_. Idle)(0 := Holding 0, 1 := Holding 1)\<rparr>"
  have a1: "lock_step init_lock (Grants 0) ?s1"
    using lock_step.grant [of init_lock 0] by (simp add: init_lock_def)
  have a2: "lock_step ?s1 (PutFails 0 False True) ?s2"
    using lock_step.put_fails [of ?s1 0 0 False True] by (simp add: init_lock_def)
  have a3: "lock_step ?s2 (Grants 1) ?s3"
    using lock_step.grant [of ?s2 1] by (simp add: numeral_2_eq_2)
  have a4: "lock_step ?s3 (PutFails 1 False True) ?s4"
    using lock_step.put_fails [of ?s3 1 1 False True] by (simp add: init_lock_def)
  have "lock_run ?ok ?s4"
    by (rule lock_run.step [OF lock_run.step [OF lock_run.step [OF lock_run.step [OF lock_run.init a1]
            a2] a3] a4]) simp_all
  then show ?thesis by (intro exI [of _ ?s4] exI [of _ 0] exI [of _ 1]) simp
qed

end
