(* ===== verification/Registry.thy ===== *)
theory Registry
  imports Store
begin

text \<open>
  What the alias, role and user services of the master have in common: entities stored as JSON
  under a key made of their name, created only if the name is free, looked up and deleted by name.

  The JSON package is the parameter \<open>codec\<close>; decoding writes over an object that exists already, as
  in \<^verbatim>\<open>json.Unmarshal(bs, alias)\<close>. The locale \<open>registry\<close> is the contract of such a service on a
  network without faults; inside it, any sequence of calls is shown to give the same answers as
  the same sequence on a finite map. The services are interpreted in \<open>AccessServices\<close>.
\<close>

section \<open>JSON\<close>

record 'a codec =
  marshal :: "'a \<Rightarrow> string res"
  unmarshal :: "'a \<Rightarrow> string \<Rightarrow> 'a res"

text \<open>\<open>x\<close> survives encoding, and decoding over the object \<open>b\<close>.\<close>

definition roundtrips :: "'a codec \<Rightarrow> 'a \<Rightarrow> 'a \<Rightarrow> bool" where
  "roundtrips c b x \<longleftrightarrow>
     (case marshal c x of Inl _ \<Rightarrow> False | Inr s \<Rightarrow> s \<noteq> [] \<and> unmarshal c b s = Inr x)"

lemma roundtrips_iff:
  "roundtrips c b x \<longleftrightarrow> (\<exists>s. marshal c x = Inr s \<and> s \<noteq> [] \<and> unmarshal c b s = Inr x)"
  by (auto simp: roundtrips_def split: sum.splits)

section \<open>The transactions\<close>

text \<open>The body of the STM in \<^verbatim>\<open>CreateAlias\<close>, \<^verbatim>\<open>CreateRole\<close> and \<^verbatim>\<open>CreateUser\<close>.\<close>

definition create_stm :: "string \<Rightarrow> go_error \<Rightarrow> string res \<Rightarrow> (kvs, unit) act" where
  "create_stm key existErr marshaled =
     bindA (stm_Get key) (\<lambda>v.
       if v \<noteq> [] then fail existErr
       else bindA (lift marshaled) (\<lambda>s. stm_Put key s))"

text \<open>The body of the STM in \<^verbatim>\<open>UpdateAlias\<close>, \<^verbatim>\<open>UpdateUser\<close> and \<^verbatim>\<open>ChangeRolePrivilege\<close>.\<close>

definition update_stm :: "string \<Rightarrow> string res \<Rightarrow> (kvs, unit) act" where
  "update_stm key marshaled = bindA (lift marshaled) (\<lambda>s. stm_Put key s)"

text \<open>The result is dropped: \<^verbatim>\<open>err = mc.STM(...); return nil\<close>.\<close>

definition swallow :: "(world, 'a) act \<Rightarrow> (world, unit) act" where
  "swallow act w = (Inr (), snd (act w))"

lemma create_stm_eq:
  "create_stm key e r m =
     (if map_of m key \<noteq> None \<and> map_of m key \<noteq> Some [] then (Inl e, m)
      else case r of Inl x \<Rightarrow> (Inl x, m) | Inr s \<Rightarrow> (Inr (), AList.update key s m))"
  by (auto simp: create_stm_def bindA_def split: option.splits sum.splits)

text \<open>Creation under arbitrary faults: an entry is never overwritten, and no other key changes.\<close>

lemma create_stm_faults:
  assumes "STM (create_stm key e r) w = (res, w')"
  shows "kv w' = kv w \<or> (map_of (kv w) key \<in> {None, Some []} \<and>
    (\<exists>s. r = Inr s \<and> kv w' = AList.update key s (kv w)))"
  using STM_atomic(1) [OF assms] by (auto simp: create_stm_eq split: sum.splits if_splits)

lemma create_locked_faults:
  "kv (snd (with_lock l (STM (create_stm key e r)) w)) = kv w \<or>
    (map_of (kv w) key \<in> {None, Some []} \<and>
     (\<exists>s. r = Inr s \<and> kv (snd (with_lock l (STM (create_stm key e r)) w)) = AList.update key s (kv w)))"
proof (rule with_lock_kv)
  fix w' :: world
  assume "kv w' = kv w"
  then show "kv (snd (STM (create_stm key e r) w')) = kv w \<or> (map_of (kv w) key \<in> {None, Some []} \<and>
      (\<exists>s. r = Inr s \<and> kv (snd (STM (create_stm key e r) w')) = AList.update key s (kv w)))"
    using create_stm_faults [of key e r w' "fst (STM (create_stm key e r) w')"
        "snd (STM (create_stm key e r) w')"] by simp
qed simp

text \<open>The transactions on a calm network.\<close>

lemma create_locked_new:
  "calm w \<Longrightarrow> map_of (kv w) key = None \<Longrightarrow>
     \<exists>w'. with_lock l (STM (create_stm key e (Inr s))) w = (Inr (), w') \<and> calm w' \<and>
       kv w' = AList.update key s (kv w)"
  by (simp add: with_lock_def calm_simps create_stm_eq)

lemma create_locked_old:
  "calm w \<Longrightarrow> map_of (kv w) key = Some v \<Longrightarrow> v \<noteq> [] \<Longrightarrow>
     \<exists>w'. with_lock l (STM (create_stm key e r)) w = (Inl e, w') \<and> calm w' \<and> kv w' = kv w"
  by (simp add: with_lock_def calm_simps create_stm_eq)

lemma delete_locked:
  "calm w \<Longrightarrow>
     \<exists>w'. with_lock l (STM (stm_Del key)) w = (Inr (), w') \<and> calm w' \<and>
       kv w' = AList.delete key (kv w)"
  by (simp add: with_lock_def calm_simps)

lemma update_locked:
  "calm w \<Longrightarrow>
     \<exists>w'. with_lock l (swallow (STM (update_stm key (Inr s)))) w = (Inr (), w') \<and> calm w' \<and>
       kv w' = AList.update key s (kv w)"
  by (simp add: with_lock_def swallow_def update_stm_def bindA_def calm_simps)

section \<open>Entities under their names\<close>

text \<open>What is stored under the name \<open>n\<close>, and that everything stored can be read.\<close>

definition keyed_view :: "(string \<Rightarrow> string) \<Rightarrow> 'e codec \<Rightarrow> (string \<Rightarrow> 'e) \<Rightarrow> kvs \<Rightarrow> string \<rightharpoonup> 'e" where
  "keyed_view key c bas m n =
     (case map_of m (key n) of
        None \<Rightarrow> None
      | Some v \<Rightarrow> (case unmarshal c (bas n) v of Inl _ \<Rightarrow> None | Inr e \<Rightarrow> Some e))"

definition keyed_wf ::
  "(string \<Rightarrow> string) \<Rightarrow> 'e codec \<Rightarrow> (string \<Rightarrow> 'e) \<Rightarrow> ('e \<Rightarrow> string) \<Rightarrow> kvs \<Rightarrow> bool" where
  "keyed_wf key c bas name m \<longleftrightarrow>
     (\<forall>n v. map_of m (key n) = Some v \<longrightarrow> v \<noteq> [] \<and> (\<exists>e. unmarshal c (bas n) v = Inr e \<and> name e = n))"

lemma keyed_wf_empty: "keyed_wf key c bas name []"
  by (simp add: keyed_wf_def)

lemma keyed_Some:
  assumes "keyed_wf key c bas name m" and "keyed_view key c bas m n = Some e"
  shows "\<exists>v. map_of m (key n) = Some v \<and> v \<noteq> [] \<and> unmarshal c (bas n) v = Inr e \<and> name e = n"
  using assms by (fastforce simp: keyed_wf_def keyed_view_def split: option.splits sum.splits)

lemma keyed_None:
  assumes "keyed_wf key c bas name m"
  shows "keyed_view key c bas m n = None \<longleftrightarrow> map_of m (key n) = None"
  using assms by (fastforce simp: keyed_wf_def keyed_view_def split: option.splits sum.splits)

lemma keyed_update:
  assumes "inj key" and "marshal c e = Inr s" and "s \<noteq> []" and "unmarshal c (bas (name e)) s = Inr e"
  shows "keyed_view key c bas (AList.update (key (name e)) s m) = (keyed_view key c bas m)(name e \<mapsto> e)"
    and "keyed_wf key c bas name m \<Longrightarrow> keyed_wf key c bas name (AList.update (key (name e)) s m)"
  using assms by (auto simp: keyed_view_def keyed_wf_def update_conv' inj_eq)

lemma keyed_delete:
  assumes "inj key"
  shows "keyed_view key c bas (AList.delete (key n) m) = (keyed_view key c bas m)(n := None)"
    and "keyed_wf key c bas name m \<Longrightarrow> keyed_wf key c bas name (AList.delete (key n) m)"
  using assms by (auto simp: keyed_view_def keyed_wf_def delete_conv' inj_eq)

section \<open>The contract\<close>

datatype 'e cmd = Cre 'e | Qry string | Del string

datatype 'q outcome = Done | Found 'q | Failed go_error

definition outcome :: "('a \<Rightarrow> 'q outcome) \<Rightarrow> 'a res \<Rightarrow> 'q outcome" where
  "outcome f r = (case r of Inl e \<Rightarrow> Failed e | Inr x \<Rightarrow> f x)"

text \<open>A sequence of calls of a service, and the answers.\<close>

fun run_cmds ::
  "('e \<Rightarrow> (world, unit) act) \<Rightarrow> (string \<Rightarrow> (world, 'q) act) \<Rightarrow> (string \<Rightarrow> (world, unit) act) \<Rightarrow>
     'e cmd list \<Rightarrow> world \<Rightarrow> 'q outcome list" where
  "run_cmds create query del [] w = []"
| "run_cmds create query del (Cre e # cs) w =
     outcome (\<lambda>_. Done) (fst (create e w)) # run_cmds create query del cs (snd (create e w))"
| "run_cmds create query del (Qry n # cs) w =
     outcome Found (fst (query n w)) # run_cmds create query del cs (snd (query n w))"
| "run_cmds create query del (Del n # cs) w =
     outcome (\<lambda>_. Done) (fst (del n w)) # run_cmds create query del cs (snd (del n w))"

text \<open>The same sequence on a finite map.\<close>

fun spec_cmds ::
  "('e \<Rightarrow> string) \<Rightarrow> ('e \<Rightarrow> 'q) \<Rightarrow> go_error \<Rightarrow> go_error \<Rightarrow> 'e cmd list \<Rightarrow> (string \<rightharpoonup> 'e) \<Rightarrow>
     'q outcome list" where
  "spec_cmds name obs existErr missErr [] m = []"
| "spec_cmds name obs existErr missErr (Cre e # cs) m =
     (case m (name e) of
        None \<Rightarrow> Done # spec_cmds name obs existErr missErr cs (m(name e \<mapsto> e))
      | Some _ \<Rightarrow> Failed existErr # spec_cmds name obs existErr missErr cs m)"
| "spec_cmds name obs existErr missErr (Qry n # cs) m =
     (case m n of None \<Rightarrow> Failed missErr | Some e \<Rightarrow> Found (obs e)) #
     spec_cmds name obs existErr missErr cs m"
| "spec_cmds name obs existErr missErr (Del n # cs) m =
     (case m n of
        None \<Rightarrow> Failed missErr # spec_cmds name obs existErr missErr cs m
      | Some _ \<Rightarrow> Done # spec_cmds name obs existErr missErr cs (m(n := None)))"

fun cmd_ok :: "('e \<Rightarrow> bool) \<Rightarrow> (string \<Rightarrow> bool) \<Rightarrow> 'e cmd \<Rightarrow> bool" where
  "cmd_ok ok custom (Cre e) = ok e"
| "cmd_ok ok custom (Qry n) = True"
| "cmd_ok ok custom (Del n) = custom n"

locale registry =
  fixes create :: "'e \<Rightarrow> (world, unit) act"
    and query :: "string \<Rightarrow> (world, 'q) act"
    and del :: "string \<Rightarrow> (world, unit) act"
    and name :: "'e \<Rightarrow> string"
    and obs :: "'e \<Rightarrow> 'q"
    and ok :: "'e \<Rightarrow> bool"
    and custom :: "string \<Rightarrow> bool"
    and view :: "kvs \<Rightarrow> string \<rightharpoonup> 'e"
    and wf :: "kvs \<Rightarrow> bool"
    and existErr :: go_error
    and missErr :: go_error
  assumes create_new: "calm w \<Longrightarrow> wf (kv w) \<Longrightarrow> ok e \<Longrightarrow> view (kv w) (name e) = None \<Longrightarrow>
      \<exists>w'. create e w = (Inr (), w') \<and> calm w' \<and> wf (kv w') \<and>
        view (kv w') = (view (kv w))(name e \<mapsto> e)"
    and create_old: "calm w \<Longrightarrow> wf (kv w) \<Longrightarrow> ok e \<Longrightarrow> view (kv w) (name e) \<noteq> None \<Longrightarrow>
      \<exists>w'. create e w = (Inl existErr, w') \<and> calm w' \<and> kv w' = kv w"
    and query_law: "calm w \<Longrightarrow> wf (kv w) \<Longrightarrow>
      \<exists>w'. query n w = (case view (kv w) n of None \<Rightarrow> Inl missErr | Some e \<Rightarrow> Inr (obs e), w') \<and>
        calm w' \<and> kv w' = kv w"
    and del_old: "calm w \<Longrightarrow> wf (kv w) \<Longrightarrow> custom n \<Longrightarrow> view (kv w) n \<noteq> None \<Longrightarrow>
      \<exists>w'. del n w = (Inr (), w') \<and> calm w' \<and> wf (kv w') \<and>
        view (kv w') = (view (kv w))(n := None)"
    and del_none: "calm w \<Longrightarrow> wf (kv w) \<Longrightarrow> custom n \<Longrightarrow> view (kv w) n = None \<Longrightarrow>
      \<exists>w'. del n w = (Inl missErr, w') \<and> calm w' \<and> kv w' = kv w"
begin

lemma run_refines:
  assumes "calm w" and "wf (kv w)" and "list_all (cmd_ok ok custom) cs"
  shows "run_cmds create query del cs w = spec_cmds name obs existErr missErr cs (view (kv w))"
  using assms
proof (induction cs arbitrary: w)
  case Nil
  then show ?case by simp
next
  case (Cons c cs)
  show ?case
  proof (cases c)
    case (Cre e)
    with Cons.prems have "ok e" by simp
    then consider w' where "create e w = (Inr (), w')" "calm w'" "wf (kv w')"
        "view (kv w') = (view (kv w))(name e \<mapsto> e)" "view (kv w) (name e) = None"
      | w' x where "create e w = (Inl existErr, w')" "calm w'" "kv w' = kv w"
        "view (kv w) (name e) = Some x"
      using create_new [OF Cons.prems(1,2)] create_old [OF Cons.prems(1,2)] by blast
    then show ?thesis
      by cases (use Cons Cre in \<open>simp_all add: outcome_def\<close>)
  next
    case (Qry n)
    obtain w' where "query n w = (case view (kv w) n of None \<Rightarrow> Inl missErr | Some e \<Rightarrow> Inr (obs e), w')"
      "calm w'" "kv w' = kv w"
      using query_law [OF Cons.prems(1,2)] by blast
    then show ?thesis
      using Cons Qry by (simp add: outcome_def split: option.split)
  next
    case (Del n)
    with Cons.prems have "custom n" by simp
    then consider w' x where "del n w = (Inr (), w')" "calm w'" "wf (kv w')"
        "view (kv w') = (view (kv w))(n := None)" "view (kv w) n = Some x"
      | w' where "del n w = (Inl missErr, w')" "calm w'" "kv w' = kv w" "view (kv w) n = None"
      using del_old [OF Cons.prems(1,2)] del_none [OF Cons.prems(1,2)] by blast
    then show ?thesis
      by cases (use Cons Del in \<open>simp_all add: outcome_def\<close>)
  qed
qed

text \<open>After a creation the entity is found, until it is deleted.\<close>

lemma create_query_delete:
  assumes "calm w" and "wf (kv w)" and "ok e" and "custom (name e)" and "view (kv w) (name e) = None"
  shows "run_cmds create query del [Cre e, Qry (name e), Cre e, Del (name e), Qry (name e)] w =
    [Done, Found (obs e), Failed existErr, Done, Failed missErr]"
  using run_refines [OF assms(1,2), of "[Cre e, Qry (name e), Cre e, Del (name e), Qry (name e)]"] assms(3-5)
  by simp

end

end
