(* ===== verification/AccessServices.thy ===== *)
theory AccessServices
  imports Meta Access Registry
begin

text \<open>
  The services of the master for aliases, roles and users:
  \<^verbatim>\<open>internal/master/services/alias_service.go\<close>, \<^verbatim>\<open>role_service.go\<close> and \<^verbatim>\<open>user_service.go\<close>, and the
  queries for users and roles that the router makes through \<^verbatim>\<open>internal/client/master.go\<close>.

  Every operation is one action on the world of \<open>Store\<close>, with the key space, the character table
  of \<^verbatim>\<open>unicode.IsNumber\<close> and the JSON codecs as parameters. The three services are interpreted as
  registries; the other lemmas are about the operations that are not of that form.
\<close>

section \<open>Aliases\<close>

definition new_alias :: "string \<Rightarrow> Alias" where
  "new_alias n = \<lparr> al_Name = n, al_DbName = [], al_SpaceName = [] \<rparr>"

definition CreateAlias :: "key_space \<Rightarrow> (nat \<Rightarrow> bool) \<Rightarrow> Alias codec \<Rightarrow> Alias \<Rightarrow> (world, unit) act" where
  "CreateAlias ks nt c alias =
     bindA (lift (Alias_Validate nt alias)) (\<lambda>_.
     with_lock (LockAliasKey ks (al_Name alias))
       (STM (create_stm (AliasKey ks (al_Name alias)) (NewError ALIAS_EXIST None) (marshal c alias))))"

definition QueryAlias :: "key_space \<Rightarrow> Alias codec \<Rightarrow> string \<Rightarrow> (world, Alias) act" where
  "QueryAlias ks c aliasName =
     bindA (Get (AliasKey ks aliasName)) (\<lambda>bs.
       case bs of
         None \<Rightarrow> fail (NewError ALIAS_NOT_EXIST None)
       | Some v \<Rightarrow> (case unmarshal c (new_alias aliasName) v of
           Inl _ \<Rightarrow> fail (param_err ''get alias value err'')
         | Inr alias \<Rightarrow> ret alias))"

definition DeleteAlias :: "key_space \<Rightarrow> Alias codec \<Rightarrow> string \<Rightarrow> (world, unit) act" where
  "DeleteAlias ks c aliasName =
     bindA (QueryAlias ks c aliasName) (\<lambda>alias.
     with_lock (LockAliasKey ks aliasName) (STM (stm_Del (AliasKey ks (al_Name alias)))))"

definition UpdateAlias :: "key_space \<Rightarrow> Alias codec \<Rightarrow> Alias \<Rightarrow> (world, unit) act" where
  "UpdateAlias ks c alias =
     bindA (Get (AliasKey ks (al_Name alias))) (\<lambda>bs.
       case bs of
         None \<Rightarrow> fail (NewError ALIAS_NOT_EXIST None)
       | Some _ \<Rightarrow>
           with_lock (LockAliasKey ks (al_Name alias))
             (swallow (STM (update_stm (AliasKey ks (al_Name alias)) (marshal c alias)))))"

definition QueryAllAlias :: "key_space \<Rightarrow> Alias codec \<Rightarrow> (world, Alias list) act" where
  "QueryAllAlias ks c =
     bindA (PrefixScan (PrefixAlias ks)) (\<lambda>kvs.
       mapA (\<lambda>(k, v). case unmarshal c (new_alias []) v of
           Inl _ \<Rightarrow> fail (param_err ''get alias value err'')
         | Inr alias \<Rightarrow> ret alias) kvs)"

section \<open>Roles\<close>

definition new_role :: "string \<Rightarrow> Role" where
  "new_role n = \<lparr> rl_Name = n, rl_Operator = [], rl_Privileges = [] \<rparr>"

definition CreateRole :: "key_space \<Rightarrow> (nat \<Rightarrow> bool) \<Rightarrow> Role codec \<Rightarrow> Role \<Rightarrow> (world, unit) act" where
  "CreateRole ks nt c role =
     bindA (lift (Role_Validate nt role)) (\<lambda>_.
     with_lock (LockRoleKey ks (rl_Name role))
       (STM (create_stm (RoleKey ks (rl_Name role)) (NewError ROLE_EXIST None) (marshal c role))))"

definition QueryRole :: "key_space \<Rightarrow> Role codec \<Rightarrow> string \<Rightarrow> (world, Role) act" where
  "QueryRole ks c role_name =
     (case map_of RoleMap role_name of
        Some value \<Rightarrow> ret value
      | None \<Rightarrow>
          bindA (Get (RoleKey ks role_name)) (\<lambda>bs.
            case bs of
              None \<Rightarrow> fail (NewError ROLE_NOT_EXIST None)
            | Some v \<Rightarrow> (case unmarshal c (new_role role_name) v of
                Inl _ \<Rightarrow> fail (param_err ''get role err'')
              | Inr role \<Rightarrow> ret role)))"

definition DeleteRole :: "key_space \<Rightarrow> Role codec \<Rightarrow> string \<Rightarrow> (world, unit) act" where
  "DeleteRole ks c roleName =
     bindA (QueryRole ks c roleName) (\<lambda>role.
     with_lock (LockRoleKey ks roleName) (STM (stm_Del (RoleKey ks (rl_Name role)))))"

definition QueryAllRole :: "key_space \<Rightarrow> Role codec \<Rightarrow> (world, Role list) act" where
  "QueryAllRole ks c =
     bindA (PrefixScan (PrefixRole ks)) (\<lambda>kvs.
       mapA (\<lambda>(k, v). case unmarshal c (new_role []) v of
           Inl _ \<Rightarrow> fail (param_err ''get role err'')
         | Inr role \<Rightarrow> ret role) kvs)"

text \<open>The loop of \<^verbatim>\<open>ChangeRolePrivilege\<close> over the privileges of the request.\<close>

definition change_privilege ::
  "string \<Rightarrow> (string \<times> string) \<Rightarrow> (string, string) gomap \<Rightarrow> (string, string) gomap" where
  "change_privilege operator rp old =
     (case rp of (resource, privilege) \<Rightarrow>
        let old' = (if operator = ''Grant'' then AList.update resource privilege old else old) in
        if operator = ''Revoke'' then AList.delete resource old' else old')"

definition ChangeRolePrivilege ::
  "key_space \<Rightarrow> (nat \<Rightarrow> bool) \<Rightarrow> Role codec \<Rightarrow> Role \<Rightarrow> (world, Role) act" where
  "ChangeRolePrivilege ks nt c role =
     bindA (lift (Role_Validate nt role)) (\<lambda>_.
     bindA (Get (RoleKey ks (rl_Name role))) (\<lambda>bs.
       case bs of
         None \<Rightarrow> fail (NewError ROLE_NOT_EXIST None)
       | Some v \<Rightarrow> (case unmarshal c (new_role []) v of
           Inl _ \<Rightarrow> fail (param_err ''get role privilege err'')
         | Inr old_role \<Rightarrow>
             let old_role' = old_role\<lparr>rl_Privileges :=
                   fold (change_privilege (rl_Operator role)) (rl_Privileges role) (rl_Privileges old_role)\<rparr>
             in bindA (with_lock (LockRoleKey ks (rl_Name role))
                  (swallow (STM (update_stm (RoleKey ks (rl_Name old_role')) (marshal c old_role')))))
                  (\<lambda>_. ret old_role'))))"

section \<open>Users\<close>

definition new_user :: "string \<Rightarrow> User" where
  "new_user n = \<lparr> us_Name = n, us_Password = None, us_OldPassword = None, us_RoleName = None \<rparr>"

definition user_role :: "string \<Rightarrow> UserRole" where
  "user_role n = \<lparr> ur_Name = n, ur_Password = None, ur_OldPassword = None, ur_Role = new_role [] \<rparr>"

text \<open>\<^verbatim>\<open>*user.RoleName\<close> panics when no role is set.\<close>

definition role_of_user ::
  "key_space \<Rightarrow> Role codec \<Rightarrow> User \<Rightarrow> (world, Role) act" where
  "role_of_user ks rc user =
     (case us_RoleName user of
        None \<Rightarrow> fail (GoPanic ''nil pointer dereference'')
      | Some rn \<Rightarrow> wrap_err (param_err ''get user role err'') (QueryRole ks rc rn))"

definition QueryUser ::
  "key_space \<Rightarrow> User codec \<Rightarrow> Role codec \<Rightarrow> string \<Rightarrow> bool \<Rightarrow> (world, UserRole) act" where
  "QueryUser ks c rc userName checkRole =
     bindA (Get (UserKey ks userName)) (\<lambda>bs.
       case bs of
         None \<Rightarrow> fail (NewError USER_NOT_EXIST None)
       | Some v \<Rightarrow> (case unmarshal c (new_user userName) v of
           Inl _ \<Rightarrow> fail (param_err ''get user err'')
         | Inr user \<Rightarrow>
             if checkRole then
               bindA (role_of_user ks rc user) (\<lambda>role. ret ((user_role (us_Name user))\<lparr>ur_Role := role\<rparr>))
             else ret (user_role (us_Name user))))"

definition CreateUser ::
  "key_space \<Rightarrow> (nat \<Rightarrow> bool) \<Rightarrow> User codec \<Rightarrow> Role codec \<Rightarrow> User \<Rightarrow> bool \<Rightarrow> (world, unit) act" where
  "CreateUser ks nt c rc user check_root =
     bindA (lift (User_Validate nt user check_root)) (\<lambda>_.
     bindA (case us_RoleName user of
         Some rn \<Rightarrow> bindA (QueryRole ks rc rn) (\<lambda>_. ret ())
       | None \<Rightarrow> fail (param_err ''role name is empty'')) (\<lambda>_.
     bindA (lift (guard (us_Password user = None) (param_err ''password is empty''))) (\<lambda>_.
     with_lock (LockUserKey ks (us_Name user))
       (STM (create_stm (UserKey ks (us_Name user)) (NewError USER_EXIST None) (marshal c user))))))"

definition DeleteUser ::
  "key_space \<Rightarrow> User codec \<Rightarrow> Role codec \<Rightarrow> string \<Rightarrow> (world, unit) act" where
  "DeleteUser ks c rc userName =
     bindA (lift (guard (EqualFold userName ''root'') (param_err ''can't delete root user''))) (\<lambda>_.
     bindA (QueryUser ks c rc userName False) (\<lambda>user.
     with_lock (LockUserKey ks userName) (STM (stm_Del (UserKey ks (ur_Name user))))))"

definition QueryAllUser ::
  "key_space \<Rightarrow> User codec \<Rightarrow> Role codec \<Rightarrow> (world, UserRole list) act" where
  "QueryAllUser ks c rc =
     bindA (PrefixScan (PrefixUser ks)) (\<lambda>kvs.
       mapA (\<lambda>(k, v). case unmarshal c (new_user []) v of
           Inl _ \<Rightarrow> fail (param_err ''get user err'')
         | Inr user \<Rightarrow>
             bindA (role_of_user ks rc user) (\<lambda>role. ret ((user_role (us_Name user))\<lparr>ur_Role := role\<rparr>)))
         kvs)"

text \<open>The checks of \<^verbatim>\<open>UpdateUser\<close>: the user that is written, with the old role or password filled in.\<close>

definition check_password_change :: "User \<Rightarrow> User \<Rightarrow> string \<Rightarrow> unit res" where
  "check_password_change user old_user auth_user =
     (if auth_user = ''root'' \<and> us_Name user \<noteq> ''root'' then
        (case us_Password user of
           None \<Rightarrow> Inl (param_err ''empty password'')
         | Some pw \<Rightarrow> guard (us_Password old_user = Some pw)
             (param_err ''password is same with old password''))
      else
        (case (us_Password user, us_OldPassword user) of
           (Some pw, Some opw) \<Rightarrow>
             bind_res (guard (us_Password old_user = Some pw)
               (param_err ''password is same with old password'')) (\<lambda>_.
             guard (us_Password old_user \<noteq> None \<and> us_Password old_user \<noteq> Some opw)
               (param_err ''old password is invalid''))
         | _ \<Rightarrow> Inl (param_err ''empty password or old password'')))"

definition updated_user ::
  "key_space \<Rightarrow> Role codec \<Rightarrow> User \<Rightarrow> User \<Rightarrow> string \<Rightarrow> (world, User) act" where
  "updated_user ks rc user old_user auth_user =
     (case us_RoleName user of
        Some rn \<Rightarrow>
          bindA (lift (guard (us_Password user \<noteq> None \<or> us_OldPassword user \<noteq> None)
            (param_err ''don't update role or password at same time''))) (\<lambda>_.
          bindA (QueryRole ks rc rn) (\<lambda>_.
          ret (if us_Password old_user \<noteq> None then user\<lparr>us_Password := us_Password old_user\<rparr> else user)))
      | None \<Rightarrow>
          bindA (lift (check_password_change user old_user auth_user)) (\<lambda>_.
          ret (if us_RoleName old_user \<noteq> None then user\<lparr>us_RoleName := us_RoleName old_user\<rparr> else user)))"

definition UpdateUser ::
  "key_space \<Rightarrow> User codec \<Rightarrow> Role codec \<Rightarrow> User \<Rightarrow> string \<Rightarrow> (world, unit) act" where
  "UpdateUser ks c rc user auth_user =
     bindA (Get (UserKey ks (us_Name user))) (\<lambda>bs.
       case bs of
         None \<Rightarrow> fail (NewError USER_NOT_EXIST None)
       | Some v \<Rightarrow> (case unmarshal c (new_user []) v of
           Inl _ \<Rightarrow> fail (param_err ''updata user err'')
         | Inr old_user \<Rightarrow>
             bindA (updated_user ks rc user old_user auth_user) (\<lambda>user'.
             with_lock (LockUserKey ks (us_Name user'))
               (swallow (STM (update_stm (UserKey ks (us_Name user')) (marshal c user')))))))"

text \<open>\<^verbatim>\<open>RoleService.QueryUserWithPassword\<close>.\<close>

definition QueryUserWithPassword ::
  "key_space \<Rightarrow> User codec \<Rightarrow> Role codec \<Rightarrow> string \<Rightarrow> bool \<Rightarrow> (world, UserRole) act" where
  "QueryUserWithPassword ks c rc user_name check_role =
     bindA (Get (UserKey ks user_name)) (\<lambda>bs.
       case bs of
         None \<Rightarrow> fail (NewError USER_NOT_EXIST None)
       | Some v \<Rightarrow> (case unmarshal c (new_user user_name) v of
           Inl _ \<Rightarrow> fail (param_err ''get user err'')
         | Inr user \<Rightarrow>
             let ur = (user_role (us_Name user))\<lparr>ur_Password := us_Password user\<rparr> in
             if check_role then bindA (role_of_user ks rc user) (\<lambda>role. ret (ur\<lparr>ur_Role := role\<rparr>))
             else ret ur))"

section \<open>The queries of the router\<close>

text \<open>\<^verbatim>\<open>masterClient.QueryUser\<close>, \<^verbatim>\<open>QueryUserByPassword\<close>, \<^verbatim>\<open>QueryRole\<close>, \<^verbatim>\<open>QueryAliasByName\<close>.\<close>

definition client_QueryUser :: "key_space \<Rightarrow> User codec \<Rightarrow> string \<Rightarrow> (world, User) act" where
  "client_QueryUser ks c username w =
     (case Get (UserKey ks username) w of
        (Inl e, w') \<Rightarrow> (Inl (NewError USER_NOT_EXIST (Some e)), w')
      | (Inr None, w') \<Rightarrow> (Inl (NewError USER_NOT_EXIST None), w')
      | (Inr (Some v), w') \<Rightarrow> (unmarshal c (new_user []) v, w'))"

definition QueryUserByPassword ::
  "key_space \<Rightarrow> User codec \<Rightarrow> string \<Rightarrow> string \<Rightarrow> (world, User) act" where
  "QueryUserByPassword ks c username password =
     bindA (client_QueryUser ks c username) (\<lambda>user.
     bindA (lift (guard (us_Password user \<noteq> None \<and> us_Password user \<noteq> Some password)
       (NewError AUTHENTICATION_FAILED None))) (\<lambda>_.
     ret user))"

definition client_QueryRole :: "key_space \<Rightarrow> Role codec \<Rightarrow> string \<Rightarrow> (world, Role) act" where
  "client_QueryRole ks c rolename w =
     (case Get (RoleKey ks rolename) w of
        (Inl e, w') \<Rightarrow> (Inl (NewError ROLE_NOT_EXIST (Some e)), w')
      | (Inr None, w') \<Rightarrow> (Inl (NewError ROLE_NOT_EXIST None), w')
      | (Inr (Some v), w') \<Rightarrow> (unmarshal c (new_role []) v, w'))"

definition QueryAliasByName :: "key_space \<Rightarrow> Alias codec \<Rightarrow> string \<Rightarrow> (world, Alias) act" where
  "QueryAliasByName ks c alias_name =
     bindA (Get (AliasKey ks alias_name)) (\<lambda>bs.
       case bs of
         None \<Rightarrow> fail (NewError ALIAS_NOT_EXIST None)
       | Some v \<Rightarrow> (case unmarshal c (new_alias alias_name) v of
           Inl _ \<Rightarrow> fail (param_err ''get alias value err'')
         | Inr alias \<Rightarrow> ret alias))"

section \<open>The services as registries\<close>

lemma inj_keys [simp]: "inj (AliasKey ks)" "inj (RoleKey ks)" "inj (UserKey ks)"
  by (simp_all add: inj_on_def)

definition alias_ok :: "(nat \<Rightarrow> bool) \<Rightarrow> Alias codec \<Rightarrow> Alias \<Rightarrow> bool" where
  "alias_ok nt c a \<longleftrightarrow> Alias_Validate nt a = Inr () \<and> roundtrips c (new_alias (al_Name a)) a"

abbreviation alias_view :: "key_space \<Rightarrow> Alias codec \<Rightarrow> kvs \<Rightarrow> string \<rightharpoonup> Alias" where
  "alias_view ks c \<equiv> keyed_view (AliasKey ks) c new_alias"

abbreviation alias_wf :: "key_space \<Rightarrow> Alias codec \<Rightarrow> kvs \<Rightarrow> bool" where
  "alias_wf ks c \<equiv> keyed_wf (AliasKey ks) c new_alias al_Name"

lemma QueryAlias_calm:
  assumes "calm w" and "alias_wf ks c (kv w)"
  shows "QueryAlias ks c n w =
    (case alias_view ks c (kv w) n of None \<Rightarrow> Inl (NewError ALIAS_NOT_EXIST None) | Some a \<Rightarrow> Inr a, tick w)"
proof (cases "alias_view ks c (kv w) n")
  case None
  moreover have "map_of (kv w) (AliasKey ks n) = None" using None by (simp add: keyed_None [OF assms(2)])
  ultimately show ?thesis using assms by (simp add: QueryAlias_def bindA_def calm_simps)
next
  case (Some a)
  with keyed_Some [OF assms(2) Some] assms(1) show ?thesis
    by (auto simp: QueryAlias_def bindA_def calm_simps)
qed

interpretation aliases: registry "CreateAlias ks nt c" "QueryAlias ks c" "DeleteAlias ks c" al_Name "\<lambda>a. a"
  "alias_ok nt c" "\<lambda>_. True" "alias_view ks c" "alias_wf ks c"
  "NewError ALIAS_EXIST None" "NewError ALIAS_NOT_EXIST None" for ks nt c
proof (unfold_locales, goal_cases)
  case (1 w e)
  then obtain s where s: "marshal c e = Inr s" "s \<noteq> []" "unmarshal c (new_alias (al_Name e)) s = Inr e"
    by (auto simp: alias_ok_def roundtrips_iff)
  have "map_of (kv w) (AliasKey ks (al_Name e)) = None"
    using 1(2,4) by (simp add: keyed_None)
  from create_locked_new [OF 1(1) this] obtain w' where
    "CreateAlias ks nt c e w = (Inr (), w')" "calm w'"
    "kv w' = AList.update (AliasKey ks (al_Name e)) s (kv w)"
    using 1(3) s(1) by (fastforce simp: CreateAlias_def alias_ok_def)
  with keyed_update [of "AliasKey ks" c e s new_alias al_Name "kv w"] s 1(2) show ?case by simp
next
  case (2 w e)
  then obtain v where "map_of (kv w) (AliasKey ks (al_Name e)) = Some v" "v \<noteq> []"
    using keyed_Some by fastforce
  with create_locked_old [OF 2(1) this] 2(3) show ?case
    by (simp add: CreateAlias_def alias_ok_def)
next
  case (3 w n)
  then show ?case by (simp add: QueryAlias_calm)
next
  case (4 w n)
  then obtain a where a: "alias_view ks c (kv w) n = Some a" "al_Name a = n"
    using keyed_Some by fastforce
  from 4 a delete_locked [of "tick w" "LockAliasKey ks n" "AliasKey ks n"]
  show ?case by (auto simp: DeleteAlias_def QueryAlias_calm keyed_delete)
next
  case (5 w n)
  then show ?case by (simp add: DeleteAlias_def QueryAlias_calm)
qed

text \<open>Roles: the built-in ones come first and cannot be changed.\<close>

definition builtin :: "string \<Rightarrow> bool" where
  "builtin n \<longleftrightarrow> map_of RoleMap n \<noteq> None"

definition role_ok :: "(nat \<Rightarrow> bool) \<Rightarrow> Role codec \<Rightarrow> Role \<Rightarrow> bool" where
  "role_ok nt c r \<longleftrightarrow> Role_Validate nt r = Inr () \<and> roundtrips c (new_role (rl_Name r)) r \<and>
     \<not> builtin (rl_Name r)"

definition role_view :: "key_space \<Rightarrow> Role codec \<Rightarrow> kvs \<Rightarrow> string \<rightharpoonup> Role" where
  "role_view ks c m n =
     (case map_of RoleMap n of Some r \<Rightarrow> Some r | None \<Rightarrow> keyed_view (RoleKey ks) c new_role m n)"

abbreviation role_wf :: "key_space \<Rightarrow> Role codec \<Rightarrow> kvs \<Rightarrow> bool" where
  "role_wf ks c \<equiv> keyed_wf (RoleKey ks) c new_role rl_Name"

lemma role_view_custom: "\<not> builtin n \<Longrightarrow> role_view ks c m n = keyed_view (RoleKey ks) c new_role m n"
  by (auto simp: role_view_def builtin_def)

lemma QueryRole_calm:
  assumes "calm w" and "role_wf ks c (kv w)"
  shows "\<exists>w'. QueryRole ks c n w =
    (case role_view ks c (kv w) n of None \<Rightarrow> Inl (NewError ROLE_NOT_EXIST None) | Some r \<Rightarrow> Inr r, w') \<and>
    calm w' \<and> kv w' = kv w"
proof (cases "builtin n")
  case True
  with assms show ?thesis by (auto simp: QueryRole_def role_view_def builtin_def)
next
  case False
  then have nb: "map_of RoleMap n = None" by (simp add: builtin_def)
  show ?thesis
  proof (cases "keyed_view (RoleKey ks) c new_role (kv w) n")
    case None
    moreover have "map_of (kv w) (RoleKey ks n) = None" using None by (simp add: keyed_None [OF assms(2)])
    ultimately show ?thesis using assms nb by (simp add: QueryRole_def role_view_def bindA_def calm_simps)
  next
    case (Some a)
    with keyed_Some [OF assms(2) Some] assms(1) nb show ?thesis
      by (auto simp: QueryRole_def role_view_def bindA_def calm_simps)
  qed
qed

interpretation roles: registry "CreateRole ks nt c" "QueryRole ks c" "DeleteRole ks c" rl_Name "\<lambda>r. r"
  "role_ok nt c" "\<lambda>n. \<not> builtin n" "role_view ks c" "role_wf ks c"
  "NewError ROLE_EXIST None" "NewError ROLE_NOT_EXIST None" for ks nt c
proof (unfold_locales, goal_cases)
  case (1 w e)
  then obtain s where s: "marshal c e = Inr s" "s \<noteq> []" "unmarshal c (new_role (rl_Name e)) s = Inr e"
    and nb: "\<not> builtin (rl_Name e)"
    by (auto simp: role_ok_def roundtrips_iff)
  have "map_of (kv w) (RoleKey ks (rl_Name e)) = None"
    using 1(2,4) nb by (simp add: keyed_None role_view_custom)
  from create_locked_new [OF 1(1) this] obtain w' where
    "CreateRole ks nt c e w = (Inr (), w')" "calm w'"
    "kv w' = AList.update (RoleKey ks (rl_Name e)) s (kv w)"
    using 1(3) s(1) by (fastforce simp: CreateRole_def role_ok_def)
  moreover have "role_view ks c (AList.update (RoleKey ks (rl_Name e)) s (kv w)) =
      (role_view ks c (kv w))(rl_Name e \<mapsto> e)"
    using keyed_update(1) [of "RoleKey ks" c e s new_role rl_Name "kv w"] s nb
    by (intro ext) (simp add: role_view_def builtin_def split: option.split)
  ultimately show ?case
    using keyed_update(2) [of "RoleKey ks" c e s new_role rl_Name "kv w"] s 1(2) by simp
next
  case (2 w e)
  then have "\<not> builtin (rl_Name e)" by (simp add: role_ok_def)
  with 2 obtain v where "map_of (kv w) (RoleKey ks (rl_Name e)) = Some v" "v \<noteq> []"
    using keyed_Some by (fastforce simp: role_view_custom)
  with create_locked_old [OF 2(1) this] 2(3) show ?case
    by (simp add: CreateRole_def role_ok_def)
next
  case (3 w n)
  then show ?case by (rule QueryRole_calm)
next
  case (4 w n)
  then obtain r where r: "role_view ks c (kv w) n = Some r" "rl_Name r = n"
    using keyed_Some by (fastforce simp: role_view_custom)
  obtain w1 where w1: "QueryRole ks c n w = (Inr r, w1)" "calm w1" "kv w1 = kv w"
    using QueryRole_calm [OF 4(1,2), of n] r(1) by auto
  from delete_locked [OF w1(2), of "LockRoleKey ks n" "RoleKey ks n"] w1(3) obtain w' where
    "DeleteRole ks c n w = (Inr (), w')" "calm w'" "kv w' = AList.delete (RoleKey ks n) (kv w)"
    using w1(1) r(2) by (auto simp: DeleteRole_def)
  moreover have "role_view ks c (AList.delete (RoleKey ks n) (kv w)) = (role_view ks c (kv w))(n := None)"
    using 4(3) by (intro ext) (simp add: role_view_def builtin_def keyed_delete split: option.split)
  ultimately show ?case using keyed_delete(2) [OF inj_keys(2) 4(2)] by simp
next
  case (5 w n)
  with QueryRole_calm [OF 5(1,2), of n] show ?case by (auto simp: DeleteRole_def)
qed

text \<open>Users with one of the built-in roles.\<close>

definition user_ok :: "(nat \<Rightarrow> bool) \<Rightarrow> User codec \<Rightarrow> User \<Rightarrow> bool" where
  "user_ok nt c u \<longleftrightarrow> User_Validate nt u True = Inr () \<and> roundtrips c (new_user (us_Name u)) u \<and>
     us_Password u \<noteq> None \<and> (case us_RoleName u of None \<Rightarrow> False | Some rn \<Rightarrow> builtin rn)"

abbreviation user_view :: "key_space \<Rightarrow> User codec \<Rightarrow> kvs \<Rightarrow> string \<rightharpoonup> User" where
  "user_view ks c \<equiv> keyed_view (UserKey ks) c new_user"

abbreviation user_wf :: "key_space \<Rightarrow> User codec \<Rightarrow> kvs \<Rightarrow> bool" where
  "user_wf ks c \<equiv> keyed_wf (UserKey ks) c new_user us_Name"

lemma QueryUser_calm:
  assumes "calm w" and "user_wf ks c (kv w)"
  shows "QueryUser ks c rc n False w =
    (case user_view ks c (kv w) n of
       None \<Rightarrow> Inl (NewError USER_NOT_EXIST None) | Some u \<Rightarrow> Inr (user_role (us_Name u)), tick w)"
proof (cases "user_view ks c (kv w) n")
  case None
  moreover have "map_of (kv w) (UserKey ks n) = None" using None by (simp add: keyed_None [OF assms(2)])
  ultimately show ?thesis using assms by (simp add: QueryUser_def bindA_def calm_simps)
next
  case (Some a)
  with keyed_Some [OF assms(2) Some] assms(1) show ?thesis
    by (auto simp: QueryUser_def bindA_def calm_simps)
qed

lemma CreateUser_ok:
  "user_ok nt c u \<Longrightarrow> CreateUser ks nt c rc u True =
     with_lock (LockUserKey ks (us_Name u))
       (STM (create_stm (UserKey ks (us_Name u)) (NewError USER_EXIST None) (marshal c u)))"
  by (rule ext)
    (auto simp: CreateUser_def user_ok_def QueryRole_def builtin_def bindA_def split: option.splits)

interpretation users: registry "\<lambda>u. CreateUser ks nt c rc u True" "\<lambda>n. QueryUser ks c rc n False"
  "DeleteUser ks c rc" us_Name "\<lambda>u. user_role (us_Name u)"
  "user_ok nt c" "\<lambda>n. \<not> EqualFold n ''root''" "user_view ks c" "user_wf ks c"
  "NewError USER_EXIST None" "NewError USER_NOT_EXIST None" for ks nt c rc
proof (unfold_locales, goal_cases)
  case (1 w e)
  then obtain s where s: "marshal c e = Inr s" "s \<noteq> []" "unmarshal c (new_user (us_Name e)) s = Inr e"
    by (auto simp: user_ok_def roundtrips_iff)
  have "map_of (kv w) (UserKey ks (us_Name e)) = None"
    using 1(2,4) by (simp add: keyed_None)
  from create_locked_new [OF 1(1) this] obtain w' where
    "CreateUser ks nt c rc e True w = (Inr (), w')" "calm w'"
    "kv w' = AList.update (UserKey ks (us_Name e)) s (kv w)"
    using s(1) unfolding CreateUser_ok [OF 1(3)] by fastforce
  with keyed_update [of "UserKey ks" c e s new_user us_Name "kv w"] s 1(2) show ?case by simp
next
  case (2 w e)
  then obtain v where "map_of (kv w) (UserKey ks (us_Name e)) = Some v" "v \<noteq> []"
    using keyed_Some by fastforce
  with create_locked_old [OF 2(1) this] show ?case by (simp add: CreateUser_ok [OF 2(3)])
next
  case (3 w n)
  then show ?case by (auto simp: QueryUser_calm split: option.split)
next
  case (4 w n)
  then obtain a where a: "user_view ks c (kv w) n = Some a" "us_Name a = n"
    using keyed_Some by fastforce
  from 4 a delete_locked [of "tick w" "LockUserKey ks n" "UserKey ks n"]
  show ?case by (auto simp: DeleteUser_def QueryUser_calm user_role_def bindA_def keyed_delete)
next
  case (5 w n)
  then show ?case by (simp add: DeleteUser_def QueryUser_calm bindA_def)
qed

section \<open>Privilege changes\<close>

lemma map_of_rev_distinct: "gomap_ok m \<Longrightarrow> map_of (rev m) = map_of m"
  using map_of_inject_set [of "rev m" m] by (simp add: rev_map [symmetric])

lemma fold_grant:
  "map_of (fold (change_privilege ''Grant'') ps old) = map_of old ++ map_of (rev ps)"
  by (induction ps arbitrary: old)
    (auto simp: change_privilege_def update_conv' map_add_def split: option.splits prod.splits)

lemma fold_revoke:
  "map_of (fold (change_privilege ''Revoke'') ps old) = map_of old |` (- fst ` set ps)"
proof (induction ps arbitrary: old)
  case (Cons rp ps)
  obtain r p where rp: "rp = (r, p)" by force
  have "change_privilege ''Revoke'' rp old = AList.delete r old"
    by (simp add: rp change_privilege_def)
  then show ?case
    using Cons [of "AList.delete r old"]
    by (auto simp: rp delete_conv' restrict_map_def fun_eq_iff)
qed (simp add: restrict_map_def)

lemma fold_keep: "fold (change_privilege []) ps old = old"
  by (induction ps arbitrary: old) (simp_all add: change_privilege_def split: prod.splits)

section \<open>Properties\<close>

text \<open>A codec for the examples: the parts of an entity, joined by slashes.\<close>

definition split_at :: "string \<Rightarrow> string \<times> string" where
  "split_at s = (takeWhile (\<lambda>c. c \<noteq> CHR ''/'') s, tl (dropWhile (\<lambda>c. c \<noteq> CHR ''/'') s))"

definition demo_alias_codec :: "Alias codec" where
  "demo_alias_codec =
     \<lparr> marshal = (\<lambda>a. Inr (al_Name a @ ''/'' @ al_DbName a @ ''/'' @ al_SpaceName a)),
       unmarshal = (\<lambda>b s. let (n, r) = split_at s; (d, sp) = split_at r in
         Inr \<lparr> al_Name = n, al_DbName = d, al_SpaceName = sp \<rparr>) \<rparr>"

definition demo_alias :: Alias where
  "demo_alias = \<lparr> al_Name = ''a'', al_DbName = ''db'', al_SpaceName = ''ts'' \<rparr>"

definition demo_role_codec :: "Role codec" where
  "demo_role_codec =
     \<lparr> marshal = (\<lambda>r. Inr (rl_Name r @ ''/'' @ rl_Operator r)),
       unmarshal = (\<lambda>b s. let (n, opr) = split_at s in
         Inr \<lparr> rl_Name = n, rl_Operator = opr, rl_Privileges = [] \<rparr>) \<rparr>"

definition demo_user_codec :: "User codec" where
  "demo_user_codec =
     \<lparr> marshal = (\<lambda>u. Inr (us_Name u @ ''/'' @ the (us_Password u) @ ''/'' @ the (us_RoleName u))),
       unmarshal = (\<lambda>b s. let (n, r) = split_at s; (p, rn) = split_at r in
         Inr \<lparr> us_Name = n, us_Password = Some p, us_OldPassword = None, us_RoleName = Some rn \<rparr>) \<rparr>"

definition demo_user :: User where
  "demo_user = \<lparr> us_Name = ''bob'', us_Password = Some ''pw'', us_OldPassword = None,
     us_RoleName = Some ''defaultSpaceAdmin'' \<rparr>"

definition demo_world :: world where
  "demo_world = \<lparr> kv = [], faults = [] \<rparr>"

lemma EqualFold_length: "length s \<noteq> length t \<Longrightarrow> \<not> EqualFold s t"
  by (auto simp: EqualFold_def ToLower_def dest: arg_cong [where f = length])

lemma demo_world_calm: "calm demo_world" "kv demo_world = []"
  by (simp_all add: demo_world_def calm_def)

lemma demo_alias_ok: "alias_ok (\<lambda>_. False) demo_alias_codec demo_alias"
  by (simp add: alias_ok_def Alias_Validate_def check_name_def demo_alias_def roundtrips_def
      demo_alias_codec_def split_at_def IsNumber_def forbidden_runes_def runes.simps decode_rune_def)

text \<open>
  The alias service is a finite map of names to aliases. On a network without faults, any
  sequence of \<^verbatim>\<open>CreateAlias\<close>, \<^verbatim>\<open>QueryAlias\<close> and \<^verbatim>\<open>DeleteAlias\<close> calls gives the same answers, errors
  included, as the same sequence on the map of what is stored: creating a taken name fails with
  \<^verbatim>\<open>ALIAS_EXIST\<close>, an unknown name with \<^verbatim>\<open>ALIAS_NOT_EXIST\<close>, and nothing else is touched.
\<close>

theorem alias_service_refines_map:
  assumes "calm w" and "alias_wf ks c (kv w)"
    and "list_all (cmd_ok (alias_ok nt c) (\<lambda>_. True)) cs"
  shows "run_cmds (CreateAlias ks nt c) (QueryAlias ks c) (DeleteAlias ks c) cs w =
    spec_cmds al_Name (\<lambda>a. a) (NewError ALIAS_EXIST None) (NewError ALIAS_NOT_EXIST None) cs
      (alias_view ks c (kv w))"
  by (rule aliases.run_refines [OF assms])

theorem alias_service_refines_map_witness:
  "run_cmds (CreateAlias default_key_space (\<lambda>_. False) demo_alias_codec)
     (QueryAlias default_key_space demo_alias_codec) (DeleteAlias default_key_space demo_alias_codec)
     [Cre demo_alias, Qry ''a'', Cre demo_alias, Del ''a'', Qry ''a''] demo_world =
   [Done, Found demo_alias, Failed (NewError ALIAS_EXIST None), Done,
    Failed (NewError ALIAS_NOT_EXIST None)]"
  by (subst alias_service_refines_map)
    (simp_all add: demo_world_calm keyed_wf_empty keyed_view_def demo_alias_ok, simp add: demo_alias_def)

text \<open>
  The role service is a finite map that starts with the built-in roles. The same as for
  aliases holds for \<^verbatim>\<open>CreateRole\<close>, \<^verbatim>\<open>QueryRole\<close> and \<^verbatim>\<open>DeleteRole\<close> on the names that are not built in,
  and queries of built-in names always give the built-in role.
\<close>

theorem role_service_refines_map:
  assumes "calm w" and "role_wf ks c (kv w)"
    and "list_all (cmd_ok (role_ok nt c) (\<lambda>n. \<not> builtin n)) cs"
  shows "run_cmds (CreateRole ks nt c) (QueryRole ks c) (DeleteRole ks c) cs w =
    spec_cmds rl_Name (\<lambda>r. r) (NewError ROLE_EXIST None) (NewError ROLE_NOT_EXIST None) cs
      (role_view ks c (kv w))"
  by (rule roles.run_refines [OF assms])

theorem role_service_refines_map_witness:
  "run_cmds (CreateRole default_key_space (\<lambda>_. False) demo_role_codec)
     (QueryRole default_key_space demo_role_codec) (DeleteRole default_key_space demo_role_codec)
     [Cre (new_role ''dev''), Qry ''dev'', Qry ''root'', Del ''dev'', Qry ''dev''] demo_world =
   [Done, Found (new_role ''dev''), Found (mk_role ''root'' RootPrivilege), Done,
    Failed (NewError ROLE_NOT_EXIST None)]"
proof -
  have "role_ok (\<lambda>_. False) demo_role_codec (new_role ''dev'')"
    by (simp add: role_ok_def Role_Validate_def ValidateName_def check_name_def roundtrips_def
        demo_role_codec_def split_at_def IsNumber_def forbidden_runes_def runes.simps decode_rune_def
        new_role_def EqualFold_length builtin_def RoleMap_def)
  then show ?thesis
    by (subst role_service_refines_map)
      (simp_all add: demo_world_calm keyed_wf_empty keyed_view_def builtin_def role_view_def RoleMap_def,
       simp add: new_role_def)
qed



lemma kv_Get: "kv (snd (Get k w)) = kv w"
  by (cases "Get k w") (auto simp: Get_def elim: etcd_cases)

lemma kv_QueryRole: "kv (snd (QueryRole ks rc rn w)) = kv w"
  using kv_Get [of "RoleKey ks rn" w]
  by (auto simp: QueryRole_def bindA_def split: option.splits prod.splits sum.splits)

text \<open>
  \<^verbatim>\<open>CreateUser\<close> never overwrites an account. Whatever the network does, after the call the store
  is as before, or the name was free and exactly the key of the new user has changed.
\<close>

theorem CreateUser_never_overwrites:
  "kv (snd (CreateUser ks nt c rc u check_root w)) = kv w \<or>
    (map_of (kv w) (UserKey ks (us_Name u)) \<in> {None, Some []} \<and>
     (\<exists>s. marshal c u = Inr s \<and>
        kv (snd (CreateUser ks nt c rc u check_root w)) = AList.update (UserKey ks (us_Name u)) s (kv w)))"
proof (cases "User_Validate nt u check_root")
  case (Inr x)
  show ?thesis
  proof (cases "us_RoleName u")
    case (Some rn)
    obtain r w1 where q: "QueryRole ks rc rn w = (r, w1)" by force
    then have w1: "kv w1 = kv w" using kv_QueryRole [of ks rc rn w] by simp
    show ?thesis
      using create_locked_faults [of "LockUserKey ks (us_Name u)" "UserKey ks (us_Name u)"
          "NewError USER_EXIST None" "marshal c u" w1] w1
      by (cases r; cases "us_Password u") (simp_all add: CreateUser_def Inr Some q bindA_def)
  qed (simp add: CreateUser_def Inr bindA_def)
qed (simp add: CreateUser_def bindA_def)

text \<open>
  Changing a password needs the old one. When \<^verbatim>\<open>UpdateUser\<close> succeeds for a request without a
  role, made by anyone but root or for root, on a user with password \<open>p0\<close>, the request named \<open>p0\<close> as
  the old password and another one as the new, and what is stored is the request with the role the
  user had.
\<close>

theorem UpdateUser_needs_old_password:
  assumes "calm w" and "map_of (kv w) (UserKey ks (us_Name user)) = Some v"
    and "unmarshal c (new_user []) v = Inr old" and "us_Password old = Some p0"
    and "us_RoleName old = Some rn" and "us_RoleName user = None"
    and "auth_user \<noteq> ''root'' \<or> us_Name user = ''root''"
    and "marshal c (user\<lparr>us_RoleName := Some rn\<rparr>) = Inr s"
    and "fst (UpdateUser ks c rc user auth_user w) = Inr ()"
  shows "us_OldPassword user = Some p0 \<and> us_Password user \<notin> {None, Some p0} \<and>
    kv (snd (UpdateUser ks c rc user auth_user w)) = AList.update (UserKey ks (us_Name user)) s (kv w)"
proof -
  let ?lk = "LockUserKey ks (us_Name user)" and ?k = "UserKey ks (us_Name user)"
  obtain w' where w': "with_lock ?lk (swallow (STM (update_stm ?k (Inr s)))) (tick w) = (Inr (), w')"
    "kv w' = AList.update ?k s (kv w)"
    using update_locked [of "tick w" ?lk ?k s] assms(1) by auto
  have get: "Get ?k w = (Inr (Some v), tick w)" using assms(1,2) by (simp add: calm_simps)
  have eq: "UpdateUser ks c rc user auth_user w =
      (case check_password_change user old auth_user of
         Inl e \<Rightarrow> (Inl e, tick w) | Inr _ \<Rightarrow> (Inr (), w'))"
    using assms(3,5,6,8) w'(1)
    by (simp add: UpdateUser_def get updated_user_def bindA_def split: sum.split)
  with assms(9) have "check_password_change user old auth_user = Inr ()"
    by (auto split: sum.splits)
  with assms(4,7) have "us_OldPassword user = Some p0 \<and> us_Password user \<notin> {None, Some p0}"
    by (auto simp: check_password_change_def res_simps split: option.splits if_splits)
  with eq w'(2) \<open>check_password_change user old auth_user = Inr ()\<close> show ?thesis by simp
qed

definition demo_user_world :: world where
  "demo_user_world = \<lparr> kv = [(UserKey default_key_space ''bob'', ''bob/pw/defaultSpaceAdmin'')], faults = [] \<rparr>"

definition demo_change :: User where
  "demo_change = \<lparr> us_Name = ''bob'', us_Password = Some ''new'', us_OldPassword = Some ''pw'',
     us_RoleName = None \<rparr>"

lemma demo_user_world_calm [simp]:
  "calm demo_user_world"
  "kv demo_user_world = [(UserKey default_key_space ''bob'', ''bob/pw/defaultSpaceAdmin'')]"
  by (simp_all add: demo_user_world_def calm_def)

theorem UpdateUser_needs_old_password_witness:
  "us_OldPassword demo_change = Some ''pw'' \<and> us_Password demo_change \<notin> {None, Some ''pw''} \<and>
   kv (snd (UpdateUser default_key_space demo_user_codec demo_role_codec demo_change ''bob'' demo_user_world)) =
     AList.update (UserKey default_key_space (us_Name demo_change)) ''bob/new/defaultSpaceAdmin''
       (kv demo_user_world)"
  by (rule UpdateUser_needs_old_password [where v = "''bob/pw/defaultSpaceAdmin''" and old = demo_user
        and rn = "''defaultSpaceAdmin''"])
    (simp_all add: demo_change_def demo_user_def demo_user_codec_def split_at_def UpdateUser_def
      bindA_def calm_simps updated_user_def check_password_change_def with_lock_def swallow_def
      update_stm_def)

text \<open>
  Granting adds the privileges of the request to those of the role, revoking removes the
  resources of the request, and nothing else about the role changes; the new role is stored and
  returned.
\<close>

theorem ChangeRolePrivilege_effect:
  assumes "calm w" and "Role_Validate nt role = Inr ()" and "gomap_ok (rl_Privileges role)"
    and "map_of (kv w) (RoleKey ks (rl_Name role)) = Some v"
    and "unmarshal c (new_role []) v = Inr old" and "\<And>r. marshal c r = Inr (enc r)"
  shows "\<exists>new w'. ChangeRolePrivilege ks nt c role w = (Inr new, w') \<and>
    kv w' = AList.update (RoleKey ks (rl_Name old)) (enc new) (kv w) \<and>
    new\<lparr>rl_Privileges := rl_Privileges old\<rparr> = old \<and>
    map_of (rl_Privileges new) =
      (if rl_Operator role = ''Grant'' then map_of (rl_Privileges old) ++ map_of (rl_Privileges role)
       else if rl_Operator role = ''Revoke''
         then map_of (rl_Privileges old) |` (- fst ` set (rl_Privileges role))
       else map_of (rl_Privileges old))"
proof -
  let ?new = "old\<lparr>rl_Privileges :=
    fold (change_privilege (rl_Operator role)) (rl_Privileges role) (rl_Privileges old)\<rparr>"
  let ?k = "RoleKey ks (rl_Name old)"
  obtain w' where w': "with_lock (LockRoleKey ks (rl_Name role))
      (swallow (STM (update_stm ?k (Inr (enc ?new))))) (tick w) = (Inr (), w')"
    "kv w' = AList.update ?k (enc ?new) (kv w)"
    using update_locked [of "tick w" "LockRoleKey ks (rl_Name role)" ?k "enc ?new"] assms(1) by auto
  have "ChangeRolePrivilege ks nt c role w = (Inr ?new, w')"
    using assms w'(1) by (simp add: ChangeRolePrivilege_def calm_simps bindA_def Let_def)
  moreover have "rl_Operator role \<in> {[], ''Grant'', ''Revoke''}"
    using assms(2) by (auto simp: Role_Validate_Inr_iff)
  then have "map_of (rl_Privileges ?new) =
      (if rl_Operator role = ''Grant'' then map_of (rl_Privileges old) ++ map_of (rl_Privileges role)
       else if rl_Operator role = ''Revoke''
         then map_of (rl_Privileges old) |` (- fst ` set (rl_Privileges role))
       else map_of (rl_Privileges old))"
    using assms(3) by (auto simp: fold_grant fold_revoke fold_keep map_of_rev_distinct)
  ultimately show ?thesis using w'(2) by (intro exI [of _ ?new] exI [of _ w']) simp
qed

definition demo_grant :: Role where
  "demo_grant = \<lparr> rl_Name = ''dev'', rl_Operator = ''Grant'',
     rl_Privileges = [(''ResourceSpace'', ''ReadOnly'')] \<rparr>"

definition demo_role_world :: world where
  "demo_role_world = \<lparr> kv = [(RoleKey default_key_space ''dev'', ''dev/'')], faults = [] \<rparr>"

lemma demo_role_world_calm [simp]:
  "calm demo_role_world" "kv demo_role_world = [(RoleKey default_key_space ''dev'', ''dev/'')]"
  by (simp_all add: demo_role_world_def calm_def)

theorem ChangeRolePrivilege_effect_witness:
  "\<exists>new w'. ChangeRolePrivilege default_key_space (\<lambda>_. False) demo_role_codec demo_grant demo_role_world =
      (Inr new, w') \<and>
    kv w' = AList.update (RoleKey default_key_space (rl_Name (new_role ''dev'')))
      (rl_Name new @ ''/'' @ rl_Operator new) (kv demo_role_world) \<and>
    new\<lparr>rl_Privileges := rl_Privileges (new_role ''dev'')\<rparr> = new_role ''dev'' \<and>
    map_of (rl_Privileges new) =
      (if rl_Operator demo_grant = ''Grant''
         then map_of (rl_Privileges (new_role ''dev'')) ++ map_of (rl_Privileges demo_grant)
       else if rl_Operator demo_grant = ''Revoke''
         then map_of (rl_Privileges (new_role ''dev'')) |` (- fst ` set (rl_Privileges demo_grant))
       else map_of (rl_Privileges (new_role ''dev'')))"
  by (rule ChangeRolePrivilege_effect [where v = "''dev/''"])
    (simp_all add: demo_grant_def new_role_def demo_role_codec_def split_at_def Role_Validate_def
      ValidateName_def check_name_def IsNumber_def forbidden_runes_def runes.simps decode_rune_def
      EqualFold_length ResourceMap_def PriviMap_def)

text \<open>
  \<^verbatim>\<open>UpdateAlias\<close> loses errors. When the alias exists and the transaction that writes the new
  value fails, the service still reports success, and the old value stays.
\<close>

theorem UpdateAlias_reports_lost_write:
  assumes "map_of (kv w) (AliasKey ks (al_Name a)) = Some v"
    and "faults w = NoFault # NoFault # Lost e # fs"
  shows "fst (UpdateAlias ks c a w) = Inr () \<and> kv (snd (UpdateAlias ks c a w)) = kv w"
  using assms
  by (simp add: UpdateAlias_def Get_def etcd_def bindA_def with_lock_def lock_call_def noop_def
      swallow_def STM_def Let_def split: list.split fault.split)

theorem UpdateAlias_reports_lost_write_witness:
  "let w = \<lparr> kv = [(AliasKey default_key_space ''a'', ''a/old/ts'')],
             faults = [NoFault, NoFault, Lost (GoErr ''etcdserver: request timed out'')] \<rparr> in
   fst (UpdateAlias default_key_space demo_alias_codec demo_alias w) = Inr () \<and>
   kv (snd (UpdateAlias default_key_space demo_alias_codec demo_alias w)) = kv w"
  unfolding Let_def
  by (rule UpdateAlias_reports_lost_write [where v = "''a/old/ts''" and fs = "[]"
        and e = "GoErr ''etcdserver: request timed out''"]) (simp_all add: demo_alias_def)

text \<open>
  A user with a password is authenticated exactly by that password; a stored user without one
  is let in with any password.
\<close>

theorem QueryUserByPassword_accepts:
  assumes "calm w" and "map_of (kv w) (UserKey ks n) = Some v" and "unmarshal c (new_user []) v = Inr u"
  shows "fst (QueryUserByPassword ks c n pw w) =
    (if us_Password u \<in> {None, Some pw} then Inr u else Inl (NewError AUTHENTICATION_FAILED None))"
  using assms
  by (auto simp: QueryUserByPassword_def client_QueryUser_def bindA_def calm_simps guard_def)

theorem QueryUserByPassword_accepts_witness:
  "fst (QueryUserByPassword default_key_space demo_user_codec ''bob'' ''pw'' demo_user_world) =
    (if us_Password demo_user \<in> {None, Some ''pw''} then Inr demo_user
     else Inl (NewError AUTHENTICATION_FAILED None))"
  by (rule QueryUserByPassword_accepts [where v = "''bob/pw/defaultSpaceAdmin''"])
    (simp_all add: demo_user_def demo_user_codec_def split_at_def)

text \<open>Deleting a built-in role reports success and changes nothing.\<close>

lemma DeleteRole_builtin:
  assumes "calm w" and "builtin n" and "map_of (kv w) (RoleKey ks n) = None"
  shows "fst (DeleteRole ks c n w) = Inr () \<and> map_of (kv (snd (DeleteRole ks c n w))) = map_of (kv w)"
proof -
  from assms(2) obtain r where r: "map_of RoleMap n = Some r" by (auto simp: builtin_def)
  then have "rl_Name r = n" by (rule RoleMap_names)
  with delete_locked [OF assms(1), of "LockRoleKey ks n" "RoleKey ks n"] r assms(3) show ?thesis
    by (auto simp: DeleteRole_def QueryRole_def delete_conv')
qed

end
