(* ===== verification/MasterClient.thy ===== *)
theory MasterClient
  imports Meta PartitionRules Registry
begin

text \<open>
  The queries of \<^verbatim>\<open>internal/client/master.go\<close> on the metadata: databases, spaces, partitions, servers,
  failed servers and routers. A query by key reports a missing object as an error; a scan decodes
  what it can and skips the rest, as the loops with \<^verbatim>\<open>continue\<close> do.
\<close>

section \<open>Zero values\<close>

definition new_db :: DB where
  "new_db = \<lparr> db_Id = 0, db_Name = [], db_Ps = [] \<rparr>"

definition zero_partition :: Partition where
  "zero_partition = new_partition 0 [] 0 0 0"

definition new_server :: Server where
  "new_server =
     \<lparr> sv_ID = 0, sv_ResourceName = [], sv_RpcPort = 0, sv_RaftHeartbeatPort = 0,
       sv_RaftReplicatePort = 0, sv_Ip = [], sv_HostIp = [], sv_HostRack = [], sv_HostZone = [],
       sv_PartitionIds = [], sv_Spaces = [], sv_Size = 0, sv_Private = False, sv_Version = None \<rparr>"

record FailServer =
  fs_ID :: "64 word"
  fs_TimeStamp :: int
  fs_Node :: "Server option"

definition new_fail_server :: FailServer where
  "new_fail_server = \<lparr> fs_ID = 0, fs_TimeStamp = 0, fs_Node = None \<rparr>"

section \<open>Queries by key\<close>

definition QueryDBId2Name :: "key_space \<Rightarrow> int \<Rightarrow> (world, string) act" where
  "QueryDBId2Name ks dbid =
     bindA (Get (DBKeyId ks dbid)) (\<lambda>bytes.
       case bytes of None \<Rightarrow> fail (NewError DB_NOT_EXIST None) | Some b \<Rightarrow> ret b)"

definition QueryDBName2ID :: "key_space \<Rightarrow> cast_lib \<Rightarrow> string \<Rightarrow> (world, int) act" where
  "QueryDBName2ID ks cl name =
     bindA (Get (DBKeyName ks name)) (\<lambda>bytes.
       case bytes of None \<Rightarrow> fail (NewError DB_NOT_EXIST None) | Some b \<Rightarrow> lift (ToInt64E cl b))"

definition QueryPartition :: "key_space \<Rightarrow> Partition codec \<Rightarrow> 32 word \<Rightarrow> (world, Partition) act" where
  "QueryPartition ks pc partitionID =
     bindA (Get (PartitionKey ks partitionID)) (\<lambda>bytes.
       case bytes of
         None \<Rightarrow> fail (NewError PARTITION_NOT_EXIST (Some (GoErr ''partition id'')))
       | Some b \<Rightarrow> lift (unmarshal pc zero_partition b))"

definition QueryServer :: "key_space \<Rightarrow> Server codec \<Rightarrow> 64 word \<Rightarrow> (world, Server) act" where
  "QueryServer ks vc nodeId =
     bindA (Get (ServerKey ks nodeId)) (\<lambda>bytes.
       case bytes of
         None \<Rightarrow> fail (NewError PARTITION_SERVER_NOT_EXIST None)
       | Some b \<Rightarrow> lift (unmarshal vc new_server b))"

text \<open>\<^verbatim>\<open>QuerySpaceByID\<close> looks at the value before the error.\<close>

definition QuerySpaceByID ::
  "key_space \<Rightarrow> Space codec \<Rightarrow> int \<Rightarrow> int \<Rightarrow> (world, Space) act" where
  "QuerySpaceByID ks sc dbID spaceID w =
     (case Get (SpaceKey ks dbID spaceID) w of
        (Inl e, w') \<Rightarrow> (Inl (NewError SPACE_NOT_EXIST (Some e)), w')
      | (Inr None, w') \<Rightarrow> (Inl (NewError SPACE_NOT_EXIST None), w')
      | (Inr (Some b), w') \<Rightarrow> (unmarshal sc empty_space b, w'))"

section \<open>Scans\<close>

definition scan_decode :: "'a codec \<Rightarrow> 'a \<Rightarrow> (string \<times> string) list \<Rightarrow> 'a list" where
  "scan_decode c zero rows =
     concat (map (\<lambda>(k, bs). case unmarshal c zero bs of Inl _ \<Rightarrow> [] | Inr x \<Rightarrow> [x]) rows)"

definition QueryServers :: "key_space \<Rightarrow> Server codec \<Rightarrow> (world, Server list) act" where
  "QueryServers ks vc =
     bindA (PrefixScan (PrefixServer ks)) (\<lambda>rows. ret (scan_decode vc new_server rows))"

definition QuerySpacesByKey :: "Space codec \<Rightarrow> string \<Rightarrow> (world, Space list) act" where
  "QuerySpacesByKey sc prefix =
     bindA (PrefixScan prefix) (\<lambda>rows. ret (scan_decode sc empty_space rows))"

definition QuerySpaces :: "key_space \<Rightarrow> Space codec \<Rightarrow> int \<Rightarrow> (world, Space list) act" where
  "QuerySpaces ks sc dbID = QuerySpacesByKey sc (PrefixSpace ks @ FormatInt dbID @ ''/'')"

definition QuerySpaceByName ::
  "key_space \<Rightarrow> Space codec \<Rightarrow> int \<Rightarrow> string \<Rightarrow> (world, Space) act" where
  "QuerySpaceByName ks sc dbID spaceName =
     bindA (QuerySpaces ks sc dbID) (\<lambda>spaces.
       case find (\<lambda>s. sp_Name s = spaceName) spaces of
         Some s \<Rightarrow> ret s
       | None \<Rightarrow> fail (NewError SPACE_NOT_EXIST None))"

definition client_QueryDBs :: "key_space \<Rightarrow> DB codec \<Rightarrow> (world, DB list) act" where
  "client_QueryDBs ks dc =
     bindA (PrefixScan (PrefixDataBaseBody ks)) (\<lambda>rows. ret (scan_decode dc new_db rows))"

definition QueryPartitions :: "key_space \<Rightarrow> Partition codec \<Rightarrow> (world, Partition list) act" where
  "QueryPartitions ks pc =
     bindA (PrefixScan (PrefixPartition ks)) (\<lambda>rows. ret (scan_decode pc zero_partition rows))"

text \<open>\<^verbatim>\<open>strings.Split(s, ":")[0]\<close>: the part before the first colon.\<close>

definition QueryRouter :: "key_space \<Rightarrow> string \<Rightarrow> (world, string list) act" where
  "QueryRouter ks key =
     bindA (PrefixScan (PrefixRouter ks @ key @ ''/'')) (\<lambda>rows.
       ret (map (\<lambda>(k, bs). takeWhile (\<lambda>c. c \<noteq> CHR '':'') bs) rows))"

section \<open>Failed servers\<close>

definition DeleteFailServerByNodeID :: "key_space \<Rightarrow> 64 word \<Rightarrow> (world, unit) act" where
  "DeleteFailServerByNodeID ks nodeID = Delete (FailServerKey ks nodeID)"

text \<open>The result is a pointer: nil for every error. Decoding nothing is an error.\<close>

definition QueryFailServerByNodeID ::
  "key_space \<Rightarrow> FailServer codec \<Rightarrow> 64 word \<Rightarrow> (world, FailServer option) act" where
  "QueryFailServerByNodeID ks fc nodeID w =
     (case Get (FailServerKey ks nodeID) w of
        (Inl _, w') \<Rightarrow> (Inr None, w')
      | (Inr bytes, w') \<Rightarrow>
          (case unmarshal fc new_fail_server (case bytes of None \<Rightarrow> [] | Some b \<Rightarrow> b) of
             Inl _ \<Rightarrow> (Inr None, w')
           | Inr f \<Rightarrow> (Inr (Some f), w')))"

text \<open>
  \<^verbatim>\<open>QueryFailServerByKey\<close> throws the error of the scan as a panic and catches it again, but
  \<^verbatim>\<open>errutil.CatchError\<close> assigns to its own copy of the pointer: the named results keep their zero
  values, no servers and no error.
\<close>

definition QueryFailServerByKey ::
  "FailServer codec \<Rightarrow> string \<Rightarrow> (world, FailServer list) act" where
  "QueryFailServerByKey fc prefix w =
     (case PrefixScan prefix w of
        (Inl _, w') \<Rightarrow> (Inr [], w')
      | (Inr rows, w') \<Rightarrow> (Inr (scan_decode fc new_fail_server rows), w'))"

definition QueryAllFailServer :: "key_space \<Rightarrow> FailServer codec \<Rightarrow> (world, FailServer list) act" where
  "QueryAllFailServer ks fc = QueryFailServerByKey fc (PrefixFailServer ks)"

definition PutFailServerByID ::
  "key_space \<Rightarrow> FailServer codec \<Rightarrow> int \<Rightarrow> 64 word \<Rightarrow> Server \<Rightarrow> (world, unit) act" where
  "PutFailServerByID ks fc now failId server =
     bindA (lift (marshal fc \<lparr> fs_ID = failId, fs_TimeStamp = now, fs_Node = Some server \<rparr>)) (\<lambda>val.
     Put (FailServerKey ks (sv_ID server)) val)"

text \<open>
  \<^verbatim>\<open>QueryServerByIPAddr\<close>: first among the failed servers, then among the live ones. A failed server
  without a node makes the loop panic, which ends the call with nil.
\<close>

fun find_failed :: "string \<Rightarrow> FailServer list \<Rightarrow> (FailServer option) res" where
  "find_failed ip [] = Inr None"
| "find_failed ip (f # fs) =
     (case fs_Node f of
        None \<Rightarrow> Inl (GoPanic ''nil pointer dereference'')
      | Some node \<Rightarrow> if sv_Ip node = ip then Inr (Some f) else find_failed ip fs)"

definition QueryServerByIPAddr ::
  "key_space \<Rightarrow> FailServer codec \<Rightarrow> Server codec \<Rightarrow> int \<Rightarrow> string \<Rightarrow> (world, FailServer option) act" where
  "QueryServerByIPAddr ks fc vc now ip =
     bindA (QueryAllFailServer ks fc) (\<lambda>failed.
       case find_failed ip failed of
         Inl _ \<Rightarrow> ret None
       | Inr (Some f) \<Rightarrow> ret (Some f)
       | Inr None \<Rightarrow> (\<lambda>w. case QueryServers ks vc w of
           (Inl _, w') \<Rightarrow> (Inr None, w')
         | (Inr servers, w') \<Rightarrow>
             (Inr (map_option (\<lambda>s. \<lparr> fs_ID = sv_ID s, fs_TimeStamp = now, fs_Node = Some s \<rparr>)
                (find (\<lambda>s. sv_Ip s = ip) servers)), w')))"

text \<open>\<^verbatim>\<open>PutServerWithLeaseID\<close> and \<^verbatim>\<open>KeepAlive\<close>: the heartbeat of a partition server.\<close>

definition DefaultPsTimeOut :: int where "DefaultPsTimeOut = 5"

definition PutServerWithLeaseID ::
  "key_space \<Rightarrow> Server codec \<Rightarrow> int \<Rightarrow> Server \<Rightarrow> (world, unit) act" where
  "PutServerWithLeaseID ks vc timeout server =
     bindA (lift (marshal vc server)) (\<lambda>bytes.
       let t = (if timeout \<le> 0 then DefaultPsTimeOut else timeout) in
       PutWithLeaseId (ServerKey ks (sv_ID server)) bytes (1000000000 * t))"

definition client_KeepAlive ::
  "key_space \<Rightarrow> Server codec \<Rightarrow> int \<Rightarrow> Server \<Rightarrow> (world, unit) act" where
  "client_KeepAlive ks vc timeout server =
     bindA (lift (marshal vc server)) (\<lambda>bytes.
       let t = (if timeout \<le> 0 then DefaultPsTimeOut else timeout) in
       KeepAlive (ServerKey ks (sv_ID server)) bytes (1000000000 * t))"

section \<open>Scans are exact\<close>

lemma set_scan_decode:
  "set (scan_decode c zero rows) = {x. \<exists>k v. (k, v) \<in> set rows \<and> unmarshal c zero v = Inr x}"
  by (force simp: scan_decode_def split: sum.splits)

text \<open>Every key under the prefix of the spaces is the key of a space.\<close>

definition space_keys_ok :: "key_space \<Rightarrow> kvs \<Rightarrow> bool" where
  "space_keys_ok ks m \<longleftrightarrow>
     (\<forall>k \<in> fst ` set m. HasPrefix k (PrefixSpace ks) \<longrightarrow> (\<exists>d s. k = SpaceKey ks d s))"

lemma QuerySpaces_calm:
  "calm w \<Longrightarrow> QuerySpaces ks sc d w =
     (Inr (scan_decode sc empty_space
        (sort_key fst (filter (\<lambda>(k, v). HasPrefix k (SpacesPrefix ks d)) (kv w)))), tick w)"
  by (simp add: QuerySpaces_def QuerySpacesByKey_def SpacesPrefix_def bindA_def calm_simps)

lemma HasPrefix_SpacesPrefix: "HasPrefix k (SpacesPrefix ks d) \<Longrightarrow> HasPrefix k (PrefixSpace ks)"
  by (auto simp: SpacesPrefix_def HasPrefix_iff)

lemma QuerySpaces_set:
  assumes "calm w" and "gomap_ok (kv w)" and "space_keys_ok ks (kv w)"
  shows "\<exists>spaces. fst (QuerySpaces ks sc d w) = Inr spaces \<and>
    set spaces = {sp. \<exists>sid v. map_of (kv w) (SpaceKey ks d sid) = Some v \<and> unmarshal sc empty_space v = Inr sp}"
proof -
  have "(k, v) \<in> set (kv w) \<and> HasPrefix k (SpacesPrefix ks d) \<longleftrightarrow>
      (\<exists>sid. k = SpaceKey ks d sid \<and> map_of (kv w) k = Some v)" for k v
  proof
    assume a: "(k, v) \<in> set (kv w) \<and> HasPrefix k (SpacesPrefix ks d)"
    then obtain d' sid where "k = SpaceKey ks d' sid"
      using assms(3) HasPrefix_SpacesPrefix by (force simp: space_keys_ok_def)
    with a assms(2) show "\<exists>sid. k = SpaceKey ks d sid \<and> map_of (kv w) k = Some v"
      by (auto simp: SpaceKey_in_SpacesPrefix)
  next
    assume "\<exists>sid. k = SpaceKey ks d sid \<and> map_of (kv w) k = Some v"
    then show "(k, v) \<in> set (kv w) \<and> HasPrefix k (SpacesPrefix ks d)"
      by (auto simp: SpaceKey_in_SpacesPrefix dest: map_of_SomeD)
  qed
  then show ?thesis
    using assms(1) by (auto simp: QuerySpaces_calm set_scan_decode)
qed

section \<open>Properties\<close>

text \<open>
  \<^verbatim>\<open>QuerySpaces\<close> returns the spaces of one database, all of them and no others: those stored
  under a key of that database whose value can be decoded.
\<close>

theorem QuerySpaces_exact:
  assumes "calm w" and "gomap_ok (kv w)" and "space_keys_ok ks (kv w)"
  shows "\<exists>spaces. fst (QuerySpaces ks sc d w) = Inr spaces \<and>
    set spaces = {sp. \<exists>sid v. map_of (kv w) (SpaceKey ks d sid) = Some v \<and> unmarshal sc empty_space v = Inr sp}"
  by (rule QuerySpaces_set [OF assms])

definition demo_space_codec :: "Space codec" where
  "demo_space_codec =
     \<lparr> marshal = (\<lambda>s. Inr (''n'' @ sp_Name s)),
       unmarshal = (\<lambda>b s. if s = [] then Inl (GoErr ''EOF'') else Inr (b\<lparr>sp_Name := tl s\<rparr>)) \<rparr>"

theorem QuerySpaces_exact_witness:
  "\<exists>spaces. fst (QuerySpaces default_key_space demo_space_codec 1
      \<lparr> kv = [(SpaceKey default_key_space 1 5, ''nts''), (SpaceKey default_key_space 12 6, ''nts2'')], faults = [] \<rparr>) = Inr spaces \<and>
    set spaces = {sp. \<exists>sid v. map_of (kv \<lparr> kv = [(SpaceKey default_key_space 1 5, ''nts''), (SpaceKey default_key_space 12 6, ''nts2'')], faults = [] \<rparr>)
      (SpaceKey default_key_space 1 sid) = Some v \<and> unmarshal demo_space_codec empty_space v = Inr sp}"
  by (rule QuerySpaces_exact) (auto simp: calm_def space_keys_ok_def)

text \<open>
  A failed scan looks like an empty cluster. When the scan for failed servers gets no answer,
  \<^verbatim>\<open>QueryAllFailServer\<close> reports no failed server and no error.
\<close>

theorem QueryAllFailServer_hides_errors:
  assumes "faults w = Lost e # fs"
  shows "fst (QueryAllFailServer ks fc w) = Inr []"
  using assms by (simp add: QueryAllFailServer_def QueryFailServerByKey_def PrefixScan_def etcd_def)

theorem QueryAllFailServer_hides_errors_witness:
  "fst (QueryAllFailServer default_key_space
     \<lparr> marshal = (\<lambda>f. Inr ''{}''), unmarshal = (\<lambda>b s. Inr b) \<rparr>
     \<lparr> kv = [(FailServerKey default_key_space 3, ''{}'')], faults = [Lost (GoErr ''timeout'')] \<rparr>) = Inr []"
  by (rule QueryAllFailServer_hides_errors [where fs = "[]" and e = "GoErr ''timeout''"]) simp

end
