(* ===== verification/MasterRequests.thy ===== *)
theory MasterRequests
  imports MasterClient
begin

text \<open>
  Requests of partition servers and routers to the masters, the second half of
  \<^verbatim>\<open>internal/client/master.go\<close>: the choice of the master (\<open>getKey\<close>), the loops that try one master
  after the other, and what is built on them: registration, the removal of a node and the recovery
  of a failed server.

  An HTTP exchange is the parameter \<open>call\<close>: the answer of the master at an address to a request, in
  a state of the network of type \<open>'n\<close>. \<^verbatim>\<open>rand.Intn(total)\<close> is a drawn number modulo \<open>total\<close>. The loops
  of \<^verbatim>\<open>HTTPRequest\<close>, \<^verbatim>\<open>Register\<close> and \<^verbatim>\<open>RegisterPartition\<close> end because every try is counted; the loop of
  \<^verbatim>\<open>RegisterRouter\<close> starts counting afresh until its time is over and may run forever, so it is a
  partial function.
\<close>

section \<open>The choice of the master\<close>

record MasterServer =
  ms_total :: nat
  ms_keyNumber :: nat
  ms_tryTimes :: nat

definition MasterServer_init :: "nat \<Rightarrow> nat \<Rightarrow> MasterServer res" where
  "MasterServer_init draw n =
     (if n = 0 then Inl (GoPanic ''invalid argument to Intn'')
      else Inr \<lparr> ms_total = n, ms_keyNumber = draw mod n, ms_tryTimes = 0 \<rparr>)"

definition MasterServer_reset :: "MasterServer \<Rightarrow> MasterServer" where
  "MasterServer_reset m = m\<lparr>ms_tryTimes := 0\<rparr>"

definition no_master :: go_error where
  "no_master = NewError INTERNAL_ERROR (Some (GoErr ''request to master server tryTimes''))"

definition getKey :: "MasterServer \<Rightarrow> (nat \<times> MasterServer) res" where
  "getKey m =
     (if ms_tryTimes m \<ge> ms_total m then Inl no_master
      else let current = ms_keyNumber m;
               key = (if ms_keyNumber m + 1 \<ge> ms_total m then 0 else ms_keyNumber m + 1)
           in Inr (current mod ms_total m,
                m\<lparr>ms_keyNumber := key, ms_tryTimes := ms_tryTimes m + 1\<rparr>))"

section \<open>Trying the masters\<close>

record request =
  rq_Method :: string
  rq_Path :: string
  rq_Query :: string
  rq_Body :: string

type_synonym 'n http = "string \<Rightarrow> request \<Rightarrow> ('n, string) act"

text \<open>
  The loop of \<^verbatim>\<open>HTTPRequest\<close>. The named result \<open>e\<close> takes the error of every failed try, and nothing
  clears it when a later try succeeds.
\<close>

function http_loop ::
  "'n http \<Rightarrow> string list \<Rightarrow> request \<Rightarrow> MasterServer \<Rightarrow> go_error option \<Rightarrow> ('n, string) act" where
  "http_loop call masters rq m e w =
     (case getKey m of
        Inl err \<Rightarrow> (Inl err, w)
      | Inr (k, m') \<Rightarrow>
          (case go_index masters (int k) of
             Inl p \<Rightarrow> (Inl (GoErr ''panic is''), w)
           | Inr addr \<Rightarrow>
               (case call addr rq w of
                  (Inr response, w') \<Rightarrow> (case e of None \<Rightarrow> Inr response | Some x \<Rightarrow> Inl x, w')
                | (Inl err, w') \<Rightarrow> http_loop call masters rq m' (Some err) w')))"
  by pat_completeness auto
termination
  by (relation "measure (\<lambda>(call, masters, rq, m, e, w). ms_total m - ms_tryTimes m)")
    (auto simp: getKey_def Let_def split: if_splits)

declare http_loop.simps [simp del]

definition HTTPRequest :: "'n http \<Rightarrow> string list \<Rightarrow> nat \<Rightarrow> request \<Rightarrow> ('n, string) act" where
  "HTTPRequest call masters draw rq w =
     (case MasterServer_init draw (length masters) of
        Inl p \<Rightarrow> (Inl (GoErr ''panic is''), w)
      | Inr m \<Rightarrow> http_loop call masters rq m None w)"

text \<open>
  The loop of \<^verbatim>\<open>ProxyHTTPRequest\<close>: the exchange also gives a status code, and a try with any code but
  -1 ends the loop, with its own error.
\<close>

function proxy_loop ::
  "(string \<Rightarrow> request \<Rightarrow> 'n \<Rightarrow> (string res \<times> int) \<times> 'n) \<Rightarrow> string list \<Rightarrow> request \<Rightarrow> MasterServer \<Rightarrow>
     ('n, string) act" where
  "proxy_loop call masters rq m w =
     (case getKey m of
        Inl err \<Rightarrow> (Inl err, w)
      | Inr (k, m') \<Rightarrow>
          (case go_index masters (int k) of
             Inl p \<Rightarrow> (Inl (GoErr ''panic''), w)
           | Inr addr \<Rightarrow>
               (case call addr rq w of ((r, statusCode), w') \<Rightarrow>
                  if statusCode \<noteq> -1 then (r, w') else proxy_loop call masters rq m' w')))"
  by pat_completeness auto
termination
  by (relation "measure (\<lambda>(call, masters, rq, m, w). ms_total m - ms_tryTimes m)")
    (auto simp: getKey_def Let_def split: if_splits)

declare proxy_loop.simps [simp del]

definition ProxyHTTPRequest ::
  "(string \<Rightarrow> request \<Rightarrow> 'n \<Rightarrow> (string res \<times> int) \<times> 'n) \<Rightarrow> string list \<Rightarrow> nat \<Rightarrow> request \<Rightarrow>
     ('n, string) act" where
  "ProxyHTTPRequest call masters draw rq w =
     (case MasterServer_init draw (length masters) of
        Inl p \<Rightarrow> (Inl (GoErr ''panic''), w)
      | Inr m \<Rightarrow> proxy_loop call masters rq m w)"

text \<open>The loop of \<^verbatim>\<open>Register\<close> and \<^verbatim>\<open>RegisterPartition\<close>, whose error is local to a try.\<close>

function register_loop ::
  "'n http \<Rightarrow> string list \<Rightarrow> request \<Rightarrow> MasterServer \<Rightarrow> ('n, string) act" where
  "register_loop call masters rq m w =
     (case getKey m of
        Inl err \<Rightarrow> (Inl err, w)
      | Inr (k, m') \<Rightarrow>
          (case go_index masters (int k) of
             Inl p \<Rightarrow> (Inl p, w)
           | Inr addr \<Rightarrow>
               (case call addr rq w of
                  (Inr response, w') \<Rightarrow> (Inr response, w')
                | (Inl err, w') \<Rightarrow> register_loop call masters rq m' w')))"
  by pat_completeness auto
termination
  by (relation "measure (\<lambda>(call, masters, rq, m, w). ms_total m - ms_tryTimes m)")
    (auto simp: getKey_def Let_def split: if_splits)

declare register_loop.simps [simp del]

section \<open>Registration\<close>

record reply =
  re_Code :: int
  re_Msg :: string
  re_Data :: string

text \<open>\<^verbatim>\<open>ErrorEnum_SUCCESS\<close> is 0. The replies are decoded by the parameter \<open>parse\<close>.\<close>

definition check_code :: "string \<Rightarrow> reply \<Rightarrow> unit res" where
  "check_code msg js = guard (re_Code js \<noteq> 0) (NewError INTERNAL_ERROR (Some (GoErr msg)))"

definition parseRegisterData :: "(string \<Rightarrow> reply res) \<Rightarrow> string \<Rightarrow> string res" where
  "parseRegisterData parse response =
     bind_res (parse response) (\<lambda>js.
     bind_res (check_code ''client master api register error'' js) (\<lambda>_. Inr (re_Data js)))"

definition Register ::
  "'n http \<Rightarrow> (string \<Rightarrow> reply res) \<Rightarrow> Server codec \<Rightarrow> string list \<Rightarrow> nat \<Rightarrow> string \<Rightarrow>
     ('n, Server) act" where
  "Register call parse vc masters draw form =
     bindA (lift (MasterServer_init draw (length masters))) (\<lambda>m.
     bindA (register_loop call masters
        \<lparr> rq_Method = ''POST'', rq_Path = ''/register'', rq_Query = form, rq_Body = [] \<rparr> m) (\<lambda>response.
     bindA (lift (parseRegisterData parse response)) (\<lambda>data.
     lift (unmarshal vc new_server data))))"

definition client_RegisterPartition ::
  "'n http \<Rightarrow> (string \<Rightarrow> reply res) \<Rightarrow> Partition codec \<Rightarrow> string list \<Rightarrow> nat \<Rightarrow> Partition \<Rightarrow>
     ('n, unit) act" where
  "client_RegisterPartition call parse pc masters draw part =
     bindA (lift (marshal pc part)) (\<lambda>reqBody.
     bindA (lift (MasterServer_init draw (length masters))) (\<lambda>m.
     bindA (register_loop call masters
        \<lparr> rq_Method = ''POST'', rq_Path = ''/register_partition'', rq_Query = [], rq_Body = reqBody \<rparr> m)
       (\<lambda>response.
     bindA (lift (parse response)) (\<lambda>js.
     lift (check_code ''client master api register partiton parse response error'' js)))))"

text \<open>
  The loop of \<^verbatim>\<open>RegisterRouter\<close>: when all masters were tried and the time \<open>expired\<close> is not over, it
  starts counting again and asks the first master. \<open>None\<close> is a loop that does not end.
\<close>

partial_function (option) router_loop ::
  "'n http \<Rightarrow> ('n \<Rightarrow> bool) \<Rightarrow> string list \<Rightarrow> request \<Rightarrow> MasterServer \<Rightarrow> 'n \<Rightarrow> (string res \<times> 'n) option" where
  "router_loop call expired masters rq m w =
     (case (case getKey m of
              Inl err \<Rightarrow> if expired w then Inl err else Inr (0, MasterServer_reset m)
            | Inr (k, m') \<Rightarrow> Inr (k, m')) of
        Inl err \<Rightarrow> Some (Inl err, w)
      | Inr (k, m') \<Rightarrow>
          (case go_index masters (int k) of
             Inl p \<Rightarrow> Some (Inl p, w)
           | Inr addr \<Rightarrow>
               (case call addr rq w of
                  (Inr response, w') \<Rightarrow> Some (Inr response, w')
                | (Inl err, w') \<Rightarrow> router_loop call expired masters rq m' w')))"

text \<open>\<^verbatim>\<open>string(data[1 : len(data)-1])\<close>: the text between the quotes; it panics on fewer than two bytes.\<close>

definition unquote :: "string \<Rightarrow> string res" where
  "unquote data =
     (if length data < 2 then Inl (GoPanic ''slice bounds out of range'')
      else Inr (take (length data - 2) (drop 1 data)))"

definition RegisterRouter ::
  "'n http \<Rightarrow> ('n \<Rightarrow> bool) \<Rightarrow> (string \<Rightarrow> reply res) \<Rightarrow> string list \<Rightarrow> nat \<Rightarrow> string \<Rightarrow> 'n \<Rightarrow>
     (string res \<times> 'n) option" where
  "RegisterRouter call expired parse masters draw form w =
     (case MasterServer_init draw (length masters) of
        Inl p \<Rightarrow> Some (Inl p, w)
      | Inr m \<Rightarrow>
          map_option (\<lambda>(r, w'). (bind_res r (\<lambda>response.
              bind_res (parseRegisterData parse response) unquote), w'))
            (router_loop call expired masters
              \<lparr> rq_Method = ''POST'', rq_Path = ''/register_router'', rq_Query = form, rq_Body = [] \<rparr> m w))"

section \<open>Recovery\<close>

record RecoverFailServer =
  rf_FailNodeID :: "64 word"
  rf_NewNodeID :: "64 word"
  rf_FailNodeAddr :: string
  rf_NewNodeAddr :: string

definition RemoveNodeMeta ::
  "'n http \<Rightarrow> RecoverFailServer codec \<Rightarrow> string list \<Rightarrow> nat \<Rightarrow> 64 word \<Rightarrow> ('n, unit) act" where
  "RemoveNodeMeta call rc masters draw nodeID =
     bindA (lift (guard (nodeID = 0) (param_err ''nodeId is zero''))) (\<lambda>_.
     bindA (lift (marshal rc \<lparr> rf_FailNodeID = nodeID, rf_NewNodeID = 0, rf_FailNodeAddr = [], rf_NewNodeAddr = [] \<rparr>))
       (\<lambda>reqBody.
     bindA (HTTPRequest call masters draw
        \<lparr> rq_Method = ''POST'', rq_Path = ''/meta/remove_server'', rq_Query = [], rq_Body = reqBody \<rparr>)
       (\<lambda>_. ret ())))"

text \<open>
  Errors that \<^verbatim>\<open>RecoverFailServer\<close> throws are caught by \<^verbatim>\<open>CatchError\<close>, which leaves the result nil; only
  an error that is returned reaches the caller.
\<close>

definition thrown :: "('n, 'a) act \<Rightarrow> ('a \<Rightarrow> ('n, unit) act) \<Rightarrow> ('n, unit) act" where
  "thrown act f w = (case act w of (Inl _, w') \<Rightarrow> (Inr (), w') | (Inr x, w') \<Rightarrow> f x w')"

definition client_RecoverFailServer ::
  "'n http \<Rightarrow> (string \<Rightarrow> reply res) \<Rightarrow> RecoverFailServer codec \<Rightarrow> string list \<Rightarrow> nat \<Rightarrow> RecoverFailServer \<Rightarrow>
     ('n, unit) act" where
  "client_RecoverFailServer call parse rc masters draw rfs =
     thrown (lift (marshal rc rfs)) (\<lambda>reqBody.
     thrown (HTTPRequest call masters draw
        \<lparr> rq_Method = ''POST'', rq_Path = ''/schedule/recover_server'', rq_Query = [], rq_Body = reqBody \<rparr>)
       (\<lambda>response.
     bindA (lift (parse response)) (\<lambda>js.
     lift (check_code ''client master api recover server error'' js))))"

definition RecoverByNewServer ::
  "key_space \<Rightarrow> FailServer codec \<Rightarrow> world http \<Rightarrow> (string \<Rightarrow> reply res) \<Rightarrow> RecoverFailServer codec \<Rightarrow>
     string list \<Rightarrow> nat \<Rightarrow> nat \<Rightarrow> Server \<Rightarrow> (world, unit) act" where
  "RecoverByNewServer ks fc call parse rc masters draw1 draw2 server =
     thrown (QueryAllFailServer ks fc) (\<lambda>failServers.
       case failServers of
         [] \<Rightarrow> ret ()
       | fs # _ \<Rightarrow>
           (case fs_Node fs of
              None \<Rightarrow> ret ()
            | Some node \<Rightarrow>
                thrown (RemoveNodeMeta call rc masters draw1 (sv_ID node)) (\<lambda>_.
                thrown (client_RecoverFailServer call parse rc masters draw2
                   \<lparr> rf_FailNodeID = 0, rf_NewNodeID = 0, rf_FailNodeAddr = sv_Ip node, rf_NewNodeAddr = sv_Ip server \<rparr>)
                  (\<lambda>_. ret ()))))"

text \<open>
  \<^verbatim>\<open>TryRemoveFailServer\<close> logs what goes wrong. A record without a node panics only when its id is the
  one looked for.
\<close>

fun remove_failed :: "key_space \<Rightarrow> Server \<Rightarrow> FailServer list \<Rightarrow> (world, unit) act" where
  "remove_failed ks server [] = ret ()"
| "remove_failed ks server (f # fs) =
     (if fs_ID f = sv_ID server then
        (case fs_Node f of
           None \<Rightarrow> fail (GoPanic ''nil pointer dereference'')
         | Some node \<Rightarrow>
             if sv_Ip node = sv_Ip server
             then (\<lambda>w. remove_failed ks server fs (snd (DeleteFailServerByNodeID ks (fs_ID f) w)))
             else remove_failed ks server fs)
      else remove_failed ks server fs)"

definition TryRemoveFailServer ::
  "key_space \<Rightarrow> FailServer codec \<Rightarrow> Server \<Rightarrow> (world, unit) act" where
  "TryRemoveFailServer ks fc server =
     bindA (QueryAllFailServer ks fc) (remove_failed ks server)"

section \<open>Every master is asked at most once\<close>

text \<open>What the loops do, said of the list of masters in the order in which they are tried.\<close>

fun try_masters :: "'n http \<Rightarrow> request \<Rightarrow> string list \<Rightarrow> ('n, string) act" where
  "try_masters call rq [] w = (Inl no_master, w)"
| "try_masters call rq (addr # addrs) w =
     (case call addr rq w of
        (Inr response, w') \<Rightarrow> (Inr response, w')
      | (Inl err, w') \<Rightarrow> try_masters call rq addrs w')"

text \<open>The tries that are left.\<close>

definition turn :: "string list \<Rightarrow> MasterServer \<Rightarrow> string list" where
  "turn masters m = take (ms_total m - ms_tryTimes m) (rotate (ms_keyNumber m) masters)"

definition server_ok :: "string list \<Rightarrow> MasterServer \<Rightarrow> bool" where
  "server_ok masters m \<longleftrightarrow> ms_total m = length masters \<and> ms_keyNumber m < length masters"

lemma rotate_hd_tl:
  assumes "k < length xs"
  shows "rotate k xs = xs ! k # tl (rotate k xs)"
    and "tl (rotate k xs) @ [xs ! k] = rotate (if k + 1 \<ge> length xs then 0 else k + 1) xs"
proof -
  have ne: "rotate k xs \<noteq> []" using assms by auto
  moreover have "xs \<noteq> []" using assms by auto
  then have h: "hd (rotate k xs) = xs ! k" using assms by (simp add: hd_rotate_conv_nth)
  ultimately show "rotate k xs = xs ! k # tl (rotate k xs)" by (metis list.collapse)
  have "tl (rotate k xs) @ [xs ! k] = rotate1 (rotate k xs)"
    using ne h by (metis rotate1_hd_tl)
  also have "\<dots> = rotate (if k + 1 \<ge> length xs then 0 else k + 1) xs"
  proof (cases "k + 1 \<ge> length xs")
    case True
    with assms have "Suc k = length xs" by simp
    then have "rotate (Suc k) xs = xs" by (intro rotate_id) simp
    with True show ?thesis by simp
  qed simp
  finally show "tl (rotate k xs) @ [xs ! k] = rotate (if k + 1 \<ge> length xs then 0 else k + 1) xs" .
qed

lemma getKey_turn:
  assumes "server_ok masters m"
  shows "(\<exists>k m'. getKey m = Inr (k, m') \<and> k < length masters \<and> server_ok masters m' \<and>
      turn masters m = masters ! k # turn masters m') \<or>
    (getKey m = Inl no_master \<and> turn masters m = [])"
proof (cases "ms_tryTimes m \<ge> ms_total m")
  case True
  then show ?thesis by (simp add: getKey_def turn_def)
next
  case False
  define m' where "m' = m\<lparr>ms_keyNumber := (if ms_keyNumber m + 1 \<ge> ms_total m then 0 else ms_keyNumber m + 1),
    ms_tryTimes := ms_tryTimes m + 1\<rparr>"
  let ?k = "ms_keyNumber m" and ?r = "rotate (ms_keyNumber m) masters"
  have k: "?k < length masters" and n: "ms_total m = length masters"
    using assms by (simp_all add: server_ok_def)
  have get: "getKey m = Inr (?k, m')"
    using False k n by (simp add: getKey_def m'_def Let_def)
  have "turn masters m' = take (ms_total m - Suc (ms_tryTimes m)) (tl ?r @ [masters ! ?k])"
    using rotate_hd_tl(2) [OF k] by (simp add: turn_def m'_def n)
  also have "\<dots> = take (ms_total m - Suc (ms_tryTimes m)) (tl ?r)"
    using n by simp
  finally have "turn masters m = masters ! ?k # turn masters m'"
    using False rotate_hd_tl(1) [OF k] by (simp add: turn_def take_Cons' ) (metis Suc_diff_Suc not_le take_Suc_Cons)
  moreover have "server_ok masters m'" using k n by (auto simp: server_ok_def m'_def)
  ultimately show ?thesis using get k by blast
qed

lemma register_loop_tries:
  "server_ok masters m \<Longrightarrow> register_loop call masters rq m w = try_masters call rq (turn masters m) w"
proof (induction call masters rq m w rule: register_loop.induct)
  case (1 call masters rq m w)
  from getKey_turn [OF "1.prems"] show ?case
  proof (elim disjE exE conjE)
    fix k m'
    assume g: "getKey m = Inr (k, m')" "k < length masters" "server_ok masters m'"
      "turn masters m = masters ! k # turn masters m'"
    then show ?thesis
      using "1.IH" [OF g(1) refl] by (subst register_loop.simps) (auto split: prod.splits sum.splits)
  next
    assume "getKey m = Inl no_master" "turn masters m = []"
    then show ?thesis by (subst register_loop.simps) simp
  qed
qed

text \<open>The same for \<^verbatim>\<open>HTTPRequest\<close>, with the error it remembers.\<close>

fun try_http :: "'n http \<Rightarrow> request \<Rightarrow> string list \<Rightarrow> go_error option \<Rightarrow> ('n, string) act" where
  "try_http call rq [] e w = (Inl no_master, w)"
| "try_http call rq (addr # addrs) e w =
     (case call addr rq w of
        (Inr response, w') \<Rightarrow> (case e of None \<Rightarrow> Inr response | Some x \<Rightarrow> Inl x, w')
      | (Inl err, w') \<Rightarrow> try_http call rq addrs (Some err) w')"

lemma http_loop_tries:
  "server_ok masters m \<Longrightarrow> http_loop call masters rq m e w = try_http call rq (turn masters m) e w"
proof (induction call masters rq m e w rule: http_loop.induct)
  case (1 call masters rq m e w)
  from getKey_turn [OF "1.prems"] show ?case
  proof (elim disjE exE conjE)
    fix k m'
    assume g: "getKey m = Inr (k, m')" "k < length masters" "server_ok masters m'"
      "turn masters m = masters ! k # turn masters m'"
    then show ?thesis
      using "1.IH" [OF g(1) refl] by (subst http_loop.simps) (auto split: prod.splits sum.splits)
  next
    assume "getKey m = Inl no_master" "turn masters m = []"
    then show ?thesis by (subst http_loop.simps) simp
  qed
qed

lemma try_http_state: "snd (try_http call rq addrs e w) = snd (try_masters call rq addrs w)"
  by (induction addrs arbitrary: e w) (auto split: prod.splits sum.splits)

lemma try_http_failed: "\<exists>x'. fst (try_http call rq addrs (Some x) w) = Inl x'"
  by (induction addrs arbitrary: x w) (auto split: prod.splits sum.splits)

lemma init_turn:
  assumes "masters \<noteq> []"
  shows "\<exists>m. MasterServer_init draw (length masters) = Inr m \<and> server_ok masters m \<and>
    turn masters m = rotate draw masters"
  using assms by (simp add: MasterServer_init_def server_ok_def turn_def flip: rotate_conv_mod)

lemma HTTPRequest_first_answer:
  assumes "masters \<noteq> []"
  shows "snd (HTTPRequest call masters draw rq w) = snd (try_masters call rq (rotate draw masters) w) \<and>
    (fst (HTTPRequest call masters draw rq w) = Inr response \<longleftrightarrow>
     fst (call (hd (rotate draw masters)) rq w) = Inr response)"
proof -
  obtain m where m: "MasterServer_init draw (length masters) = Inr m" "server_ok masters m"
      "turn masters m = rotate draw masters"
    using init_turn [OF assms] by blast
  then have http: "HTTPRequest call masters draw rq w = try_http call rq (rotate draw masters) None w"
    by (simp add: HTTPRequest_def http_loop_tries)
  obtain a as where "rotate draw masters = a # as" using assms by (cases "rotate draw masters") auto
  moreover have "fst (try_http call rq as (Some x) w') \<noteq> Inr response" for x w'
    using try_http_failed [of call rq as x w'] by auto
  ultimately show ?thesis
    by (auto simp: http try_http_state split: prod.splits sum.splits)
qed

section \<open>Properties\<close>

text \<open>
  The loops that look for a master end, and ask every master at most once. Started at any drawn
  number, \<^verbatim>\<open>Register\<close> and \<^verbatim>\<open>RegisterPartition\<close> ask the masters in cyclic order from there until one
  answers, and fail when none does.
\<close>

theorem register_asks_each_master_once:
  assumes "masters \<noteq> []"
  shows "\<exists>m. MasterServer_init draw (length masters) = Inr m \<and>
    register_loop call masters rq m w = try_masters call rq (rotate draw masters) w"
  using init_turn [OF assms, of draw] register_loop_tries by metis

definition demo_call :: "(string list) http" where
  "demo_call addr rq w = ((if addr = ''m2'' then Inr ''ok'' else Inl (GoErr ''refused'')), w @ [addr])"

definition demo_request :: request where
  "demo_request = \<lparr> rq_Method = ''POST'', rq_Path = ''/register'', rq_Query = [], rq_Body = [] \<rparr>"

theorem register_asks_each_master_once_witness:
  "\<exists>m. MasterServer_init 2 (length [''m0'', ''m1'', ''m2'']) = Inr m \<and>
    register_loop demo_call [''m0'', ''m1'', ''m2''] demo_request m [] =
      try_masters demo_call demo_request (rotate 2 [''m0'', ''m1'', ''m2'']) []"
  by (rule register_asks_each_master_once) simp

text \<open>
  A failover of \<^verbatim>\<open>HTTPRequest\<close> is reported as a failure. The masters are asked in the same way, but
  the call succeeds only if the master asked first answers: when that one fails and another one does
  the work, the error of the first is returned with the answer.
\<close>

theorem HTTPRequest_reports_failover_as_error:
  assumes "masters \<noteq> []"
  shows "snd (HTTPRequest call masters draw rq w) = snd (try_masters call rq (rotate draw masters) w) \<and>
    (fst (HTTPRequest call masters draw rq w) = Inr response \<longleftrightarrow>
     fst (call (hd (rotate draw masters)) rq w) = Inr response)"
  using HTTPRequest_first_answer [OF assms] .

theorem HTTPRequest_reports_failover_as_error_witness:
  "fst (HTTPRequest demo_call [''m1'', ''m2''] 0 demo_request []) \<noteq> Inr ''ok'' \<and>
   snd (HTTPRequest demo_call [''m1'', ''m2''] 0 demo_request []) = [''m1'', ''m2''] \<and>
   fst (try_masters demo_call demo_request [''m1'', ''m2''] []) = Inr ''ok''"
  using HTTPRequest_reports_failover_as_error [of "[''m1'', ''m2'']" demo_call 0 demo_request "[]" "''ok''"]
  by (simp add: demo_call_def)

text \<open>
  A recovery that no master started is reported as done. When the master asked first by
  \<^verbatim>\<open>RecoverFailServer\<close> cannot be reached, the call returns no error, whatever the others do: the error
  is thrown, and the handler that catches it drops it.
\<close>

theorem RecoverFailServer_hides_failure:
  assumes "masters \<noteq> []" and "marshal rc rfs = Inr body"
    and "fst (call (hd (rotate draw masters)) \<lparr> rq_Method = ''POST'',
      rq_Path = ''/schedule/recover_server'', rq_Query = [], rq_Body = body \<rparr> w) = Inl e"
  shows "fst (client_RecoverFailServer call parse rc masters draw rfs w) = Inr ()"
proof -
  let ?rq = "\<lparr> rq_Method = ''POST'', rq_Path = ''/schedule/recover_server'', rq_Query = [], rq_Body = body \<rparr>"
  have "fst (HTTPRequest call masters draw ?rq w) \<noteq> Inr response" for response
    using HTTPRequest_first_answer [OF assms(1), of call draw ?rq w response] assms(3) by simp
  then obtain x w' where "HTTPRequest call masters draw ?rq w = (Inl x, w')"
    by (metis obj_sumE prod.collapse)
  then show ?thesis by (simp add: client_RecoverFailServer_def thrown_def assms(2))
qed

theorem RecoverFailServer_hides_failure_witness:
  "fst (client_RecoverFailServer demo_call (\<lambda>s. Inr \<lparr> re_Code = 0, re_Msg = [], re_Data = [] \<rparr>)
     \<lparr> marshal = (\<lambda>r. Inr ''{}''), unmarshal = (\<lambda>b s. Inr b) \<rparr> [''m0'', ''m1''] 1
     \<lparr> rf_FailNodeID = 3, rf_NewNodeID = 4, rf_FailNodeAddr = [], rf_NewNodeAddr = [] \<rparr> []) = Inr ()"
  by (rule RecoverFailServer_hides_failure [where body = "''{}''" and e = "GoErr ''refused''"])
    (simp_all add: demo_call_def)

end
