(* ===== verification/Number.thy ===== *)
theory Number
  imports GoLib "HOL-Library.List_Lexorder"
begin

text \<open>
  \<^verbatim>\<open>internal/pkg/number/number.go\<close>: the sortable encoding of integers and floating-point numbers as
  bytes of seven bits, the normalization of \<^verbatim>\<open>uint8\<close> vectors and \<^verbatim>\<open>IsNum\<close>.

  An \<^verbatim>\<open>int64\<close> or \<^verbatim>\<open>uint64\<close> is its 64 bits, a \<^verbatim>\<open>float64\<close> here its bit pattern. The lemmas show that
  decoding undoes encoding up to the bits shifted away, that the order of the encodings is the
  order of the numbers, and where the two ends of the code disagree (the shift 63).
\<close>

unbundle bit_operations_syntax

section \<open>Prefix coding\<close>

definition ShiftStartFlag :: "8 word" where
  "ShiftStartFlag = 0x20"

definition sign_mask :: "64 word" where
  "sign_mask = 0x8000000000000000"

text \<open>The loop that fills the bytes \<open>n\<close>, \<open>n - 1\<close> and so on down to the first.\<close>

fun code_chars :: "nat \<Rightarrow> 64 word \<Rightarrow> 8 word list" where
  "code_chars 0 sortBits = []"
| "code_chars (Suc n) sortBits = code_chars n (drop_bit 7 sortBits) @ [ucast (sortBits AND 0x7f)]"

definition NewPrefixCodedInt64 :: "64 word \<Rightarrow> nat \<Rightarrow> (8 word list) res" where
  "NewPrefixCodedInt64 x shift =
     (if shift > 63 then Inl (GoErr ''cannot shift, must be between 0 and 63'')
      else let nChars = (63 - shift) div 7 + 1;
               sortBits = drop_bit shift (x XOR sign_mask)
           in Inr ((ShiftStartFlag + of_nat shift) # code_chars nChars sortBits))"

definition PrefixCodedInt64 :: "64 word \<Rightarrow> nat \<Rightarrow> (8 word list) res" where
  "PrefixCodedInt64 x shift =
     (case NewPrefixCodedInt64 x shift of Inl _ \<Rightarrow> Inl (GoPanic ''cannot shift'') | Inr rv \<Rightarrow> Inr rv)"

definition Value_Shift :: "8 word list \<Rightarrow> nat res" where
  "Value_Shift p =
     (case p of
        [] \<Rightarrow> Inl (GoErr ''invalid prefix sort byte value'')
      | b # _ \<Rightarrow>
          let shift = b - ShiftStartFlag in
          if shift < 63 then Inr (unat shift) else Inl (GoErr ''invalid prefix sort byte value''))"

definition Value_Int64 :: "8 word list \<Rightarrow> (64 word) res" where
  "Value_Int64 p =
     bind_res (Value_Shift p) (\<lambda>shift.
       let sortableBits = foldl (\<lambda>acc inbyte. push_bit 7 acc OR ucast inbyte) 0 (tl p)
       in Inr (push_bit shift sortableBits XOR sign_mask))"

section \<open>Floating-point numbers\<close>

definition Float64ToInt64 :: "64 word \<Rightarrow> 64 word" where
  "Float64ToInt64 f = (if sint f < 0 then f XOR 0x7fffffffffffffff else f)"

definition Int64ToFloat64 :: "64 word \<Rightarrow> 64 word" where
  "Int64ToFloat64 i = (if sint i < 0 then i XOR 0x7fffffffffffffff else i)"

definition PrefixCodedFloat64 :: "64 word \<Rightarrow> nat \<Rightarrow> (8 word list) res" where
  "PrefixCodedFloat64 f shift =
     (case NewPrefixCodedInt64 (Float64ToInt64 f) shift of
        Inl _ \<Rightarrow> Inl (GoPanic ''cannot shift'') | Inr rv \<Rightarrow> Inr rv)"

definition Value_Float64 :: "8 word list \<Rightarrow> (64 word) res" where
  "Value_Float64 p = bind_res (Value_Int64 p) (\<lambda>i64. Inr (Int64ToFloat64 i64))"

section \<open>Vectors of bytes\<close>

text \<open>\<^verbatim>\<open>uint8(math.Sqrt(float64(sum)))\<close>: the integer part of the root, at most 15.\<close>

definition isqrt8 :: "8 word \<Rightarrow> 8 word" where
  "isqrt8 s = of_nat (length (filter (\<lambda>k. k * k \<le> unat s) [1..<16]))"

definition NormalizationUint8 :: "8 word list \<Rightarrow> (8 word list) res" where
  "NormalizationUint8 feature =
     (let s = foldl (\<lambda>s v. s + v * v) 0 feature in
      if s = 0 then Inl (GoErr ''normalization err'')
      else Inr (map (\<lambda>v. v div isqrt8 s) feature))"

definition IsNum :: "(nat \<Rightarrow> bool) \<Rightarrow> string \<Rightarrow> bool" where
  "IsNum nt s = (if length s = 0 then False else list_all (IsNumber nt) (runes s))"

section \<open>Digits\<close>

text \<open>The bytes of a code are its digits in base 128, the most significant first.\<close>

definition digits_val :: "8 word list \<Rightarrow> nat" where
  "digits_val ds = foldl (\<lambda>a d. a * 128 + unat d) 0 ds"

lemma digits_val_snoc [simp]: "digits_val (ds @ [d]) = digits_val ds * 128 + unat d"
  by (simp add: digits_val_def)

lemma digits_val_Nil [simp]: "digits_val [] = 0"
  by (simp add: digits_val_def)

lemma length_code_chars [simp]: "length (code_chars n b) = n"
  by (induction n arbitrary: b) auto

lemma unat_low7: "unat (ucast (b AND 0x7f) :: 8 word) = unat (b :: 64 word) mod 128"
proof -
  have "b AND 0x7f = take_bit 7 b"
    by (simp add: take_bit_eq_mask mask_eq_exp_minus_1)
  moreover have "unat b mod 128 mod 256 = unat b mod 128"
    by (rule mod_less) (use mod_less_divisor [of 128 "unat b"] in linarith)
  ultimately show ?thesis
    by (simp add: unsigned_ucast_eq unsigned_take_bit_eq take_bit_eq_mod unat_mod_distrib)
qed

lemma unat_drop7: "unat (drop_bit 7 b :: 64 word) = unat b div 128"
  by (simp add: drop_bit_eq_div unat_div_distrib)

lemma code_chars_small: "d \<in> set (code_chars n b) \<Longrightarrow> unat d < 128"
  by (induction n arbitrary: b) (auto simp: unat_low7)

lemma digits_val_code_chars: "digits_val (code_chars n b) = unat b mod 128 ^ n"
proof (induction n arbitrary: b)
  case (Suc n)
  have "unat b mod 128 ^ Suc n = 128 * (unat b div 128 mod 128 ^ n) + unat b mod 128"
    by (simp add: mod_mult2_eq)
  then show ?case by (simp add: Suc.IH unat_low7 unat_drop7)
qed simp

text \<open>Among codes of one length, the lexicographic order is the order of the values.\<close>

lemma digits_val_bound: "\<forall>d \<in> set ds. unat d < 128 \<Longrightarrow> digits_val ds < 128 ^ length ds"
proof (induction ds rule: rev_induct)
  case (snoc d ds)
  then have "digits_val ds < 128 ^ length ds" "unat d < 128" by auto
  then show ?case by simp
qed simp

lemma list_less_snoc:
  "length ds = length es \<Longrightarrow> ds @ [d] < es @ [e] \<longleftrightarrow> ds < es \<or> (ds = es \<and> d < (e :: 'a :: linorder))"
  by (induction ds es rule: list_induct2) auto

lemma lex128:
  fixes a b x y :: nat
  assumes "x < 128" and "y < 128"
  shows "a * 128 + x < b * 128 + y \<longleftrightarrow> a < b \<or> a = b \<and> x < y"
    and "a * 128 + x = b * 128 + y \<longleftrightarrow> a = b \<and> x = y"
  using assms by (cases a b rule: linorder_cases; simp)+

lemma digits_val_less_iff:
  assumes "length ds = length es"
    and "\<forall>d \<in> set ds. unat d < 128" and "\<forall>e \<in> set es. unat e < 128"
  shows "(ds < es \<longleftrightarrow> digits_val ds < digits_val es) \<and> (ds = es \<longleftrightarrow> digits_val ds = digits_val es)"
  using assms
proof (induction ds arbitrary: es rule: rev_induct)
  case Nil
  then show ?case by simp
next
  case (snoc d ds)
  then obtain e es' where es: "es = es' @ [e]" "length ds = length es'"
    by (cases es rule: rev_cases) auto
  have IH: "(ds < es' \<longleftrightarrow> digits_val ds < digits_val es') \<and> (ds = es' \<longleftrightarrow> digits_val ds = digits_val es')"
    by (rule snoc.IH) (use snoc.prems es in simp_all)
  have small: "unat d < 128" "unat e < 128" using snoc.prems es by auto
  have "ds @ [d] < es \<longleftrightarrow> digits_val ds < digits_val es' \<or> digits_val ds = digits_val es' \<and> unat d < unat e"
    unfolding es(1) list_less_snoc [OF es(2)] using IH by (simp only: word_less_nat_alt) 
  moreover have "ds @ [d] = es \<longleftrightarrow> digits_val ds = digits_val es' \<and> unat d = unat e"
    using IH by (simp add: es(1) word_unat_eq_iff)
  ultimately show ?case
    using lex128 [OF small] by (simp add: es(1))
qed

section \<open>Decoding\<close>

lemma push7_or:
  assumes "unat (d :: 8 word) < 128"
  shows "push_bit 7 acc OR ucast d = acc * 128 + (of_nat (unat d) :: 64 word)"
proof -
  have d: "take_bit 7 d = d"
    using assms by (simp add: take_bit_eq_mod word_unat_eq_iff unat_mod_distrib)
  have "\<not> bit (push_bit 7 acc) n \<or> \<not> bit (ucast d :: 64 word) n" for n
    by (subst d [symmetric]) (auto simp: bit_simps)
  then have "push_bit 7 acc OR ucast d = push_bit 7 acc + (ucast d :: 64 word)"
    by (simp add: disjunctive_add)
  then show ?thesis by (simp add: push_bit_eq_mult mult.commute)
qed

lemma decode_digits:
  "\<forall>d \<in> set ds. unat d < 128 \<Longrightarrow>
     foldl (\<lambda>acc inbyte. push_bit 7 acc OR ucast inbyte) 0 ds = (of_nat (digits_val ds) :: 64 word)"
  by (induction ds rule: rev_induct) (simp_all add: push7_or)

lemma code_room:
  assumes "shift \<le> 63"
  shows "unat (drop_bit shift (y :: 64 word)) < 128 ^ ((63 - shift) div 7 + 1)"
proof -
  obtain k where k: "63 - shift = k" "64 - shift = k + 1" using assms by (simp add: Suc_diff_le)
  have "k + 1 \<le> 7 * (k div 7 + 1)" by presburger
  with k have "64 - shift \<le> 7 * ((63 - shift) div 7 + 1)" by simp
  then have "(2 :: nat) ^ (64 - shift) \<le> 2 ^ (7 * ((63 - shift) div 7 + 1))"
    by (rule power_increasing) simp
  also have "\<dots> = 128 ^ ((63 - shift) div 7 + 1)" by (simp only: power_mult) simp
  finally have "(2 :: nat) ^ (64 - shift) \<le> 128 ^ ((63 - shift) div 7 + 1)" .
  moreover have "unat (drop_bit shift y) < 2 ^ (64 - shift)"
  proof -
    have "unat y < 2 ^ shift * 2 ^ (64 - shift)"
      using unat_bounds(3) [of y] assms by (simp flip: power_add)
    then have "unat y div 2 ^ shift < 2 ^ (64 - shift)"
      by (simp add: less_mult_imp_div_less mult.commute)
    then show ?thesis
      using unat_bounds(3) [of y] unfolding unsigned_drop_bit_eq
      by (simp add: drop_bit_eq_div take_bit_nat_eq_self)
  qed
  ultimately show ?thesis by linarith
qed

lemma digits_val_code:
  "shift \<le> 63 \<Longrightarrow> digits_val (code_chars ((63 - shift) div 7 + 1) (drop_bit shift y)) = unat (drop_bit shift y)"
  using code_room [of shift y] by (simp only: digits_val_code_chars mod_less)

lemma flag_shift: "shift < 256 \<Longrightarrow> unat (ShiftStartFlag + of_nat shift - ShiftStartFlag) = shift"
  by (simp add: unat_of_nat)

lemma bit_sign_mask [simp]: "bit sign_mask n \<longleftrightarrow> n = 63"
proof -
  have "sign_mask = push_bit 63 1" by (simp add: sign_mask_def)
  then have "bit sign_mask n \<longleftrightarrow> bit (push_bit 63 (1 :: 64 word)) n" by simp
  also have "\<dots> \<longleftrightarrow> n = 63" unfolding bit_push_bit_iff by (auto simp: bit_simps)
  finally show ?thesis .
qed

lemma clear_low_bits:
  "shift < 63 \<Longrightarrow> push_bit shift (drop_bit shift (x XOR sign_mask)) XOR sign_mask = x AND NOT (mask shift)"
  by (rule bit_word_eqI) (auto simp: bit_simps)

section \<open>Order\<close>

text \<open>Flipping the sign bit turns the signed order into the unsigned one.\<close>

lemma xor_sign_mask: "x XOR sign_mask = x + sign_mask"
proof -
  have low: "y XOR sign_mask = y + sign_mask" if "\<not> bit y 63" for y
  proof -
    have "y XOR sign_mask = y OR sign_mask"
      using that by (intro bit_word_eqI) (auto simp: bit_simps)
    also have "\<dots> = y + sign_mask" using that by (intro disjunctive_add [symmetric]) auto
    finally show ?thesis .
  qed
  show ?thesis
  proof (cases "bit x 63")
    case True
    then have "(x XOR sign_mask) XOR sign_mask = (x XOR sign_mask) + sign_mask"
      by (intro low) (simp add: bit_simps)
    then have "x = (x XOR sign_mask) + sign_mask" by (simp only: xor.assoc xor_self_eq xor.right_neutral)
    then have "x + sign_mask = (x XOR sign_mask) + sign_mask + sign_mask" by (rule arg_cong)
    also have "\<dots> = x XOR sign_mask" by (simp add: add.assoc sign_mask_def)
    finally show ?thesis by (rule sym)
  qed (rule low)
qed

lemma uint_xor_sign_mask: "uint (x XOR sign_mask) = sint x + 2 ^ 63"
proof -
  have "sint x = take_bit 64 (uint x + 2 ^ 63) - 2 ^ 63"
    by (simp add: sint_uint signed_take_bit_eq_take_bit_shift)
  moreover have "uint (x + sign_mask) = take_bit 64 (uint x + 2 ^ 63)"
    by (simp add: uint_word_ariths take_bit_eq_mod sign_mask_def)
  ultimately show ?thesis by (simp add: xor_sign_mask)
qed

lemma uint_shifted:
  assumes "shift \<le> 63"
  shows "uint (drop_bit shift (x XOR sign_mask)) = sint x div 2 ^ shift + 2 ^ (63 - shift)"
proof -
  have "uint (drop_bit shift (x XOR sign_mask)) = uint (x XOR sign_mask) div 2 ^ shift"
    using uint_lt2p [of "x XOR sign_mask"] unfolding unsigned_drop_bit_eq
    by (simp add: drop_bit_eq_div take_bit_int_eq_self)
  also have "\<dots> = (sint x + 2 ^ (63 - shift) * 2 ^ shift) div 2 ^ shift"
    using assms by (simp add: uint_xor_sign_mask flip: power_add)
  finally show ?thesis by simp
qed

lemma code_chars_less_iff:
  assumes "shift \<le> 63"
  shows "code_chars ((63 - shift) div 7 + 1) (drop_bit shift (x XOR sign_mask))
      < code_chars ((63 - shift) div 7 + 1) (drop_bit shift (y XOR sign_mask)) \<longleftrightarrow>
    sint x div 2 ^ shift < sint y div 2 ^ shift"
proof -
  let ?c = "\<lambda>x. code_chars ((63 - shift) div 7 + 1) (drop_bit shift (x XOR sign_mask))"
  have "?c x < ?c y \<longleftrightarrow> digits_val (?c x) < digits_val (?c y)"
    by (rule conjunct1 [OF digits_val_less_iff]) (auto dest: code_chars_small simp del: code_chars.simps)
  also have "\<dots> \<longleftrightarrow> uint (drop_bit shift (x XOR sign_mask)) < uint (drop_bit shift (y XOR sign_mask))"
    unfolding digits_val_code [OF assms] by (simp only: flip: word_less_nat_alt word_less_alt)
  finally show ?thesis by (simp only: uint_shifted [OF assms] add_less_cancel_right)
qed

text \<open>
  The order of floating-point numbers other than NaN, read off their bits: sign times magnitude.
\<close>

definition fp_order :: "64 word \<Rightarrow> int" where
  "fp_order f = (if sint f < 0 then - (sint f + 2 ^ 63) else sint f)"

lemma sint_ge_64: "- (2 ^ 63) \<le> sint (f :: 64 word)"
  using sint_ge [of f] by simp

lemma flip_magnitude:
  fixes f :: "64 word"
  assumes "sint f < 0"
  shows "sint (f XOR 0x7fffffffffffffff) = - (sint f + 2 ^ 63) - 1"
proof -
  have "(0x7fffffffffffffff :: 64 word) = mask 63" by (simp add: mask_eq_exp_minus_1)
  moreover have "f XOR mask 63 = NOT (f XOR sign_mask)"
    by (rule bit_word_eqI) (auto simp: bit_simps)
  ultimately have "f XOR 0x7fffffffffffffff = NOT (f XOR sign_mask)" by simp
  moreover have "sint (f XOR sign_mask) = sint f + 2 ^ 63"
  proof -
    have "uint (f XOR sign_mask) < 2 ^ 63" using assms by (simp only: uint_xor_sign_mask)
    then have "sint (f XOR sign_mask) = uint (f XOR sign_mask)"
      unfolding sint_uint
      by (intro signed_take_bit_int_eq_self) (simp_all add: order_trans [OF _ uint_ge_0])
    then show ?thesis by (simp only: uint_xor_sign_mask)
  qed
  ultimately show ?thesis using assms sint_ge_64 [of f]
    by (simp add: signed_not_eq not_int_def signed_take_bit_int_eq_self)
qed

lemma sint_Float64ToInt64:
  "sint (Float64ToInt64 f) = (if sint f < 0 then fp_order f - 1 else fp_order f)"
  by (simp add: Float64ToInt64_def fp_order_def flip_magnitude)

lemma Float64ToInt64_mono: "fp_order f < fp_order g \<Longrightarrow> sint (Float64ToInt64 f) < sint (Float64ToInt64 g)"
  using sint_ge_64 [of f] sint_ge_64 [of g]
  by (auto simp: sint_Float64ToInt64 fp_order_def split: if_splits)

lemma Int64ToFloat64_Float64ToInt64: "Int64ToFloat64 (Float64ToInt64 f) = f"
  using sint_ge_64 [of f] sint_Float64ToInt64 [of f]
  by (auto simp: Int64ToFloat64_def Float64ToInt64_def fp_order_def xor.assoc split: if_splits)

section \<open>Normalization\<close>

lemma sum_squares_wraps:
  "unat (foldl (\<lambda>s v. s + v * v) s vs) = (unat s + (\<Sum>v\<leftarrow>vs. unat v * unat v)) mod 256"
  for s :: "8 word"
proof (induction vs arbitrary: s)
  case Nil
  then show ?case using unat_bounds(1) [of s] by simp
next
  case (Cons v vs)
  show ?case by (simp add: Cons.IH unat_word_ariths mod_simps add.assoc)
qed

lemma isqrt8_pos: "s \<noteq> 0 \<Longrightarrow> isqrt8 s \<noteq> 0"
proof -
  assume "s \<noteq> 0"
  then have "1 * 1 \<le> unat s" by (simp add: word_unat_eq_iff)
  then have "1 \<in> set (filter (\<lambda>k. k * k \<le> unat s) [1..<16])" by simp
  then have "0 < length (filter (\<lambda>k. k * k \<le> unat s) [1..<16])" by (metis length_pos_if_in_set)
  moreover have "length (filter (\<lambda>k. k * k \<le> unat s) [1..<16]) < 256"
    by (rule le_less_trans [OF length_filter_le]) simp
  ultimately show ?thesis
    by (simp add: isqrt8_def word_unat_eq_iff unat_of_nat del: upt_rec_numeral filter.simps)
qed

section \<open>Properties\<close>

text \<open>
  C13: decoding a prefix-coded integer gives back its value with the bits below the shift cleared, so
  the full value for shift 0. A shift above 63 is refused by the encoder. The shift 63, which the
  encoder accepts, is refused by the decoder.
\<close>

theorem prefix_coded_roundtrip:
  "bind_res (NewPrefixCodedInt64 x shift) Value_Int64 =
     (if shift < 63 then Inr (x AND NOT (mask shift))
      else if shift = 63 then Inl (GoErr ''invalid prefix sort byte value'')
      else Inl (GoErr ''cannot shift, must be between 0 and 63''))"
proof -
  let ?ds = "code_chars ((63 - shift) div 7 + 1) (drop_bit shift (x XOR sign_mask))"
  have flag: "(ShiftStartFlag + of_nat shift - ShiftStartFlag < 63) = (shift < 63)" if "shift \<le> 63"
    using that flag_shift [of shift] by (simp add: word_less_nat_alt)
  have "foldl (\<lambda>acc inbyte. push_bit 7 acc OR ucast inbyte) 0 ?ds = drop_bit shift (x XOR sign_mask)"
    if "shift \<le> 63"
    using decode_digits [of ?ds] digits_val_code [OF that, of "x XOR sign_mask"]
    by (simp add: code_chars_small del: code_chars.simps)
  then show ?thesis
    using flag flag_shift [of shift] clear_low_bits [of shift x]
    by (simp add: NewPrefixCodedInt64_def Value_Int64_def Value_Shift_def Let_def del: code_chars.simps)
qed

text \<open>
  Prefix coding keeps order. At one shift, the codes of two integers compare byte by byte, the
  way keys of a store do, exactly as the integers do with the low bits dropped; and the codes of two
  floating-point numbers that are not NaN compare at shift 0 as the numbers do.
\<close>

theorem prefix_coded_order:
  assumes "shift \<le> 63"
  shows "\<exists>a b f g. NewPrefixCodedInt64 x shift = Inr a \<and> NewPrefixCodedInt64 y shift = Inr b \<and>
    (a < b \<longleftrightarrow> sint x div 2 ^ shift < sint y div 2 ^ shift) \<and>
    PrefixCodedFloat64 x 0 = Inr f \<and> PrefixCodedFloat64 y 0 = Inr g \<and>
    (fp_order x < fp_order y \<longrightarrow> f < g)"
proof -
  define code where "code = (\<lambda>s z. (ShiftStartFlag + of_nat s) #
    code_chars ((63 - s) div 7 + 1) (drop_bit s (z XOR sign_mask)))"
  have new: "NewPrefixCodedInt64 z s = Inr (code s z)" if "s \<le> 63" for z s
    using that by (simp add: NewPrefixCodedInt64_def code_def Let_def)
  have less: "code s z < code s z' \<longleftrightarrow> sint z div 2 ^ s < sint z' div 2 ^ s" if "s \<le> 63" for z z' s
    using code_chars_less_iff [OF that, of z z'] by (simp add: code_def del: code_chars.simps)
  show ?thesis
    using less [OF assms, of x y] less [of 0 "Float64ToInt64 x" "Float64ToInt64 y"] Float64ToInt64_mono [of x y]
    by (simp add: new assms PrefixCodedFloat64_def)
qed

theorem prefix_coded_order_witness:
  "\<exists>a b f g. NewPrefixCodedInt64 5 2 = Inr a \<and> NewPrefixCodedInt64 9 2 = Inr b \<and>
    (a < b \<longleftrightarrow> sint (5 :: 64 word) div 2 ^ 2 < sint (9 :: 64 word) div 2 ^ 2) \<and>
    PrefixCodedFloat64 5 0 = Inr f \<and> PrefixCodedFloat64 9 0 = Inr g \<and> f < g"
proof -
  have "fp_order 5 < fp_order 9" by (simp add: fp_order_def)
  then show ?thesis using prefix_coded_order [of 2 5 9] by auto
qed

text \<open>
  The sum of squares in \<^verbatim>\<open>NormalizationUint8\<close> is kept in a byte. The call fails exactly when the
  true sum is a multiple of 256, so it refuses vectors such as \<open>[16]\<close> that are not zero; otherwise
  every component is divided by the root of the sum modulo 256, which is never zero.
\<close>

theorem NormalizationUint8_wraps:
  "(NormalizationUint8 v = Inl (GoErr ''normalization err'') \<longleftrightarrow> 256 dvd (\<Sum>x\<leftarrow>v. unat x * unat x)) \<and>
   (\<forall>w. NormalizationUint8 v = Inr w \<longrightarrow>
      (\<exists>d. d \<noteq> 0 \<and> w = map (\<lambda>x. x div d) v \<and> d = isqrt8 (of_nat (\<Sum>x\<leftarrow>v. unat x * unat x))))"
proof -
  let ?s = "foldl (\<lambda>s v. s + v * v) 0 v"
  have u: "unat ?s = (\<Sum>x\<leftarrow>v. unat x * unat x) mod 256" using sum_squares_wraps [of 0 v] by simp
  then have z: "?s = 0 \<longleftrightarrow> 256 dvd (\<Sum>x\<leftarrow>v. unat x * unat x)"
    by (simp add: word_unat_eq_iff dvd_eq_mod_eq_0)
  have "?s = of_nat (\<Sum>x\<leftarrow>v. unat x * unat x)" by (simp add: word_unat_eq_iff unat_of_nat u)
  with z isqrt8_pos [of ?s] show ?thesis by (auto simp: NormalizationUint8_def Let_def)
qed

theorem NormalizationUint8_wraps_witness:
  "NormalizationUint8 [16] = Inl (GoErr ''normalization err'') \<and> NormalizationUint8 [6, 8] = Inr [0, 0] \<and>
   isqrt8 (of_nat (\<Sum>x\<leftarrow>[6, 8 :: 8 word]. unat x * unat x)) \<noteq> 0"
proof -
  have "NormalizationUint8 [6, 8] = Inr [0, 0]" by code_simp
  then show ?thesis using NormalizationUint8_wraps [of "[16]"] NormalizationUint8_wraps [of "[6, 8]"] by auto
qed

end
