(* ===== verification/DBService.thy ===== *)
theory DBService
  imports MasterClient Number
begin

text \<open>
  The databases of the master: \<^verbatim>\<open>internal/master/services/db_service.go\<close>.

  A database has three keys: its number gives its name, its name gives its number, and its number
  gives its description. Creation and deletion write them in one transaction under a lock;
  \<open>dbs_wf\<close> is the invariant that the three agree, and every operation keeps it whatever calls to
  etcd fail. \<^verbatim>\<open>client.IsLive\<close>, a call to a partition server, is the parameter \<open>live\<close>;
  \<^verbatim>\<open>LimitedDBNum\<close> of the configuration is the parameter \<open>limited\<close>.
\<close>

section \<open>Operations\<close>

text \<open>\<^verbatim>\<open>DBKeys\<close> of the client: the keys by number, by name and of the description.\<close>

definition DBKeys :: "key_space \<Rightarrow> int \<Rightarrow> string \<Rightarrow> string \<times> string \<times> string" where
  "DBKeys ks dbid name = (DBKeyId ks dbid, DBKeyName ks name, DBKeyBody ks dbid)"

text \<open>\<^verbatim>\<open>cast.ToInt64\<close> is \<^verbatim>\<open>cast.ToInt64E\<close> with 0 for an error.\<close>

definition ToInt64 :: "cast_lib \<Rightarrow> string \<Rightarrow> int" where
  "ToInt64 cl s = (case ToInt64E cl s of Inl _ \<Rightarrow> 0 | Inr v \<Rightarrow> v)"

definition validatePS ::
  "key_space \<Rightarrow> Server codec \<Rightarrow> cast_lib \<Rightarrow> (string \<Rightarrow> bool) \<Rightarrow> string list \<Rightarrow> (world, unit) act" where
  "validatePS ks vc cl live psList =
     (if length psList < 1 then ret ()
      else bindA (QueryServers ks vc) (\<lambda>servers.
        lift (each_res (\<lambda>ps.
          case find (\<lambda>s. sv_Ip s = ps) servers of
            None \<Rightarrow> Inl (GoErr ''server not found in cluster'')
          | Some s \<Rightarrow> guard (\<not> live (RpcAddr cl s)) (GoErr ''server can not connection'')) psList)))"

definition limit_dbs :: "key_space \<Rightarrow> bool \<Rightarrow> (world, unit) act" where
  "limit_dbs ks limited =
     (if limited then bindA (PrefixScan (PrefixDataBaseBody ks)) (\<lambda>rows.
        lift (guard (length rows \<ge> 1)
          (param_err ''db num is limited to one and already have one db exists'')))
      else ret ())"

definition create_db_stm :: "key_space \<Rightarrow> cast_lib \<Rightarrow> DB codec \<Rightarrow> DB \<Rightarrow> (kvs, unit) act" where
  "create_db_stm ks cl dc db =
     (case DBKeys ks (db_Id db) (db_Name db) of (idKey, nameKey, bodyKey) \<Rightarrow>
       bindA (stm_Get nameKey) (\<lambda>n.
       if n \<noteq> [] then fail (NewError DB_EXIST (Some (GoErr ''dbname already exists'')))
       else bindA (stm_Get idKey) (\<lambda>i.
       if i \<noteq> [] then fail (NewError DB_EXIST (Some (GoErr ''dbID already exists'')))
       else bindA (lift (marshal dc db)) (\<lambda>val.
         bindA (stm_Put nameKey (ToString cl (db_Id db))) (\<lambda>_.
         bindA (stm_Put idKey (db_Name db)) (\<lambda>_.
         stm_Put bodyKey val))))))"

text \<open>The number is set in the caller's object, which is returned here.\<close>

definition CreateDB ::
  "key_space \<Rightarrow> (nat \<Rightarrow> bool) \<Rightarrow> cast_lib \<Rightarrow> DB codec \<Rightarrow> Server codec \<Rightarrow> (string \<Rightarrow> bool) \<Rightarrow> bool \<Rightarrow> DB \<Rightarrow>
     (world, DB) act" where
  "CreateDB ks nt cl dc vc live limited db =
     bindA (limit_dbs ks limited) (\<lambda>_.
     bindA (lift (DB_Validate nt db)) (\<lambda>_.
     bindA (validatePS ks vc cl live (db_Ps db)) (\<lambda>_.
     bindA (NewIDGenerate (DBIdSequence ks) 1) (\<lambda>dbid.
     let db' = db\<lparr>db_Id := dbid\<rparr> in
     bindA (with_lock (LockDBKey ks (db_Name db)) (STM (create_db_stm ks cl dc db'))) (\<lambda>_.
     ret db')))))"

definition db_number :: "key_space \<Rightarrow> (nat \<Rightarrow> bool) \<Rightarrow> cast_lib \<Rightarrow> string \<Rightarrow> (world, int) act" where
  "db_number ks nt cl dbName =
     (if IsNum nt dbName then ret (ToInt64 cl dbName) else QueryDBName2ID ks cl dbName)"

definition QueryDB ::
  "key_space \<Rightarrow> (nat \<Rightarrow> bool) \<Rightarrow> cast_lib \<Rightarrow> DB codec \<Rightarrow> string \<Rightarrow> (world, DB) act" where
  "QueryDB ks nt cl dc dbName =
     bindA (db_number ks nt cl dbName) (\<lambda>dbid.
     bindA (Get (DBKeyBody ks dbid)) (\<lambda>bs.
       case bs of
         None \<Rightarrow> fail (NewError DB_NOT_EXIST None)
       | Some b \<Rightarrow> lift (unmarshal dc new_db b)))"

definition delete_db_stm :: "key_space \<Rightarrow> DB \<Rightarrow> (kvs, unit) act" where
  "delete_db_stm ks db =
     (case DBKeys ks (db_Id db) (db_Name db) of (idKey, nameKey, bodyKey) \<Rightarrow>
       bindA (stm_Del idKey) (\<lambda>_. bindA (stm_Del nameKey) (\<lambda>_. stm_Del bodyKey)))"

definition DeleteDB ::
  "key_space \<Rightarrow> (nat \<Rightarrow> bool) \<Rightarrow> cast_lib \<Rightarrow> DB codec \<Rightarrow> Space codec \<Rightarrow> string \<Rightarrow> (world, unit) act" where
  "DeleteDB ks nt cl dc sc dbName =
     bindA (QueryDB ks nt cl dc dbName) (\<lambda>db.
     with_lock (LockDBKey ks dbName)
       (bindA (QuerySpaces ks sc (db_Id db)) (\<lambda>spaces.
        if length spaces > 0 then fail (NewError DB_NOT_EMPTY None)
        else STM (delete_db_stm ks db))))"

definition QueryDBs :: "key_space \<Rightarrow> DB codec \<Rightarrow> (world, DB list) act" where
  "QueryDBs ks dc =
     bindA (PrefixScan (PrefixDataBaseBody ks)) (\<lambda>rows. ret (scan_decode dc new_db rows))"

datatype ConfChangeType = ConfAddNode | ConfRemoveNode | ConfOther

record DBModify =
  dm_DbName :: string
  dm_SpaceName :: string
  dm_IPAddr :: string
  dm_Method :: ConfChangeType

text \<open>
  The errors that \<^verbatim>\<open>UpdateDBIpList\<close> and \<^verbatim>\<open>DBServers\<close> throw are in the named result \<^verbatim>\<open>err\<close> when they are
  thrown, so the caller gets them although the handler of the panic drops them.
\<close>

definition modify_ps :: "ConfChangeType \<Rightarrow> string \<Rightarrow> string list \<Rightarrow> string list res" where
  "modify_ps method ip ps =
     (case method of
        ConfRemoveNode \<Rightarrow> Inr (filter (\<lambda>i. i \<noteq> ip) ps)
      | ConfAddNode \<Rightarrow> Inr (if ip \<in> set ps then ps else ps @ [ip])
      | ConfOther \<Rightarrow> Inl (GoErr ''method support addIP removeIP not support''))"

definition UpdateDBIpList ::
  "key_space \<Rightarrow> (nat \<Rightarrow> bool) \<Rightarrow> cast_lib \<Rightarrow> DB codec \<Rightarrow> DBModify \<Rightarrow> (world, DB) act" where
  "UpdateDBIpList ks nt cl dc dbModify =
     bindA (QueryDB ks nt cl dc (dm_DbName dbModify)) (\<lambda>db.
     bindA (lift (modify_ps (dm_Method dbModify) (dm_IPAddr dbModify) (db_Ps db))) (\<lambda>ps.
     let db' = db\<lparr>db_Ps := ps\<rparr> in
     bindA (lift (marshal dc db')) (\<lambda>val.
     bindA (Put (DBKeyBody ks (db_Id db')) val) (\<lambda>_. ret db'))))"

definition DBServers ::
  "key_space \<Rightarrow> (nat \<Rightarrow> bool) \<Rightarrow> cast_lib \<Rightarrow> DB codec \<Rightarrow> Server codec \<Rightarrow> string \<Rightarrow> (world, Server list) act" where
  "DBServers ks nt cl dc vc dbName =
     bindA (QueryServers ks vc) (\<lambda>servers.
     bindA (QueryDB ks nt cl dc dbName) (\<lambda>db.
       if length (db_Ps db) > 0
       then ret (concat (map (\<lambda>ps. filter (\<lambda>s. ps = sv_Ip s) servers) (db_Ps db)))
       else ret servers))"

section \<open>The invariant\<close>

text \<open>What the code relies on in \<^verbatim>\<open>spf13/cast\<close>: an \<^verbatim>\<open>int64\<close> survives being written and read.\<close>

definition casts_int64 :: "cast_lib \<Rightarrow> bool" where
  "casts_int64 cl \<longleftrightarrow>
     (\<forall>i. - (2 ^ 63) \<le> i \<and> i < 2 ^ 63 \<longrightarrow> ToString cl i \<noteq> [] \<and> ToInt64E cl (ToString cl i) = Inr i)"

text \<open>What it relies on in the JSON package: what was written is read back.\<close>

definition lossless :: "'a codec \<Rightarrow> 'a \<Rightarrow> bool" where
  "lossless c zero \<longleftrightarrow> (\<forall>x s. marshal c x = Inr s \<longrightarrow> unmarshal c zero s = Inr x)"

definition has_body :: "key_space \<Rightarrow> DB codec \<Rightarrow> kvs \<Rightarrow> int \<Rightarrow> string \<Rightarrow> bool" where
  "has_body ks dc m i n \<longleftrightarrow>
     (\<exists>b db. map_of m (DBKeyBody ks i) = Some b \<and> unmarshal dc new_db b = Inr db \<and>
        db_Id db = i \<and> db_Name db = n)"

definition dbs_wf :: "key_space \<Rightarrow> cast_lib \<Rightarrow> DB codec \<Rightarrow> kvs \<Rightarrow> bool" where
  "dbs_wf ks cl dc m \<longleftrightarrow>
     (\<forall>i n. map_of m (DBKeyId ks i) = Some n \<longrightarrow>
        n \<noteq> [] \<and> - (2 ^ 63) \<le> i \<and> i < 2 ^ 63 \<and>
        map_of m (DBKeyName ks n) = Some (ToString cl i) \<and> has_body ks dc m i n) \<and>
     (\<forall>n v. map_of m (DBKeyName ks n) = Some v \<longrightarrow>
        (\<exists>i. v = ToString cl i \<and> map_of m (DBKeyId ks i) = Some n)) \<and>
     (\<forall>i b. map_of m (DBKeyBody ks i) = Some b \<longrightarrow> map_of m (DBKeyId ks i) \<noteq> None)"

lemma dbs_wf_empty: "dbs_wf ks cl dc []"
  by (simp add: dbs_wf_def)

lemma dbs_wf_cong:
  assumes "\<And>i. map_of m' (DBKeyId ks i) = map_of m (DBKeyId ks i)"
    and "\<And>n. map_of m' (DBKeyName ks n) = map_of m (DBKeyName ks n)"
    and "\<And>i. map_of m' (DBKeyBody ks i) = map_of m (DBKeyBody ks i)"
  shows "dbs_wf ks cl dc m' = dbs_wf ks cl dc m"
  by (simp add: dbs_wf_def has_body_def assms)

lemma seq_not_db_key [simp]:
  "DBIdSequence (cluster_keys c) \<noteq> DBKeyId (cluster_keys c) i"
  "DBIdSequence (cluster_keys c) \<noteq> DBKeyName (cluster_keys c) n"
  "DBIdSequence (cluster_keys c) \<noteq> DBKeyBody (cluster_keys c) i"
  "DBKeyId (cluster_keys c) i \<noteq> DBIdSequence (cluster_keys c)"
  "DBKeyName (cluster_keys c) n \<noteq> DBIdSequence (cluster_keys c)"
  "DBKeyBody (cluster_keys c) i \<noteq> DBIdSequence (cluster_keys c)"
  by (simp_all add: key_defs cluster_keys_defs Let_def)

lemma dbs_wf_seq [simp]:
  "dbs_wf (cluster_keys c) cl dc (AList.update (DBIdSequence (cluster_keys c)) v m) =
     dbs_wf (cluster_keys c) cl dc m"
  by (rule dbs_wf_cong) (simp_all add: update_conv')

lemma casts_inj:
  "casts_int64 cl \<Longrightarrow> - (2 ^ 63) \<le> i \<Longrightarrow> i < 2 ^ 63 \<Longrightarrow> - (2 ^ 63) \<le> j \<Longrightarrow> j < 2 ^ 63 \<Longrightarrow>
     ToString cl i = ToString cl j \<longleftrightarrow> i = j"
  unfolding casts_int64_def by (metis Inr_inject)

text \<open>The three writes of a creation.\<close>

definition put_db :: "key_space \<Rightarrow> cast_lib \<Rightarrow> DB \<Rightarrow> string \<Rightarrow> kvs \<Rightarrow> kvs" where
  "put_db ks cl db val m =
     AList.update (DBKeyBody ks (db_Id db)) val
       (AList.update (DBKeyId ks (db_Id db)) (db_Name db)
         (AList.update (DBKeyName ks (db_Name db)) (ToString cl (db_Id db)) m))"

lemma put_db_lookups [simp]:
  "map_of (put_db ks cl db val m) (DBKeyBody ks i) =
     (if i = db_Id db then Some val else map_of m (DBKeyBody ks i))"
  "map_of (put_db ks cl db val m) (DBKeyId ks i) =
     (if i = db_Id db then Some (db_Name db) else map_of m (DBKeyId ks i))"
  "map_of (put_db ks cl db val m) (DBKeyName ks n) =
     (if n = db_Name db then Some (ToString cl (db_Id db)) else map_of m (DBKeyName ks n))"
  by (simp_all add: put_db_def update_conv')

lemma create_db_stm_Inr:
  assumes "create_db_stm ks cl dc db m = (Inr u, m')"
  shows "map_of m (DBKeyName ks (db_Name db)) \<in> {None, Some []} \<and>
    map_of m (DBKeyId ks (db_Id db)) \<in> {None, Some []} \<and>
    (\<exists>val. marshal dc db = Inr val \<and> m' = put_db ks cl db val m)"
  using assms
  by (auto simp: create_db_stm_def DBKeys_def bindA_def put_db_def split: if_splits option.splits sum.splits)

lemma dbs_wf_id:
  "dbs_wf ks cl dc m \<Longrightarrow> map_of m (DBKeyId ks i) = Some n \<Longrightarrow>
     n \<noteq> [] \<and> - (2 ^ 63) \<le> i \<and> i < 2 ^ 63 \<and>
     map_of m (DBKeyName ks n) = Some (ToString cl i) \<and> has_body ks dc m i n"
  unfolding dbs_wf_def by blast

lemma dbs_wf_name:
  "dbs_wf ks cl dc m \<Longrightarrow> map_of m (DBKeyName ks n) = Some v \<Longrightarrow>
     \<exists>i. v = ToString cl i \<and> map_of m (DBKeyId ks i) = Some n"
  unfolding dbs_wf_def by blast

lemma dbs_wf_body:
  "dbs_wf ks cl dc m \<Longrightarrow> map_of m (DBKeyBody ks i) = Some b \<Longrightarrow> \<exists>n. map_of m (DBKeyId ks i) = Some n"
  unfolding dbs_wf_def by blast

lemma dbs_wfI:
  assumes "\<And>i n. map_of m (DBKeyId ks i) = Some n \<Longrightarrow>
      n \<noteq> [] \<and> - (2 ^ 63) \<le> i \<and> i < 2 ^ 63 \<and>
      map_of m (DBKeyName ks n) = Some (ToString cl i) \<and> has_body ks dc m i n"
    and "\<And>n v. map_of m (DBKeyName ks n) = Some v \<Longrightarrow>
      \<exists>i. v = ToString cl i \<and> map_of m (DBKeyId ks i) = Some n"
    and "\<And>i b. map_of m (DBKeyBody ks i) = Some b \<Longrightarrow> map_of m (DBKeyId ks i) \<noteq> None"
  shows "dbs_wf ks cl dc m"
  unfolding dbs_wf_def using assms by blast

text \<open>A name or a number that the transaction finds free is not in use.\<close>

lemma dbs_wf_free_name:
  assumes "dbs_wf ks cl dc m" and "casts_int64 cl" and "map_of m (DBKeyName ks n) \<in> {None, Some []}"
  shows "map_of m (DBKeyName ks n) = None"
proof (rule ccontr)
  assume "map_of m (DBKeyName ks n) \<noteq> None"
  with assms(3) have e: "map_of m (DBKeyName ks n) = Some []" by simp
  from dbs_wf_name [OF assms(1) e] obtain i where i: "[] = ToString cl i" "map_of m (DBKeyId ks i) = Some n"
    by blast
  from dbs_wf_id [OF assms(1) i(2)] assms(2) have "ToString cl i \<noteq> []" by (simp add: casts_int64_def)
  with i(1) show False by simp
qed

lemma dbs_wf_free_id:
  assumes "dbs_wf ks cl dc m" and "map_of m (DBKeyId ks i) \<in> {None, Some []}"
  shows "map_of m (DBKeyId ks i) = None"
  using dbs_wf_id [OF assms(1), of i "[]"] assms(2) by auto

lemma dbs_wf_put:
  assumes wf: "dbs_wf ks cl dc m" and "casts_int64 cl" and "lossless dc new_db"
    and "db_Name db \<noteq> []" and "- (2 ^ 63) \<le> db_Id db" and "db_Id db < 2 ^ 63"
    and "map_of m (DBKeyName ks (db_Name db)) \<in> {None, Some []}"
    and "map_of m (DBKeyId ks (db_Id db)) \<in> {None, Some []}"
    and "marshal dc db = Inr val"
  shows "dbs_wf ks cl dc (put_db ks cl db val m)"
proof -
  have i: "map_of m (DBKeyId ks (db_Id db)) = None" using dbs_wf_free_id [OF wf assms(8)] .
  have nm: "map_of m (DBKeyName ks (db_Name db)) = None" using dbs_wf_free_name [OF wf assms(2,7)] .
  have "unmarshal dc new_db val = Inr db" using assms(3,9) by (simp add: lossless_def)
  then have hb: "has_body ks dc (put_db ks cl db val m) j n \<longleftrightarrow>
      (if j = db_Id db then n = db_Name db else has_body ks dc m j n)" for j n
    by (auto simp: has_body_def)
  show ?thesis
  proof (rule dbs_wfI)
    fix j n
    assume "map_of (put_db ks cl db val m) (DBKeyId ks j) = Some n"
    then show "n \<noteq> [] \<and> - (2 ^ 63) \<le> j \<and> j < 2 ^ 63 \<and>
        map_of (put_db ks cl db val m) (DBKeyName ks n) = Some (ToString cl j) \<and>
        has_body ks dc (put_db ks cl db val m) j n"
      using assms(4-6) dbs_wf_id [OF wf, of j n] nm hb by (auto split: if_splits)
  next
    fix n v
    assume "map_of (put_db ks cl db val m) (DBKeyName ks n) = Some v"
    then show "\<exists>j. v = ToString cl j \<and> map_of (put_db ks cl db val m) (DBKeyId ks j) = Some n"
      using dbs_wf_name [OF wf, of n v] i by (fastforce split: if_splits)
  next
    fix j b
    assume "map_of (put_db ks cl db val m) (DBKeyBody ks j) = Some b"
    then show "map_of (put_db ks cl db val m) (DBKeyId ks j) \<noteq> None"
      using dbs_wf_body [OF wf, of j b] by (auto split: if_splits)
  qed
qed

text \<open>The three deletions.\<close>

lemma delete_db_stm_eq:
  "delete_db_stm ks db m =
     (Inr (), AList.delete (DBKeyBody ks (db_Id db))
        (AList.delete (DBKeyName ks (db_Name db)) (AList.delete (DBKeyId ks (db_Id db)) m)))"
  by (simp add: delete_db_stm_def DBKeys_def bindA_def)

lemma dbs_wf_delete:
  assumes wf: "dbs_wf ks cl dc m" and "casts_int64 cl"
    and d: "map_of m (DBKeyId ks (db_Id db)) = Some (db_Name db)"
    and "delete_db_stm ks db m = (Inr u, m')"
  shows "dbs_wf ks cl dc m'"
proof -
  have look: "map_of m' (DBKeyBody ks i) = (if i = db_Id db then None else map_of m (DBKeyBody ks i))"
    "map_of m' (DBKeyId ks i) = (if i = db_Id db then None else map_of m (DBKeyId ks i))"
    "map_of m' (DBKeyName ks n) = (if n = db_Name db then None else map_of m (DBKeyName ks n))" for i n
    using assms(4) by (auto simp: delete_db_stm_eq delete_conv')
  note own = dbs_wf_id [OF wf d]
  have hb: "has_body ks dc m' j n" if "has_body ks dc m j n" "j \<noteq> db_Id db" for j n
    using that by (simp add: has_body_def look)
  have other: "n \<noteq> db_Name db" if "map_of m (DBKeyId ks j) = Some n" "j \<noteq> db_Id db" for j n
    using dbs_wf_id [OF wf that(1)] own casts_inj [OF assms(2), of j "db_Id db"] that(2) by auto
  show ?thesis
  proof (rule dbs_wfI)
    fix j n
    assume "map_of m' (DBKeyId ks j) = Some n"
    then show "n \<noteq> [] \<and> - (2 ^ 63) \<le> j \<and> j < 2 ^ 63 \<and>
        map_of m' (DBKeyName ks n) = Some (ToString cl j) \<and> has_body ks dc m' j n"
      using dbs_wf_id [OF wf, of j n] hb other by (auto simp: look split: if_splits)
  next
    fix n v
    assume "map_of m' (DBKeyName ks n) = Some v"
    then have n: "n \<noteq> db_Name db" "map_of m (DBKeyName ks n) = Some v" by (auto simp: look split: if_splits)
    from dbs_wf_name [OF wf n(2)] obtain j where j: "v = ToString cl j" "map_of m (DBKeyId ks j) = Some n"
      by blast
    with n(1) d have "j \<noteq> db_Id db" by auto
    with j show "\<exists>j. v = ToString cl j \<and> map_of m' (DBKeyId ks j) = Some n" by (auto simp: look)
  next
    fix j b
    assume "map_of m' (DBKeyBody ks j) = Some b"
    then show "map_of m' (DBKeyId ks j) \<noteq> None"
      using dbs_wf_body [OF wf, of j b] by (auto simp: look split: if_splits)
  qed
qed

section \<open>Every operation keeps it\<close>

lemma keeps_scans:
  assumes "\<And>m. P m \<Longrightarrow> E m"
  shows "triple P (QueryServers ks vc) (\<lambda>_. P) E" "triple P (QuerySpaces ks sc d) (\<lambda>_. P) E"
    "triple P (limit_dbs ks limited) (\<lambda>_. P) E" "triple P (validatePS ks vc cl live psList) (\<lambda>_. P) E"
  unfolding QueryServers_def QuerySpaces_def QuerySpacesByKey_def limit_dbs_def validatePS_def
  by (intro triple_rules triple_bindA [where R = "\<lambda>_. P"] assms; assumption)+

lemma triple_NewIDGenerate:
  assumes "\<And>m v. I m \<Longrightarrow> I (AList.update key v m)" and "- (2 ^ 63) \<le> bas" and "bas < 2 ^ 63"
  shows "triple I (NewIDGenerate key bas) (\<lambda>i m. I m \<and> - (2 ^ 63) \<le> i \<and> i < 2 ^ 63) I"
  unfolding NewIDGenerate_body
proof (rule triple_STM)
  fix m i m'
  assume "I m" and "id_body key bas m = (Inr i, m')"
  then show "(I m' \<and> - (2 ^ 63) \<le> i \<and> i < 2 ^ 63) \<and> I m'"
    using assms int64_range by (auto simp: id_body_def bindA_def Let_def split: if_splits option.splits sum.splits)
qed

lemma triple_pure: "(b \<Longrightarrow> triple P act Q E) \<Longrightarrow> triple (\<lambda>m. P m \<and> b) act Q E"
  by (cases b) (simp_all add: triple_def)

text \<open>The database that \<^verbatim>\<open>QueryDB\<close> finds is the one that its number stands for.\<close>

definition registered :: "key_space \<Rightarrow> DB \<Rightarrow> kvs \<Rightarrow> bool" where
  "registered ks db m \<longleftrightarrow> map_of m (DBKeyId ks (db_Id db)) = Some (db_Name db)"

lemma dbs_wf_decode:
  assumes "dbs_wf ks cl dc m" and "map_of m (DBKeyBody ks i) = Some b" and "unmarshal dc new_db b = Inr db"
  shows "db_Id db = i \<and> registered ks db m"
proof -
  from dbs_wf_body [OF assms(1,2)] obtain n where n: "map_of m (DBKeyId ks i) = Some n" by blast
  from dbs_wf_id [OF assms(1) n] have "has_body ks dc m i n" by blast
  with n assms(2,3) show ?thesis by (auto simp: has_body_def registered_def)
qed

lemma triple_QueryDB:
  "triple (dbs_wf ks cl dc) (QueryDB ks nt cl dc dbName)
     (\<lambda>db m. dbs_wf ks cl dc m \<and> registered ks db m) (dbs_wf ks cl dc)"
  unfolding QueryDB_def
proof (rule triple_bindA [where R = "\<lambda>_. dbs_wf ks cl dc"])
  show "keeps (dbs_wf ks cl dc) (db_number ks nt cl dbName)"
    unfolding db_number_def QueryDBName2ID_def
    by (intro triple_rules triple_bindA [where R = "\<lambda>_. dbs_wf ks cl dc"])
      (auto split: option.splits intro!: triple_rules)
next
  fix i
  show "triple (dbs_wf ks cl dc)
     (bindA (Get (DBKeyBody ks i)) (\<lambda>bs. case bs of None \<Rightarrow> fail (NewError DB_NOT_EXIST None)
        | Some b \<Rightarrow> lift (unmarshal dc new_db b)))
     (\<lambda>db m. dbs_wf ks cl dc m \<and> registered ks db m) (dbs_wf ks cl dc)"
    by (rule triple_bindA [where R = "\<lambda>bs m. dbs_wf ks cl dc m \<and> map_of m (DBKeyBody ks i) = bs"])
      (auto split: option.splits intro!: triple_rules dest: dbs_wf_decode)
qed

lemma triple_CreateDB:
  assumes "casts_int64 cl" and "lossless dc new_db"
  shows "triple (dbs_wf (cluster_keys c) cl dc) (CreateDB (cluster_keys c) nt cl dc vc live limited db)
     (\<lambda>db m. dbs_wf (cluster_keys c) cl dc m \<and> registered (cluster_keys c) db m)
     (dbs_wf (cluster_keys c) cl dc)"
proof -
  let ?I = "dbs_wf (cluster_keys c) cl dc"
  have stm: "triple ?I (STM (create_db_stm (cluster_keys c) cl dc db'))
      (\<lambda>_ m. ?I m \<and> registered (cluster_keys c) db' m) ?I"
    if "db_Name db' \<noteq> []" "- (2 ^ 63) \<le> db_Id db'" "db_Id db' < 2 ^ 63" for db'
  proof (rule triple_STM)
    fix m u m'
    assume I: "?I m" and e: "create_db_stm (cluster_keys c) cl dc db' m = (Inr u, m')"
    from create_db_stm_Inr [OF e] obtain val where val: "marshal dc db' = Inr val"
        "m' = put_db (cluster_keys c) cl db' val m"
        "map_of m (DBKeyName (cluster_keys c) (db_Name db')) \<in> {None, Some []}"
        "map_of m (DBKeyId (cluster_keys c) (db_Id db')) \<in> {None, Some []}" by blast
    from dbs_wf_put [OF I assms that val(3,4,1)] val(2)
    show "(?I m' \<and> registered (cluster_keys c) db' m') \<and> ?I m'" by (simp add: registered_def)
  qed
  have lock: "triple (\<lambda>m. ?I m \<and> - (2 ^ 63) \<le> i \<and> i < 2 ^ 63)
      (let db' = db\<lparr>db_Id := i\<rparr> in
        bindA (with_lock (LockDBKey (cluster_keys c) (db_Name db)) (STM (create_db_stm (cluster_keys c) cl dc db')))
          (\<lambda>_. ret db'))
      (\<lambda>db m. ?I m \<and> registered (cluster_keys c) db m) ?I" if "db_Name db \<noteq> []" for i
    unfolding Let_def
    by (intro triple_pure triple_bindA [OF triple_with_lock [OF stm [of "db\<lparr>db_Id := i\<rparr>"]]] triple_ret)
      (use that in simp_all)
  have rest: "triple (\<lambda>m. ?I m \<and> db_Name db \<noteq> [])
      (bindA (validatePS (cluster_keys c) vc cl live (db_Ps db)) (\<lambda>_.
       bindA (NewIDGenerate (DBIdSequence (cluster_keys c)) 1) (\<lambda>i.
         let db' = db\<lparr>db_Id := i\<rparr> in
         bindA (with_lock (LockDBKey (cluster_keys c) (db_Name db)) (STM (create_db_stm (cluster_keys c) cl dc db')))
          (\<lambda>_. ret db'))))
      (\<lambda>db m. ?I m \<and> registered (cluster_keys c) db m) ?I"
    by (rule triple_pure, rule triple_bindA [OF keeps_scans(4)],
        assumption, rule triple_bindA [OF triple_NewIDGenerate]) (simp, simp, simp, rule lock)
  have "triple ?I (lift (DB_Validate nt db)) (\<lambda>_ m. ?I m \<and> db_Name db \<noteq> []) ?I"
    by (rule triple_lift) (auto simp: DB_Validate_def res_simps check_name_Inr_iff)
  from triple_bindA [OF keeps_scans(3) triple_bindA [OF this rest]]
  show ?thesis unfolding CreateDB_def by simp
qed

lemma keeps_DeleteDB:
  assumes "casts_int64 cl"
  shows "keeps (dbs_wf ks cl dc) (DeleteDB ks nt cl dc sc dbName)"
  unfolding DeleteDB_def
proof (rule triple_bindA [OF triple_QueryDB], rule triple_with_lock, rule triple_bindA [OF keeps_scans(2)])
  fix db and spaces :: "Space list"
  show "triple (\<lambda>m. dbs_wf ks cl dc m \<and> registered ks db m)
     (if length spaces > 0 then fail (NewError DB_NOT_EMPTY None) else STM (delete_db_stm ks db))
     (\<lambda>_. dbs_wf ks cl dc) (dbs_wf ks cl dc)"
    by (intro triple_if triple_fail triple_STM)
      (auto simp: registered_def intro: dbs_wf_delete [OF _ assms])
qed simp_all

lemma dbs_wf_update_body:
  assumes wf: "dbs_wf ks cl dc m" and "registered ks db m" and "unmarshal dc new_db val = Inr db"
  shows "dbs_wf ks cl dc (AList.update (DBKeyBody ks (db_Id db)) val m)"
proof (rule dbs_wfI)
  let ?m = "AList.update (DBKeyBody ks (db_Id db)) val m"
  fix i n
  assume "map_of ?m (DBKeyId ks i) = Some n"
  then have n: "map_of m (DBKeyId ks i) = Some n" by (simp add: update_conv')
  with assms(2,3) dbs_wf_id [OF wf n]
  show "n \<noteq> [] \<and> - (2 ^ 63) \<le> i \<and> i < 2 ^ 63 \<and>
      map_of ?m (DBKeyName ks n) = Some (ToString cl i) \<and> has_body ks dc ?m i n"
    by (auto simp: update_conv' has_body_def registered_def)
next
  let ?m = "AList.update (DBKeyBody ks (db_Id db)) val m"
  fix n v
  assume "map_of ?m (DBKeyName ks n) = Some v"
  then show "\<exists>i. v = ToString cl i \<and> map_of ?m (DBKeyId ks i) = Some n"
    using dbs_wf_name [OF wf, of n v] by (simp add: update_conv')
next
  let ?m = "AList.update (DBKeyBody ks (db_Id db)) val m"
  fix i b
  assume "map_of ?m (DBKeyBody ks i) = Some b"
  then show "map_of ?m (DBKeyId ks i) \<noteq> None"
    using dbs_wf_body [OF wf, of i b] assms(2) by (auto simp: update_conv' registered_def split: if_splits)
qed

lemma keeps_UpdateDBIpList:
  assumes "lossless dc new_db"
  shows "keeps (dbs_wf ks cl dc) (UpdateDBIpList ks nt cl dc dbModify)"
  unfolding UpdateDBIpList_def
proof (rule triple_bindA [OF triple_QueryDB], rule triple_bindA)
  fix db
  show "triple (\<lambda>m. dbs_wf ks cl dc m \<and> registered ks db m)
      (lift (modify_ps (dm_Method dbModify) (dm_IPAddr dbModify) (db_Ps db)))
      (\<lambda>_ m. dbs_wf ks cl dc m \<and> registered ks db m) (dbs_wf ks cl dc)"
    by (rule triple_lift) auto
  fix ps
  have "triple (\<lambda>m. dbs_wf ks cl dc m \<and> registered ks db m) (lift (marshal dc (db\<lparr>db_Ps := ps\<rparr>)))
      (\<lambda>val m. (dbs_wf ks cl dc m \<and> registered ks (db\<lparr>db_Ps := ps\<rparr>) m) \<and>
         unmarshal dc new_db val = Inr (db\<lparr>db_Ps := ps\<rparr>)) (dbs_wf ks cl dc)"
    by (rule triple_lift) (use assms in \<open>auto simp: registered_def lossless_def\<close>)
  then show "triple (\<lambda>m. dbs_wf ks cl dc m \<and> registered ks db m)
      (let db' = db\<lparr>db_Ps := ps\<rparr> in
       bindA (lift (marshal dc db')) (\<lambda>val. bindA (Put (DBKeyBody ks (db_Id db')) val) (\<lambda>_. ret db')))
      (\<lambda>_. dbs_wf ks cl dc) (dbs_wf ks cl dc)"
    unfolding Let_def
    by (rule triple_bindA, intro triple_pure triple_bindA [OF triple_Put [where Q = "\<lambda>_. dbs_wf ks cl dc"]] triple_ret)
      (use dbs_wf_update_body [of ks cl dc _ "db\<lparr>db_Ps := ps\<rparr>"] in auto)
qed

text \<open>Requests one after the other, with what the network does to them in the world.\<close>

datatype db_request = ReqCreate DB | ReqDelete string | ReqUpdate DBModify

fun serve ::
  "key_space \<Rightarrow> (nat \<Rightarrow> bool) \<Rightarrow> cast_lib \<Rightarrow> DB codec \<Rightarrow> Server codec \<Rightarrow> Space codec \<Rightarrow> (string \<Rightarrow> bool) \<Rightarrow> bool \<Rightarrow>
     db_request \<Rightarrow> world \<Rightarrow> world" where
  "serve ks nt cl dc vc sc live limited (ReqCreate db) w = snd (CreateDB ks nt cl dc vc live limited db w)"
| "serve ks nt cl dc vc sc live limited (ReqDelete n) w = snd (DeleteDB ks nt cl dc sc n w)"
| "serve ks nt cl dc vc sc live limited (ReqUpdate u) w = snd (UpdateDBIpList ks nt cl dc u w)"

lemma serve_keeps:
  assumes "casts_int64 cl" and "lossless dc new_db" and "dbs_wf (cluster_keys c) cl dc (kv w)"
  shows "dbs_wf (cluster_keys c) cl dc (kv (serve (cluster_keys c) nt cl dc vc sc live limited r w))"
proof (cases r)
  case (ReqCreate db)
  have "keeps (dbs_wf (cluster_keys c) cl dc) (CreateDB (cluster_keys c) nt cl dc vc live limited db)"
    by (rule triple_weaken [OF triple_CreateDB [OF assms(1,2)]]) auto
  from keepsD [OF this assms(3)] ReqCreate show ?thesis by simp
next
  case (ReqDelete n)
  with keepsD [OF keeps_DeleteDB [OF assms(1)] assms(3)] show ?thesis by simp
next
  case (ReqUpdate u)
  with keepsD [OF keeps_UpdateDBIpList [OF assms(2)] assms(3)] show ?thesis by simp
qed

section \<open>On a network without faults\<close>

lemma check_name_not_num: "check_name nt n = Inr u \<Longrightarrow> \<not> IsNum nt n"
  by (cases "runes n") (auto simp: IsNum_def check_name_def)

lemma QueryDB_calm:
  assumes "calm w" and "casts_int64 cl" and "dbs_wf ks cl dc (kv w)" and "\<not> IsNum nt n"
  shows "QueryDB ks nt cl dc n w =
    (case map_of (kv w) (DBKeyName ks n) of
       None \<Rightarrow> (Inl (NewError DB_NOT_EXIST None), tick w)
     | Some v \<Rightarrow>
         (unmarshal dc new_db (the (map_of (kv w) (DBKeyBody ks (ToInt64 cl v)))), tick (tick w)))"
proof (cases "map_of (kv w) (DBKeyName ks n)")
  case None
  then show ?thesis
    using assms(1,4) by (simp add: QueryDB_def db_number_def QueryDBName2ID_def bindA_def calm_simps)
next
  case (Some v)
  obtain i where i: "v = ToString cl i" "map_of (kv w) (DBKeyId ks i) = Some n"
    using dbs_wf_name [OF assms(3) Some] by blast
  note wf = dbs_wf_id [OF assms(3) i(2)]
  then have "ToInt64E cl v = Inr i" using assms(2) i(1) by (simp add: casts_int64_def)
  moreover obtain b where "map_of (kv w) (DBKeyBody ks i) = Some b" using wf by (auto simp: has_body_def)
  ultimately show ?thesis
    using assms(1,4) Some
    by (simp add: QueryDB_def db_number_def QueryDBName2ID_def bindA_def calm_simps ToInt64_def)
qed

lemma validatePS_calm:
  "calm w \<Longrightarrow> \<exists>w'. snd (validatePS ks vc cl live ps w) = w' \<and> calm w' \<and> kv w' = kv w"
  by (auto simp: validatePS_def QueryServers_def bindA_def calm_simps)

lemma NewIDGenerate_calm:
  assumes "calm w" and "counter key bas k (kv w)" and "- (2 ^ 63) \<le> k" and "k < 2 ^ 63 - 1"
  shows "NewIDGenerate key bas w =
    (Inr (k + 1), (tick w)\<lparr>kv := AList.update key (FormatInt (k + 1)) (kv w)\<rparr>)"
  using id_body_counter [OF assms(2-4)] assms(1) by (simp add: NewIDGenerate_body calm_simps)

lemma create_db_stm_new:
  "map_of m (DBKeyName ks (db_Name db)) = None \<Longrightarrow> map_of m (DBKeyId ks (db_Id db)) = None \<Longrightarrow>
     marshal dc db = Inr val \<Longrightarrow> create_db_stm ks cl dc db m = (Inr (), put_db ks cl db val m)"
  by (simp add: create_db_stm_def DBKeys_def bindA_def put_db_def)

lemma CreateDB_calm:
  fixes c :: string
  defines "ks \<equiv> cluster_keys c"
  assumes "calm w" and "DB_Validate nt db = Inr ()"
    and "fst (validatePS ks vc cl live (db_Ps db) w) = Inr ()"
    and "counter (DBIdSequence ks) 1 k (kv w)" and "- (2 ^ 63) \<le> k" and "k < 2 ^ 63 - 1"
    and "map_of (kv w) (DBKeyName ks (db_Name db)) = None" and "map_of (kv w) (DBKeyId ks (k + 1)) = None"
    and "marshal dc (db\<lparr>db_Id := k + 1\<rparr>) = Inr val"
  shows "\<exists>w'. CreateDB ks nt cl dc vc live False db w = (Inr (db\<lparr>db_Id := k + 1\<rparr>), w') \<and> calm w' \<and>
    kv w' = put_db ks cl (db\<lparr>db_Id := k + 1\<rparr>) val
      (AList.update (DBIdSequence ks) (FormatInt (k + 1)) (kv w))"
proof -
  obtain w1 where v: "validatePS ks vc cl live (db_Ps db) w = (Inr (), w1)" "calm w1" "kv w1 = kv w"
    using validatePS_calm [OF assms(2), of ks vc cl live "db_Ps db"] assms(4) by (metis prod.collapse)
  define m2 where "m2 = AList.update (DBIdSequence ks) (FormatInt (k + 1)) (kv w)"
  define w2 where "w2 = (tick w1)\<lparr>kv := m2\<rparr>"
  have i: "NewIDGenerate (DBIdSequence ks) 1 w1 = (Inr (k + 1), w2)"
    unfolding w2_def m2_def using NewIDGenerate_calm [OF v(2), of "DBIdSequence ks" 1 k] assms(5-7) v(3) by simp
  have w2: "calm w2" "kv w2 = m2" using v(2) by (simp_all add: w2_def)
  have "create_db_stm ks cl dc (db\<lparr>db_Id := k + 1\<rparr>) m2 =
      (Inr (), put_db ks cl (db\<lparr>db_Id := k + 1\<rparr>) val m2)"
    using assms(8-10) by (intro create_db_stm_new) (simp_all add: m2_def ks_def update_conv')
  then have "\<exists>w'. with_lock l (STM (create_db_stm ks cl dc (db\<lparr>db_Id := k + 1\<rparr>))) w2 = (Inr (), w') \<and>
      calm w' \<and> kv w' = put_db ks cl (db\<lparr>db_Id := k + 1\<rparr>) val m2" for l
    using w2 by (simp add: with_lock_def calm_simps)
  then obtain w' where "with_lock (LockDBKey ks (db_Name db)) (STM (create_db_stm ks cl dc (db\<lparr>db_Id := k + 1\<rparr>))) w2
      = (Inr (), w')" "calm w'" "kv w' = put_db ks cl (db\<lparr>db_Id := k + 1\<rparr>) val m2" by blast
  then show ?thesis
    using assms(3) v(1) i by (simp add: CreateDB_def limit_dbs_def bindA_def m2_def Let_def)
qed

lemma DeleteDB_calm:
  assumes "calm w" and "QueryDB ks nt cl dc n w = (Inr db, w1)" and "calm w1" and "kv w1 = kv w"
  shows "\<exists>w'. calm w' \<and> DeleteDB ks nt cl dc sc n w =
    (if fst (QuerySpaces ks sc (db_Id db) w) = Inr [] then (Inr (), w') else (Inl (NewError DB_NOT_EMPTY None), w')) \<and>
    kv w' = (if fst (QuerySpaces ks sc (db_Id db) w) = Inr [] then snd (delete_db_stm ks db (kv w)) else kv w)"
proof -
  let ?spaces = "scan_decode sc empty_space
    (sort_key fst (filter (\<lambda>(k, v). HasPrefix k (SpacesPrefix ks (db_Id db))) (kv w)))"
  have q: "QuerySpaces ks sc (db_Id db) (tick w1) = (Inr ?spaces, tick (tick w1))"
    "fst (QuerySpaces ks sc (db_Id db) w) = Inr ?spaces"
    using assms by (simp_all add: QuerySpaces_calm)
  show ?thesis
    using assms q by (cases "?spaces = []")
      (simp_all add: DeleteDB_def bindA_def with_lock_def calm_simps delete_db_stm_eq)
qed

section \<open>Properties\<close>

text \<open>
  C5: the three keys of every database agree at all times. After any sequence of creations, deletions
  and changes of the server list, and whatever calls to etcd failed on the way with or without effect,
  every number leads to a name that leads back to it and to a description with that number and
  name, and there is no name or description without its number.
\<close>

theorem databases_stay_consistent:
  assumes "casts_int64 cl" and "lossless dc new_db" and "dbs_wf (cluster_keys c) cl dc (kv w)"
  shows "dbs_wf (cluster_keys c) cl dc
    (kv (fold (serve (cluster_keys c) nt cl dc vc sc live limited) requests w))"
  using assms(3)
proof (induction requests arbitrary: w)
  case (Cons r rs)
  from serve_keeps [OF assms(1,2) Cons.prems] have
    "dbs_wf (cluster_keys c) cl dc (kv (serve (cluster_keys c) nt cl dc vc sc live limited r w))" .
  from Cons.IH [OF this] show ?case by simp
qed simp

definition demo_db_codec :: "DB codec" where
  "demo_db_codec =
     \<lparr> marshal = (\<lambda>db. if db_Ps db = [] \<and> - (2 ^ 63) \<le> db_Id db \<and> db_Id db < 2 ^ 63
          then Inr (FormatInt (db_Id db) @ CHR ''/'' # db_Name db) else Inl (GoErr ''unsupported'')),
       unmarshal = (\<lambda>b s. bind_res (ParseInt (takeWhile (\<lambda>c. c \<noteq> CHR ''/'') s)) (\<lambda>i.
          Inr \<lparr> db_Id = i, db_Name = tl (dropWhile (\<lambda>c. c \<noteq> CHR ''/'') s), db_Ps = [] \<rparr>)) \<rparr>"

lemma demo_db_lossless: "lossless demo_db_codec new_db"
proof -
  have "dropWhile (\<lambda>c. c \<noteq> CHR ''/'') (FormatInt i @ CHR ''/'' # n) = CHR ''/'' # n" for i n
    using FormatInt_no_slash [of i] by (subst dropWhile_append2) auto
  then show ?thesis
    by (auto simp: lossless_def demo_db_codec_def takeWhile_sep_append ParseInt_FormatInt split: if_splits)
qed

lemma demo_casts: "casts_int64 demo_cast"
  by (simp add: casts_int64_def demo_cast_def ParseInt_FormatInt)

theorem databases_stay_consistent_witness:
  "dbs_wf (cluster_keys ''c1'') demo_cast demo_db_codec
    (kv (fold (serve (cluster_keys ''c1'') (\<lambda>r. False) demo_cast demo_db_codec
        \<lparr> marshal = (\<lambda>s. Inr ''{}''), unmarshal = (\<lambda>b s. Inr b) \<rparr> demo_space_codec (\<lambda>a. True) False)
      [ReqCreate \<lparr> db_Id = 0, db_Name = ''ts'', db_Ps = [] \<rparr>, ReqCreate \<lparr> db_Id = 0, db_Name = ''ts'', db_Ps = [] \<rparr>,
       ReqDelete ''ts'']
      \<lparr> kv = [], faults = [NoFault, NoFault, Unconfirmed (GoErr ''timeout''), Lost (GoErr ''timeout'')] \<rparr>))"
  by (rule databases_stay_consistent [OF demo_casts demo_db_lossless]) (simp add: dbs_wf_empty)

text \<open>
  A database that was created is found under its name, with the next number of the sequence,
  until it is deleted, and a database with spaces is not deleted. On a network without faults,
  creating a database under a free valid name succeeds and \<^verbatim>\<open>QueryDB\<close> then returns it; deleting it
  makes it unknown if it has no space and is refused without effect if it has one.
\<close>

theorem database_life_cycle:
  assumes ks_def: "ks = cluster_keys c" and "casts_int64 cl" and "lossless dc new_db" and "dbs_wf ks cl dc (kv w)"
    and "calm w" and "DB_Validate nt db = Inr ()"
    and "fst (validatePS ks vc cl live (db_Ps db) w) = Inr ()"
    and "counter (DBIdSequence ks) 1 k (kv w)" and "- (2 ^ 63) \<le> k" and "k < 2 ^ 63 - 1"
    and "map_of (kv w) (DBKeyName ks (db_Name db)) = None" and "map_of (kv w) (DBKeyId ks (k + 1)) = None"
    and "marshal dc (db\<lparr>db_Id := k + 1\<rparr>) = Inr val"
  shows "\<exists>w1. CreateDB ks nt cl dc vc live False db w = (Inr (db\<lparr>db_Id := k + 1\<rparr>), w1) \<and>
    fst (QueryDB ks nt cl dc (db_Name db) w1) = Inr (db\<lparr>db_Id := k + 1\<rparr>) \<and>
    (if fst (QuerySpaces ks sc (k + 1) w1) = Inr []
     then \<exists>w2. DeleteDB ks nt cl dc sc (db_Name db) w1 = (Inr (), w2) \<and>
       fst (QueryDB ks nt cl dc (db_Name db) w2) = Inl (NewError DB_NOT_EXIST None)
     else fst (DeleteDB ks nt cl dc sc (db_Name db) w1) = Inl (NewError DB_NOT_EMPTY None) \<and>
       kv (snd (DeleteDB ks nt cl dc sc (db_Name db) w1)) = kv w1)"
proof -
  let ?db = "db\<lparr>db_Id := k + 1\<rparr>" and ?n = "db_Name db"
  obtain w1 where w1: "CreateDB ks nt cl dc vc live False db w = (Inr ?db, w1)" "calm w1"
      "kv w1 = put_db ks cl ?db val (AList.update (DBIdSequence ks) (FormatInt (k + 1)) (kv w))"
    using CreateDB_calm [of w nt db c vc cl live k dc val] assms(5-13) unfolding ks_def by blast
  have wf1: "dbs_wf ks cl dc (kv w1)"
    using tripleD [OF triple_CreateDB [OF assms(2,3)], of c w] assms(4) w1(1) unfolding ks_def by fastforce
  have num: "\<not> IsNum nt ?n"
    using assms(6) check_name_not_num by (force simp: DB_Validate_def res_simps)
  have "ToInt64 cl (ToString cl (k + 1)) = k + 1" using assms(2,9,10) by (simp add: casts_int64_def ToInt64_def)
  then have q: "QueryDB ks nt cl dc ?n w1 = (Inr ?db, tick (tick w1))"
    using QueryDB_calm [OF w1(2) assms(2) wf1 num] assms(3,13) by (simp add: w1(3) lossless_def)
  obtain w2 where w2: "calm w2" "DeleteDB ks nt cl dc sc ?n w1 =
      (if fst (QuerySpaces ks sc (k + 1) w1) = Inr [] then (Inr (), w2) else (Inl (NewError DB_NOT_EMPTY None), w2))"
      "kv w2 = (if fst (QuerySpaces ks sc (k + 1) w1) = Inr [] then snd (delete_db_stm ks ?db (kv w1)) else kv w1)"
    using DeleteDB_calm [OF w1(2) q, of sc] w1(2) by auto
  have "dbs_wf ks cl dc (kv w2)"
    using keepsD [OF keeps_DeleteDB [OF assms(2)] wf1, of nt sc ?n] w2(2) by (auto split: if_splits)
  from QueryDB_calm [OF w2(1) assms(2) this num] have
    "fst (QuerySpaces ks sc (k + 1) w1) = Inr [] \<Longrightarrow>
       fst (QueryDB ks nt cl dc ?n w2) = Inl (NewError DB_NOT_EXIST None)"
    by (simp add: w2(3) delete_db_stm_eq delete_conv')
  with w1(1) q w2 show ?thesis by auto
qed

theorem database_life_cycle_witness:
  "\<exists>w1. CreateDB (cluster_keys ''c1'') (\<lambda>r. False) demo_cast demo_db_codec
      \<lparr> marshal = (\<lambda>s. Inr ''{}''), unmarshal = (\<lambda>b s. Inr b) \<rparr> (\<lambda>a. True) False \<lparr> db_Id = 0, db_Name = ''ts'', db_Ps = [] \<rparr>
      \<lparr> kv = [], faults = [] \<rparr> = (Inr \<lparr> db_Id = 1, db_Name = ''ts'', db_Ps = [] \<rparr>, w1) \<and>
    fst (QueryDB (cluster_keys ''c1'') (\<lambda>r. False) demo_cast demo_db_codec ''ts'' w1) =
      Inr \<lparr> db_Id = 1, db_Name = ''ts'', db_Ps = [] \<rparr>"
proof -
  have "check_name (\<lambda>r. False) ''ts'' = Inr ()"
    by (simp add: check_name_Inr_iff runes.simps(2) decode_rune_def forbidden_runes_def IsNumber_def)
  then have "DB_Validate (\<lambda>r. False) \<lparr> db_Id = 0, db_Name = ''ts'', db_Ps = [] \<rparr> = Inr ()"
    by (simp add: DB_Validate_def)
  moreover have "marshal demo_db_codec (\<lparr> db_Id = 0, db_Name = ''ts'', db_Ps = [] \<rparr>\<lparr>db_Id := 0 + 1\<rparr>) =
      Inr (FormatInt 1 @ ''/ts'')"
    by (simp add: demo_db_codec_def)
  ultimately show ?thesis
    using database_life_cycle [OF refl demo_casts demo_db_lossless, of "''c1''" "\<lparr> kv = [], faults = [] \<rparr>"
        "\<lambda>r. False" "\<lparr> db_Id = 0, db_Name = ''ts'', db_Ps = [] \<rparr>"
        "\<lparr> marshal = (\<lambda>s. Inr ''{}''), unmarshal = (\<lambda>b s. Inr b) \<rparr>" "\<lambda>a. True" 0 "FormatInt 1 @ ''/ts''"]
    by (fastforce simp: dbs_wf_empty calm_def validatePS_def counter_def)
qed

end
