(* ===== verification/RefCount.thy ===== *)
theory RefCount
  imports Store
begin

text \<open>
  The reference counts of backup files: \<^verbatim>\<open>internal/ps/backup/ref_count_manager.go\<close>, with
  \<^verbatim>\<open>retryOperation\<close> of \<^verbatim>\<open>ps_backup_service.go\<close>.

  The state is the map of counts, whether its mutex is held for writing, and the object store of
  type \<open>'e\<close>, whose operations are the parameter \<open>s3\<close>. A \<^verbatim>\<open>sync.RWMutex\<close> is not reentrant: a goroutine
  that asks for a lock while it holds it for writing waits for itself. So an operation returns an
  \<open>option\<close>, where \<open>None\<close> is a call that never returns. \<^verbatim>\<open>SaveToS3\<close> and \<^verbatim>\<open>deleteFileFromS3\<close> are fields of
  the manager, set by \<^verbatim>\<open>NewRefCountManager\<close> to \<open>saveToS3Impl\<close> and \<open>deleteFileFromS3Impl\<close>; they are
  arguments here.
\<close>

section \<open>State\<close>

record FileRefCount =
  fr_CRC32 :: string
  fr_S3Path :: string
  fr_RefCount :: int
  fr_Size :: int
  fr_CreatedAt :: int
  fr_LastUpdatedAt :: int
  fr_Versions :: "string list"

record 'e rcm =
  refCountMap :: "(string, FileRefCount) gomap"
  wlocked :: bool
  metadataPath :: string
  store :: 'e

text \<open>
  The calls to the object store and to the disk: reading an object (an error carries the code of the
  answer), storing a local file, removing an object, writing a temporary file; and the JSON text of
  the map.
\<close>

record 'e s3_lib =
  GetObject :: "string \<Rightarrow> 'e \<Rightarrow> ((string \<times> go_error) + string) \<times> 'e"
  FPutObject :: "string \<Rightarrow> string \<Rightarrow> ('e, unit) act"
  RemoveObject :: "string \<Rightarrow> ('e, unit) act"
  write_temp :: "string \<Rightarrow> ('e, unit) act"
  marshal_map :: "(string, FileRefCount) gomap \<Rightarrow> string res"
  decode_map :: "string \<Rightarrow> (string, FileRefCount) gomap \<Rightarrow> unit res \<times> (string, FileRefCount) gomap"

type_synonym ('e, 'a) blocking = "'e rcm \<Rightarrow> ('a res \<times> 'e rcm) option"

definition NewRefCountManager :: "string \<Rightarrow> 'e \<Rightarrow> 'e rcm" where
  "NewRefCountManager path e =
     \<lparr> refCountMap = [], wlocked = False, metadataPath = path, store = e \<rparr>"

section \<open>Retries\<close>

fun attempts :: "nat \<Rightarrow> ('e, 'a) act \<Rightarrow> ('e, 'a) act" where
  "attempts 0 operation s = (Inl (GoErr ''operation failed after attempts''), s)"
| "attempts (Suc n) operation s =
     (case operation s of
        (Inr x, s') \<Rightarrow> (Inr x, s')
      | (Inl _, s') \<Rightarrow> attempts n operation s')"

text \<open>\<open>for attempt := 0; attempt <= maxRetries; attempt++\<close>: one try more than \<^verbatim>\<open>maxRetries\<close>.\<close>

definition retryOperation :: "('e, 'a) act \<Rightarrow> nat \<Rightarrow> ('e, 'a) act" where
  "retryOperation operation maxRetries = attempts (maxRetries + 1) operation"

definition defaultRetries :: nat where
  "defaultRetries = 3"

section \<open>Helpers\<close>

definition contains :: "string list \<Rightarrow> string \<Rightarrow> bool" where
  "contains xs x = list_ex (\<lambda>s. s = x) xs"

definition removeString :: "string list \<Rightarrow> string \<Rightarrow> string list" where
  "removeString xs x = filter (\<lambda>s. s \<noteq> x) xs"

section \<open>The store\<close>

text \<open>Asking for a lock that is held for writing never returns.\<close>

definition rlocked :: "('e rcm \<Rightarrow> 'a) \<Rightarrow> 'e rcm \<Rightarrow> 'a option" where
  "rlocked f st = (if wlocked st then None else Some (f st))"

definition with_mu :: "('e, 'a) blocking \<Rightarrow> ('e, 'a) blocking" where
  "with_mu body st =
     (if wlocked st then None
      else case body (st\<lparr>wlocked := True\<rparr>) of
        None \<Rightarrow> None
      | Some (r, st') \<Rightarrow> Some (r, st'\<lparr>wlocked := False\<rparr>))"

definition saveToS3Impl :: "'e s3_lib \<Rightarrow> ('e, unit) blocking" where
  "saveToS3Impl s3 st =
     (case rlocked (\<lambda>st. marshal_map s3 (refCountMap st)) st of
        None \<Rightarrow> None
      | Some (Inl e) \<Rightarrow> Some (Inl (GoErr ''failed to marshal reference count metadata''), st)
      | Some (Inr data) \<Rightarrow>
          (case write_temp s3 data (store st) of
             (Inl e, s) \<Rightarrow> Some (Inl (GoErr ''temp file''), st\<lparr>store := s\<rparr>)
           | (Inr _, s) \<Rightarrow>
               (case retryOperation (FPutObject s3 (metadataPath st) data) defaultRetries s of
                  (r, s') \<Rightarrow> Some (r, st\<lparr>store := s'\<rparr>))))"

definition deleteFileFromS3Impl :: "'e s3_lib \<Rightarrow> string \<Rightarrow> ('e, unit) blocking" where
  "deleteFileFromS3Impl s3 s3Path st =
     (case retryOperation (RemoveObject s3 s3Path) defaultRetries (store st) of
        (r, s) \<Rightarrow> Some (r, st\<lparr>store := s\<rparr>))"

text \<open>
  \<^verbatim>\<open>LoadFromS3\<close>: an object that does not exist is no error. The decoder writes into the map, also
  when it fails half-way.
\<close>

definition get_meta :: "'e s3_lib \<Rightarrow> string \<Rightarrow> ('e, string option) act" where
  "get_meta s3 path s =
     (case GetObject s3 path s of
        (Inr data, s') \<Rightarrow> (Inr (Some data), s')
      | (Inl (code, e), s') \<Rightarrow>
          if code = ''NoSuchKey'' \<or> code = [] then (Inr None, s')
          else (Inl (GoErr ''failed to get reference count metadata from S3''), s'))"

definition LoadFromS3 :: "'e s3_lib \<Rightarrow> ('e, unit) blocking" where
  "LoadFromS3 s3 = with_mu (\<lambda>st.
     case retryOperation (get_meta s3 (metadataPath st)) defaultRetries (store st) of
       (Inl e, s) \<Rightarrow> Some (Inl e, st\<lparr>store := s\<rparr>)
     | (Inr None, s) \<Rightarrow> Some (Inr (), st\<lparr>store := s\<rparr>)
     | (Inr (Some data), s) \<Rightarrow>
         (case decode_map s3 data (refCountMap st) of
            (Inl e, m) \<Rightarrow> Some (Inl (GoErr ''failed to decode reference count metadata''),
                st\<lparr>store := s, refCountMap := m\<rparr>)
          | (Inr _, m) \<Rightarrow> Some (Inr (), st\<lparr>store := s, refCountMap := m\<rparr>)))"

section \<open>References\<close>

definition add_entry ::
  "int \<Rightarrow> string \<Rightarrow> string \<Rightarrow> string \<Rightarrow> int \<Rightarrow> (string, FileRefCount) gomap \<Rightarrow> (string, FileRefCount) gomap" where
  "add_entry now crc s3Path versionID fileSize m =
     (case map_of m crc of
        Some r \<Rightarrow>
          AList.update crc (r\<lparr>fr_RefCount := int64 (fr_RefCount r + 1), fr_LastUpdatedAt := now,
            fr_Versions := (if \<not> contains (fr_Versions r) versionID
                            then fr_Versions r @ [versionID] else fr_Versions r)\<rparr>) m
      | None \<Rightarrow>
          AList.update crc
            \<lparr> fr_CRC32 = crc, fr_S3Path = s3Path, fr_RefCount = 1, fr_Size = fileSize,
              fr_CreatedAt = now, fr_LastUpdatedAt = now, fr_Versions = [versionID] \<rparr> m)"

definition AddReference ::
  "('e, unit) blocking \<Rightarrow> int \<Rightarrow> string \<Rightarrow> string \<Rightarrow> string \<Rightarrow> int \<Rightarrow> ('e, unit) blocking" where
  "AddReference save now crc s3Path versionID fileSize st =
     (case with_mu (\<lambda>st. Some (Inr (), st\<lparr>refCountMap :=
              add_entry now crc s3Path versionID fileSize (refCountMap st)\<rparr>)) st of
        None \<Rightarrow> None
      | Some (_, st') \<Rightarrow> save st')"

definition RemoveReference ::
  "('e, unit) blocking \<Rightarrow> (string \<Rightarrow> ('e, unit) blocking) \<Rightarrow> int \<Rightarrow> string \<Rightarrow> string \<Rightarrow> ('e, unit) blocking" where
  "RemoveReference save del now crc versionID = with_mu (\<lambda>st.
     case map_of (refCountMap st) crc of
       None \<Rightarrow> Some (Inl (GoErr ''file not found in reference count map''), st)
     | Some r \<Rightarrow>
         let r' = r\<lparr>fr_RefCount := int64 (fr_RefCount r - 1), fr_LastUpdatedAt := now,
                    fr_Versions := removeString (fr_Versions r) versionID\<rparr> in
         if fr_RefCount r' \<le> 0 then
           (case del (fr_S3Path r') (st\<lparr>refCountMap := AList.update crc r' (refCountMap st)\<rparr>) of
              None \<Rightarrow> None
            | Some (_, st') \<Rightarrow> save (st'\<lparr>refCountMap := AList.delete crc (refCountMap st')\<rparr>))
         else save (st\<lparr>refCountMap := AList.update crc r' (refCountMap st)\<rparr>))"

text \<open>\<^verbatim>\<open>RemoveVersionReferences\<close>: the files of the version first, then one removal each.\<close>

fun remove_each ::
  "('e, unit) blocking \<Rightarrow> (string \<Rightarrow> ('e, unit) blocking) \<Rightarrow> int \<Rightarrow> string \<Rightarrow> string list \<Rightarrow> nat \<Rightarrow>
     ('e, nat) blocking" where
  "remove_each save del now versionID [] errs st = Some (Inr errs, st)"
| "remove_each save del now versionID (crc # crcs) errs st =
     (case RemoveReference save del now crc versionID st of
        None \<Rightarrow> None
      | Some (Inl _, st') \<Rightarrow> remove_each save del now versionID crcs (errs + 1) st'
      | Some (Inr _, st') \<Rightarrow> remove_each save del now versionID crcs errs st')"

definition RemoveVersionReferences ::
  "('e, unit) blocking \<Rightarrow> (string \<Rightarrow> ('e, unit) blocking) \<Rightarrow> int \<Rightarrow> string \<Rightarrow> ('e, unit) blocking" where
  "RemoveVersionReferences save del now versionID st =
     (case with_mu (\<lambda>st. Some (Inr (map fst (filter (\<lambda>(crc, r). contains (fr_Versions r) versionID)
              (refCountMap st))), st)) st of
        None \<Rightarrow> None
      | Some (Inl e, st') \<Rightarrow> Some (Inl e, st')
      | Some (Inr filesToRemove, st') \<Rightarrow>
          (case remove_each save del now versionID filesToRemove 0 st' of
             None \<Rightarrow> None
           | Some (Inl e, st'') \<Rightarrow> Some (Inl e, st'')
           | Some (Inr errs, st'') \<Rightarrow>
               Some (guard (errs > 0) (GoErr ''failed to remove file references''), st'')))"

section \<open>Queries\<close>

definition GetFileInfo :: "string \<Rightarrow> 'e rcm \<Rightarrow> (FileRefCount option) option" where
  "GetFileInfo crc = rlocked (\<lambda>st. map_of (refCountMap st) crc)"

definition GetTotalFiles :: "'e rcm \<Rightarrow> nat option" where
  "GetTotalFiles = rlocked (\<lambda>st. length (refCountMap st))"

definition GetTotalSize :: "'e rcm \<Rightarrow> int option" where
  "GetTotalSize = rlocked (\<lambda>st. foldl (\<lambda>total (crc, r). int64 (total + fr_Size r)) 0 (refCountMap st))"

definition ListOrphanedFiles :: "'e rcm \<Rightarrow> (FileRefCount list) option" where
  "ListOrphanedFiles = rlocked (\<lambda>st. filter (\<lambda>r. fr_RefCount r \<le> 0) (map snd (refCountMap st)))"

definition GetVersionFiles :: "string \<Rightarrow> 'e rcm \<Rightarrow> (FileRefCount list) option" where
  "GetVersionFiles versionID =
     rlocked (\<lambda>st. filter (\<lambda>r. list_ex (\<lambda>v. v = versionID) (fr_Versions r)) (map snd (refCountMap st)))"

definition ListAllFiles :: "'e rcm \<Rightarrow> (FileRefCount list) option" where
  "ListAllFiles = rlocked (\<lambda>st. map snd (refCountMap st))"

section \<open>Locks\<close>

lemma contains_iff [simp]: "contains xs x \<longleftrightarrow> x \<in> set xs"
  by (auto simp: contains_def list_ex_iff)

lemma saveToS3Impl_locked [simp]: "wlocked st \<Longrightarrow> saveToS3Impl s3 st = None"
  by (simp add: saveToS3Impl_def rlocked_def)

text \<open>A call that returns and changes the object store only.\<close>

definition quiet :: "('e, unit) blocking \<Rightarrow> 'e rcm \<Rightarrow> bool" where
  "quiet f st \<longleftrightarrow> (\<exists>r s. f st = Some (r, st\<lparr>store := s\<rparr>))"

lemma quiet_impls:
  "\<not> wlocked st \<Longrightarrow> quiet (saveToS3Impl s3) st" "quiet (deleteFileFromS3Impl s3 path) st"
proof -
  have "\<exists>s. st = st\<lparr>store := s\<rparr>" "\<exists>s'. st\<lparr>store := s\<rparr> = st\<lparr>store := s'\<rparr>" for s
    by (rule exI [of _ "store st"], simp) blast
  then show "\<not> wlocked st \<Longrightarrow> quiet (saveToS3Impl s3) st"
    unfolding quiet_def saveToS3Impl_def rlocked_def by (simp split: sum.splits prod.splits)
  show "quiet (deleteFileFromS3Impl s3 path) st"
    by (simp add: quiet_def deleteFileFromS3Impl_def split: prod.splits) blast
qed

lemma RemoveReference_blocks:
  assumes "map_of (refCountMap st) crc = Some r"
  shows "RemoveReference (saveToS3Impl s3) (deleteFileFromS3Impl s3) now crc versionID st = None"
  using assms by (simp add: RemoveReference_def with_mu_def Let_def deleteFileFromS3Impl_def split: prod.splits)

lemma RemoveVersionReferences_blocks:
  assumes "(crc, r) \<in> set (refCountMap st)" and "versionID \<in> set (fr_Versions r)"
  shows "RemoveVersionReferences (saveToS3Impl s3) (deleteFileFromS3Impl s3) now versionID st = None"
proof -
  define crcs where "crcs = map fst (filter (\<lambda>(crc, r). contains (fr_Versions r) versionID) (refCountMap st))"
  have "crc \<in> set crcs" using assms by (force simp: crcs_def)
  then obtain c cs where cs: "crcs = c # cs" by (cases crcs) auto
  then have "c \<in> set crcs" by simp
  then have "c \<in> fst ` set (refCountMap st)" by (auto simp: crcs_def)
  then obtain r' where "map_of (refCountMap st) c = Some r'"
    by (metis map_of_eq_None_iff not_None_eq)
  then have "remove_each (saveToS3Impl s3) (deleteFileFromS3Impl s3) now versionID (c # cs) 0 (st\<lparr>wlocked := False\<rparr>) = None"
    by (simp add: RemoveReference_blocks)
  with cs show ?thesis
    by (simp add: RemoveVersionReferences_def with_mu_def crcs_def del: remove_each.simps contains_iff)
qed

section \<open>Counts\<close>

abbreviation cnt :: "(string, FileRefCount) gomap \<Rightarrow> string \<Rightarrow> int" where
  "cnt m crc \<equiv> (case map_of m crc of None \<Rightarrow> 0 | Some r \<Rightarrow> fr_RefCount r)"

definition refs :: "(string, FileRefCount) gomap \<Rightarrow> (string \<times> string) set" where
  "refs m = {(crc, v). \<exists>r. map_of m crc = Some r \<and> v \<in> set (fr_Versions r)}"

text \<open>The counts agree with the versions: one for each version that uses the file, and no file without.\<close>

definition counts_ok :: "(string, FileRefCount) gomap \<Rightarrow> bool" where
  "counts_ok m \<longleftrightarrow>
     (\<forall>crc r. map_of m crc = Some r \<longrightarrow>
        distinct (fr_Versions r) \<and> fr_Versions r \<noteq> [] \<and> fr_RefCount r = int (length (fr_Versions r)) \<and>
        length (fr_Versions r) < 2 ^ 63 - 1)"

lemma add_entry_refs: "refs (add_entry now crc path v n m) = insert (crc, v) (refs m)"
  by (auto simp: refs_def add_entry_def update_conv' split: option.splits if_splits)

lemma add_entry_cnt:
  assumes "0 \<le> cnt m crc" and "cnt m crc < 2 ^ 63 - 1"
  shows "cnt (add_entry now crc' path v n m) crc = cnt m crc + (if crc = crc' then 1 else 0)"
  using assms by (auto simp: add_entry_def update_conv' split: option.splits)

text \<open>Additions one after the other.\<close>

record addition =
  ad_now :: int
  ad_crc :: string
  ad_path :: string
  ad_version :: string
  ad_size :: int

fun add_all :: "('e, unit) blocking \<Rightarrow> addition list \<Rightarrow> 'e rcm \<Rightarrow> ('e rcm) option" where
  "add_all save [] st = Some st"
| "add_all save (a # as) st =
     (case AddReference save (ad_now a) (ad_crc a) (ad_path a) (ad_version a) (ad_size a) st of
        None \<Rightarrow> None
      | Some (_, st') \<Rightarrow> add_all save as st')"

lemma unlocked_id: "\<not> wlocked st \<Longrightarrow> st\<lparr>wlocked := False\<rparr> = st"
  by (cases st) simp

lemma AddReference_saves:
  assumes "\<not> wlocked st"
  shows "\<exists>r s. AddReference (saveToS3Impl s3) now crc path v n st =
    Some (r, st\<lparr>refCountMap := add_entry now crc path v n (refCountMap st), store := s\<rparr>)"
proof -
  let ?st = "st\<lparr>refCountMap := add_entry now crc path v n (refCountMap st)\<rparr>"
  have "quiet (saveToS3Impl s3) ?st" using assms by (intro quiet_impls) simp
  then obtain r s where "saveToS3Impl s3 ?st = Some (r, ?st\<lparr>store := s\<rparr>)" by (auto simp: quiet_def)
  then show ?thesis using assms by (auto simp: AddReference_def with_mu_def unlocked_id)
qed

lemma add_all_counts:
  assumes "\<not> wlocked st" and "0 \<le> cnt (refCountMap st) crc"
    and "cnt (refCountMap st) crc + int (length as) < 2 ^ 63"
  shows "\<exists>st'. add_all (saveToS3Impl s3) as st = Some st' \<and> \<not> wlocked st' \<and>
    cnt (refCountMap st') crc = cnt (refCountMap st) crc + int (length (filter (\<lambda>a. ad_crc a = crc) as)) \<and>
    refs (refCountMap st') = refs (refCountMap st) \<union> (\<lambda>a. (ad_crc a, ad_version a)) ` set as"
  using assms
proof (induction as arbitrary: st)
  case Nil
  then show ?case by simp
next
  case (Cons a as)
  obtain r s where step: "AddReference (saveToS3Impl s3) (ad_now a) (ad_crc a) (ad_path a) (ad_version a) (ad_size a) st =
      Some (r, st\<lparr>refCountMap := add_entry (ad_now a) (ad_crc a) (ad_path a) (ad_version a) (ad_size a) (refCountMap st), store := s\<rparr>)"
      (is "_ = Some (r, ?st)")
    using AddReference_saves [OF Cons.prems(1)] by blast
  have c: "cnt (refCountMap ?st) crc = cnt (refCountMap st) crc + (if crc = ad_crc a then 1 else 0)"
    using Cons.prems(2,3) by (simp add: add_entry_cnt del: rcm.update_convs)
  have p: "\<not> wlocked ?st" "0 \<le> cnt (refCountMap ?st) crc" "cnt (refCountMap ?st) crc + int (length as) < 2 ^ 63"
    unfolding c using Cons.prems by auto
  from Cons.IH [OF p] obtain st' where "add_all (saveToS3Impl s3) as ?st = Some st'" "\<not> wlocked st'"
      "cnt (refCountMap st') crc = cnt (refCountMap ?st) crc + int (length (filter (\<lambda>a. ad_crc a = crc) as))"
      "refs (refCountMap st') = refs (refCountMap ?st) \<union> (\<lambda>a. (ad_crc a, ad_version a)) ` set as"
    by blast
  with step c show ?case by (auto simp: add_entry_refs)
qed

text \<open>The map after a removal that returns.\<close>

definition removed_entry ::
  "int \<Rightarrow> string \<Rightarrow> string \<Rightarrow> FileRefCount \<Rightarrow> (string, FileRefCount) gomap \<Rightarrow> (string, FileRefCount) gomap" where
  "removed_entry now crc v r m =
     (if int64 (fr_RefCount r - 1) \<le> 0 then AList.delete crc m
      else AList.update crc (r\<lparr>fr_RefCount := int64 (fr_RefCount r - 1), fr_LastUpdatedAt := now,
             fr_Versions := removeString (fr_Versions r) v\<rparr>) m)"

lemma RemoveReference_returns:
  assumes "\<not> wlocked st" and "map_of (refCountMap st) crc = Some r"
    and "\<And>st. quiet save st" and "\<And>path st. quiet (del path) st"
  shows "\<exists>res s. RemoveReference save del now crc v st =
    Some (res, st\<lparr>refCountMap := removed_entry now crc v r (refCountMap st), store := s\<rparr>)"
proof (cases "int64 (fr_RefCount r - 1) \<le> 0")
  case True
  define r' where "r' = r\<lparr>fr_RefCount := int64 (fr_RefCount r - 1), fr_LastUpdatedAt := now,
      fr_Versions := removeString (fr_Versions r) v\<rparr>"
  define st1 where "st1 = st\<lparr>wlocked := True, refCountMap := AList.update crc r' (refCountMap st)\<rparr>"
  obtain rd sd where d: "del (fr_S3Path r) st1 = Some (rd, st1\<lparr>store := sd\<rparr>)"
    using assms(4) [of "fr_S3Path r" st1] by (auto simp: quiet_def)
  define st2 where "st2 = st1\<lparr>store := sd, refCountMap := AList.delete crc (refCountMap st1)\<rparr>"
  obtain rs ss where sv: "save st2 = Some (rs, st2\<lparr>store := ss\<rparr>)"
    using assms(3) [of st2] by (auto simp: quiet_def)
  have "AList.delete crc (AList.update crc r' m) = AList.delete crc m" for m
    by (induction m) auto
  then show ?thesis
    using True assms(1,2) d sv
    by (auto simp: RemoveReference_def with_mu_def Let_def removed_entry_def r'_def st1_def st2_def unlocked_id)
next
  case False
  define r' where "r' = r\<lparr>fr_RefCount := int64 (fr_RefCount r - 1), fr_LastUpdatedAt := now,
      fr_Versions := removeString (fr_Versions r) v\<rparr>"
  define st1 where "st1 = st\<lparr>wlocked := True, refCountMap := AList.update crc r' (refCountMap st)\<rparr>"
  obtain rs ss where sv: "save st1 = Some (rs, st1\<lparr>store := ss\<rparr>)"
    using assms(3) [of st1] by (auto simp: quiet_def)
  then show ?thesis
    using False assms(1,2)
    by (auto simp: RemoveReference_def with_mu_def Let_def removed_entry_def r'_def st1_def unlocked_id)
qed

lemma removeString_removeAll: "removeString xs x = removeAll x xs"
  by (induction xs) (auto simp: removeString_def)

lemma length_removeString:
  "distinct xs \<Longrightarrow> x \<in> set xs \<Longrightarrow> length (removeString xs x) = length xs - 1"
  by (simp add: removeString_removeAll length_remove1 flip: distinct_remove1_removeAll)

lemma removed_entry_ok:
  assumes "counts_ok m" and "map_of m crc = Some r" and "v \<in> set (fr_Versions r)"
  shows "counts_ok (removed_entry now crc v r m) \<and> refs (removed_entry now crc v r m) = refs m - {(crc, v)}"
proof -
  have r: "distinct (fr_Versions r)" "fr_RefCount r = int (length (fr_Versions r))"
      "length (fr_Versions r) < 2 ^ 63 - 1"
    using assms(1,2) unfolding counts_ok_def by blast+
  note len = length_removeString [OF r(1) assms(3)]
  have i: "int64 (fr_RefCount r - 1) = int (length (fr_Versions r)) - 1"
    using r(2,3) by simp
  have old: "map_of m crc' = Some r' \<Longrightarrow> distinct (fr_Versions r') \<and> fr_Versions r' \<noteq> [] \<and>
      fr_RefCount r' = int (length (fr_Versions r')) \<and> length (fr_Versions r') < 2 ^ 63 - 1" for crc' r'
    using assms(1) unfolding counts_ok_def by blast
  show ?thesis
  proof (cases "length (fr_Versions r) = 1")
    case True
    then have "set (fr_Versions r) = {v}" using assms(3) by (cases "fr_Versions r") auto
    with True show ?thesis
      using old assms(2) by (auto simp: removed_entry_def i counts_ok_def refs_def delete_conv' split: if_splits)
  next
    case False
    moreover have "length (fr_Versions r) \<noteq> 0" using assms(3) by auto
    ultimately have l: "length (fr_Versions r) \<ge> 2" by linarith
    then have ne: "removeString (fr_Versions r) v \<noteq> []" using len by auto
    have e: "removed_entry now crc v r m = AList.update crc (r\<lparr>fr_RefCount := int (length (fr_Versions r)) - 1,
        fr_LastUpdatedAt := now, fr_Versions := removeString (fr_Versions r) v\<rparr>) m"
      using l by (simp add: removed_entry_def i)
    have "counts_ok (removed_entry now crc v r m)"
      unfolding e counts_ok_def using old r(1,3) len ne l
      by (auto simp: update_conv' removeString_removeAll distinct_removeAll split: if_splits)
    moreover have "refs (removed_entry now crc v r m) = refs m - {(crc, v)}"
      unfolding e refs_def using assms(2) by (auto simp: update_conv' removeString_removeAll split: if_splits)
    ultimately show ?thesis by simp
  qed
qed

lemma counts_ok_None:
  assumes "counts_ok m"
  shows "map_of m crc = None \<longleftrightarrow> (\<forall>u. (crc, u) \<notin> refs m)"
proof (cases "map_of m crc")
  case (Some r)
  with assms have "fr_Versions r \<noteq> []" unfolding counts_ok_def by blast
  then have "(crc, hd (fr_Versions r)) \<in> refs m" using Some by (simp add: refs_def)
  with Some show ?thesis by auto
qed (simp add: refs_def)

lemma add_entry_ok:
  assumes "counts_ok m" and "(crc, v) \<notin> refs m" and "cnt m crc < 2 ^ 63 - 2"
  shows "counts_ok (add_entry now crc path v n m)"
proof (cases "map_of m crc")
  case None
  then show ?thesis
    using assms(1) by (auto simp: counts_ok_def add_entry_def update_conv' split: if_splits)
next
  case (Some r)
  then have r: "distinct (fr_Versions r)" "fr_RefCount r = int (length (fr_Versions r))"
    using assms(1) unfolding counts_ok_def by blast+
  have v: "v \<notin> set (fr_Versions r)" using assms(2) Some by (auto simp: refs_def)
  have "add_entry now crc path v n m = AList.update crc (r\<lparr>fr_RefCount := fr_RefCount r + 1,
      fr_LastUpdatedAt := now, fr_Versions := fr_Versions r @ [v]\<rparr>) m"
    using assms(3) Some v r(2) by (simp add: add_entry_def)
  moreover have "length (fr_Versions r) + 1 < 2 ^ 63 - 1" using assms(3) Some r(2) by simp
  ultimately show ?thesis
    using assms(1) r v by (auto simp: counts_ok_def update_conv' split: if_splits)
qed

section \<open>Properties\<close>

text \<open>
  C26: \<^verbatim>\<open>RemoveReference\<close> never returns for a file that is counted. It holds the mutex of the manager
  while it calls \<^verbatim>\<open>SaveToS3\<close>, whose implementation asks for the same mutex. So deleting a backup version
  that references any file, \<^verbatim>\<open>RemoveVersionReferences\<close>, hangs as well.
\<close>

theorem RemoveReference_deadlocks:
  "(map_of (refCountMap st) crc = Some r \<longrightarrow>
     RemoveReference (saveToS3Impl s3) (deleteFileFromS3Impl s3) now crc versionID st = None) \<and>
   ((crc, r) \<in> set (refCountMap st) \<and> versionID \<in> set (fr_Versions r) \<longrightarrow>
     RemoveVersionReferences (saveToS3Impl s3) (deleteFileFromS3Impl s3) now versionID st = None)"
  using RemoveReference_blocks RemoveVersionReferences_blocks by blast

definition demo_s3 :: "(string list) s3_lib" where
  "demo_s3 =
     \<lparr> GetObject = (\<lambda>p s. (Inl (''NoSuchKey'', GoErr ''no such key''), s)),
       FPutObject = (\<lambda>p d s. (Inr (), s @ [p])),
       RemoveObject = (\<lambda>p s. (Inr (), removeAll p s)),
       write_temp = (\<lambda>d s. (Inr (), s)),
       marshal_map = (\<lambda>m. Inr ''{}''),
       decode_map = (\<lambda>d m. (Inr (), m)) \<rparr>"

definition demo_file :: FileRefCount where
  "demo_file =
     \<lparr> fr_CRC32 = ''0a'', fr_S3Path = ''f'', fr_RefCount = 1, fr_Size = 7, fr_CreatedAt = 0,
       fr_LastUpdatedAt = 0, fr_Versions = [''v1''] \<rparr>"

definition demo_rcm :: "(string list) rcm" where
  "demo_rcm = \<lparr> refCountMap = [(''0a'', demo_file)], wlocked = False, metadataPath = ''meta'', store = [''f''] \<rparr>"

theorem RemoveReference_deadlocks_witness:
  "RemoveReference (saveToS3Impl demo_s3) (deleteFileFromS3Impl demo_s3) 5 ''0a'' ''v1'' demo_rcm = None \<and>
   RemoveVersionReferences (saveToS3Impl demo_s3) (deleteFileFromS3Impl demo_s3) 5 ''v1'' demo_rcm = None"
  using RemoveReference_deadlocks [of demo_rcm "''0a''" demo_file demo_s3 5 "''v1''"]
  by (simp add: demo_rcm_def demo_file_def)

text \<open>
  Additions are counted. Any sequence of \<^verbatim>\<open>AddReference\<close> calls with the real saving routine returns
  and leaves the mutex free, whatever the store answers; the count of a file grows by the number of
  calls for it, and the versions that reference it are the old ones and those of the calls.
\<close>

theorem AddReference_counts:
  assumes "\<not> wlocked st" and "0 \<le> cnt (refCountMap st) crc"
    and "cnt (refCountMap st) crc + int (length as) < 2 ^ 63"
  shows "\<exists>st'. add_all (saveToS3Impl s3) as st = Some st' \<and> \<not> wlocked st' \<and>
    cnt (refCountMap st') crc = cnt (refCountMap st) crc + int (length (filter (\<lambda>a. ad_crc a = crc) as)) \<and>
    refs (refCountMap st') = refs (refCountMap st) \<union> (\<lambda>a. (ad_crc a, ad_version a)) ` set as"
  by (rule add_all_counts [OF assms])

theorem AddReference_counts_witness:
  "\<exists>st'. add_all (saveToS3Impl demo_s3)
      [\<lparr> ad_now = 5, ad_crc = ''0a'', ad_path = ''g'', ad_version = ''v2'', ad_size = 7 \<rparr>] demo_rcm = Some st' \<and>
    \<not> wlocked st' \<and> cnt (refCountMap st') ''0a'' = 2"
  using AddReference_counts [of demo_rcm "''0a''"
      "[\<lparr> ad_now = 5, ad_crc = ''0a'', ad_path = ''g'', ad_version = ''v2'', ad_size = 7 \<rparr>]" demo_s3]
  by (auto simp: demo_rcm_def demo_file_def)



text \<open>
  \<^verbatim>\<open>RemoveReference\<close> does not check that the version holds the file. Removing a reference that was
  never added, from a file that one other version uses, drops the file and its count although that
  version still references it.
\<close>

theorem RemoveReference_by_stranger_drops_file:
  assumes "\<not> wlocked st" and "\<And>st. quiet save st" and "\<And>path st. quiet (del path) st"
    and "map_of (refCountMap st) crc = Some r" and "fr_RefCount r = 1"
    and "owner \<in> set (fr_Versions r)" and "v \<notin> set (fr_Versions r)"
  shows "\<exists>res st'. RemoveReference save del now crc v st = Some (res, st') \<and>
    (crc, owner) \<in> refs (refCountMap st) \<and> map_of (refCountMap st') crc = None"
proof -
  obtain res s where "RemoveReference save del now crc v st =
      Some (res, st\<lparr>refCountMap := removed_entry now crc v r (refCountMap st), store := s\<rparr>)"
    using RemoveReference_returns [where del = del, OF assms(1,4,2,3)] by blast
  then show ?thesis using assms(4-6) by (auto simp: removed_entry_def refs_def delete_conv')
qed

theorem RemoveReference_by_stranger_drops_file_witness:
  "\<exists>res st'. RemoveReference (\<lambda>st. Some (Inr (), st\<lparr>store := []\<rparr>)) (deleteFileFromS3Impl demo_s3) 5 ''0a'' ''v9'' demo_rcm =
     Some (res, st') \<and> (''0a'', ''v1'') \<in> refs (refCountMap demo_rcm) \<and> map_of (refCountMap st') ''0a'' = None"
proof -
  have q: "quiet (\<lambda>st. Some (Inr (), st\<lparr>store := []\<rparr>)) st" for st :: "(string list) rcm"
    by (auto simp: quiet_def)
  show ?thesis
    by (rule RemoveReference_by_stranger_drops_file [where r = demo_file])
      (simp_all add: q quiet_impls(2) demo_rcm_def demo_file_def)
qed

end
