(* ===== verification/ShardBackup.thy ===== *)
theory ShardBackup
  imports RefCount Entities
begin

text \<open>
  The backup of a partition on its server: \<^verbatim>\<open>internal/ps/backup/ps_backup_service.go\<close>. Paths in the
  object store, the tasks of a server and their states, the upload of the files of a snapshot with
  their references, and the restore.

  A task is shared between the map of tasks and the goroutine that runs it, so the tasks live in a
  heap and the map holds addresses (positions in the heap). The goroutines that upload files run one
  after the other here, in the order of a list. Files, checksums and the engine are parameters: what
  the operating system and the engine answer.
\<close>

section \<open>Paths\<close>

text \<open>\<^verbatim>\<open>strings.Split\<close> at one character, \<^verbatim>\<open>strings.Join\<close> and the lexical \<^verbatim>\<open>filepath.Clean\<close> and \<^verbatim>\<open>filepath.Join\<close>.\<close>

fun split_on :: "char \<Rightarrow> string \<Rightarrow> string list" where
  "split_on c [] = [[]]"
| "split_on c (x # xs) =
     (if x = c then [] # split_on c xs
      else case split_on c xs of [] \<Rightarrow> [[x]] | p # ps \<Rightarrow> (x # p) # ps)"

fun join_with :: "char \<Rightarrow> string list \<Rightarrow> string" where
  "join_with c [] = []"
| "join_with c [p] = p"
| "join_with c (p # q # ps) = p @ c # join_with c (q # ps)"

fun clean_parts :: "bool \<Rightarrow> string list \<Rightarrow> string list \<Rightarrow> string list" where
  "clean_parts rooted out [] = rev out"
| "clean_parts rooted out (p # ps) =
     (if p = [] \<or> p = ''.'' then clean_parts rooted out ps
      else if p = ''..'' then
        (case out of
           [] \<Rightarrow> if rooted then clean_parts rooted out ps else clean_parts rooted [''..''] ps
         | q # rest \<Rightarrow> if q = ''..'' then clean_parts rooted (''..'' # out) ps else clean_parts rooted rest ps)
      else clean_parts rooted (p # out) ps)"

definition Clean :: "string \<Rightarrow> string" where
  "Clean s =
     (let rooted = (s \<noteq> [] \<and> hd s = CHR ''/'');
          body = join_with CHR ''/'' (clean_parts rooted [] (split_on CHR ''/'' s));
          res = (if rooted then CHR ''/'' # body else body)
      in if res = [] then ''.'' else res)"

definition Join :: "string list \<Rightarrow> string" where
  "Join parts =
     (let ps = filter (\<lambda>p. p \<noteq> []) parts in
      if ps = [] then [] else Clean (join_with CHR ''/'' ps))"

definition BuildObjectPath :: "string \<Rightarrow> string list \<Rightarrow> string" where
  "BuildObjectPath clusterName parts = Join (clusterName # filter (\<lambda>p. p \<noteq> []) parts)"

definition BuildBackupPath :: "string \<Rightarrow> string \<Rightarrow> string \<Rightarrow> 32 word \<Rightarrow> string res" where
  "BuildBackupPath clusterName spaceKey versionID pid =
     (let parts = split_on CHR ''-'' spaceKey in
      bind_res (go_index parts 0) (\<lambda>db. bind_res (go_index parts 1) (\<lambda>space.
        Inr (BuildObjectPath clusterName [''backup'', db, space, versionID @ ''/'' @ FormatNat (unat pid)]))))"

text \<open>\<^verbatim>\<open>buildMetadataPath\<close> of the reference counts.\<close>

definition buildMetadataPath :: "string \<Rightarrow> string \<Rightarrow> string" where
  "buildMetadataPath clusterName spaceKey =
     (if spaceKey = [] then Join [clusterName, ''metadata'', ''file_refcount.json'']
      else case split_on CHR ''-'' spaceKey of
        db # space # _ \<Rightarrow> Join [clusterName, ''metadata'', db, space, ''file_refcount.json'']
      | _ \<Rightarrow> Join [clusterName, ''metadata'', ''file_refcount.json''])"

section \<open>Tasks\<close>

datatype SnapshotStatus = SnapshotStatusRunning | SnapshotStatusCompleted | SnapshotStatusFailed

record SnapshotTask =
  tk_PartitionID :: "32 word"
  tk_s3PartitionID :: "32 word"
  tk_status :: SnapshotStatus
  tk_spaceKey :: string
  tk_backupID :: string
  tk_versionID :: string
  tk_backupType :: string
  tk_sourceClusterName :: string
  tk_errorMessage :: string
  tk_startTime :: int
  tk_completeTime :: int

record shard_mgr =
  task_heap :: "SnapshotTask list"
  taskStatus :: "(string, nat) gomap"

definition getTaskKey :: "string \<Rightarrow> string \<Rightarrow> 32 word \<Rightarrow> string" where
  "getTaskKey spaceKey backupID partitionID = spaceKey @ ''_'' @ backupID @ ''_'' @ FormatNat (unat partitionID)"

text \<open>A new task object.\<close>

definition new_task :: "SnapshotTask \<Rightarrow> shard_mgr \<Rightarrow> nat \<times> shard_mgr" where
  "new_task task s = (length (task_heap s), s\<lparr>task_heap := task_heap s @ [task]\<rparr>)"

definition registerTask :: "nat \<Rightarrow> shard_mgr \<Rightarrow> shard_mgr" where
  "registerTask a s =
     (let task = task_heap s ! a;
          key = getTaskKey (tk_spaceKey task) (tk_backupID task) (tk_PartitionID task)
      in s\<lparr>taskStatus := AList.update key a (taskStatus s)\<rparr>)"

definition markTaskCompleted :: "int \<Rightarrow> nat \<Rightarrow> shard_mgr \<Rightarrow> shard_mgr" where
  "markTaskCompleted now a s =
     s\<lparr>task_heap := (task_heap s)[a := (task_heap s ! a)\<lparr>tk_status := SnapshotStatusCompleted,
        tk_completeTime := now, tk_errorMessage := []\<rparr>]\<rparr>"

fun err_text :: "go_error \<Rightarrow> string" where
  "err_text (VErr c m) = m"
| "err_text (GoErr m) = m"
| "err_text (GoPanic m) = m"

definition markTaskFailed :: "int \<Rightarrow> nat \<Rightarrow> go_error \<Rightarrow> shard_mgr \<Rightarrow> shard_mgr" where
  "markTaskFailed now a err s =
     s\<lparr>task_heap := (task_heap s)[a := (task_heap s ! a)\<lparr>tk_status := SnapshotStatusFailed,
        tk_completeTime := now, tk_errorMessage := err_text err\<rparr>]\<rparr>"

text \<open>The copy that a query returns leaves out the version, the type and what concerns a restore.\<close>

definition GetTaskStatus :: "string \<Rightarrow> string \<Rightarrow> 32 word \<Rightarrow> shard_mgr \<Rightarrow> SnapshotTask option" where
  "GetTaskStatus spaceKey backupID partitionID s =
     map_option (\<lambda>a. let task = task_heap s ! a in
         task\<lparr>tk_s3PartitionID := 0, tk_versionID := [], tk_backupType := [], tk_sourceClusterName := []\<rparr>)
       (map_of (taskStatus s) (getTaskKey spaceKey backupID partitionID))"

definition CleanupTask :: "string \<Rightarrow> string \<Rightarrow> 32 word \<Rightarrow> shard_mgr \<Rightarrow> shard_mgr" where
  "CleanupTask spaceKey backupID partitionID s =
     s\<lparr>taskStatus := AList.delete (getTaskKey spaceKey backupID partitionID) (taskStatus s)\<rparr>"

definition GetBackupTaskStatus :: "string \<Rightarrow> string \<Rightarrow> 32 word \<Rightarrow> shard_mgr \<Rightarrow> int \<times> string \<times> bool" where
  "GetBackupTaskStatus spaceKey backupID partitionID s =
     (case GetTaskStatus spaceKey backupID partitionID s of
        None \<Rightarrow> (0, [], False)
      | Some task \<Rightarrow>
          (case tk_status task of SnapshotStatusRunning \<Rightarrow> 0 | SnapshotStatusCompleted \<Rightarrow> 1 | SnapshotStatusFailed \<Rightarrow> 2,
           tk_errorMessage task, True))"

definition running :: "string \<Rightarrow> string \<Rightarrow> 32 word \<Rightarrow> shard_mgr \<Rightarrow> bool" where
  "running spaceKey backupID partitionID s =
     (case GetTaskStatus spaceKey backupID partitionID s of
        None \<Rightarrow> False | Some task \<Rightarrow> tk_status task = SnapshotStatusRunning)"

text \<open>Both return the address of the task that the goroutine they start works on.\<close>

definition StartPartitionBackup ::
  "int \<Rightarrow> string \<Rightarrow> string \<Rightarrow> string \<Rightarrow> 32 word \<Rightarrow> string \<Rightarrow> (shard_mgr, nat) act" where
  "StartPartitionBackup now spaceKey backupID versionID partitionID backupType0 s =
     (let backupType = (if backupType0 = [] then ''full'' else backupType0) in
      if backupType \<noteq> ''full'' \<and> backupType \<noteq> ''incremental'' then (Inl (GoErr ''invalid backup type''), s)
      else if running spaceKey backupID partitionID s then (Inl (GoErr ''backup task already running''), s)
      else case new_task \<lparr> tk_PartitionID = partitionID, tk_s3PartitionID = 0, tk_status = SnapshotStatusRunning,
                tk_spaceKey = spaceKey, tk_backupID = backupID, tk_versionID = versionID, tk_backupType = backupType,
                tk_sourceClusterName = [], tk_errorMessage = [], tk_startTime = now, tk_completeTime = 0 \<rparr> s of
             (a, s') \<Rightarrow> (Inr a, registerTask a s'))"

definition StartPartitionRestore ::
  "int \<Rightarrow> string \<Rightarrow> string \<Rightarrow> string \<Rightarrow> 32 word \<Rightarrow> 32 word \<Rightarrow> string \<Rightarrow> (shard_mgr, nat) act" where
  "StartPartitionRestore now spaceKey backupID versionID partitionID s3PartitionID sourceClusterName s =
     (if running spaceKey backupID partitionID s then (Inl (GoErr ''restore task already running''), s)
      else case new_task \<lparr> tk_PartitionID = partitionID, tk_s3PartitionID = s3PartitionID,
                tk_status = SnapshotStatusRunning, tk_spaceKey = spaceKey, tk_backupID = backupID,
                tk_versionID = versionID, tk_backupType = [], tk_sourceClusterName = sourceClusterName,
                tk_errorMessage = [], tk_startTime = now, tk_completeTime = 0 \<rparr> s of
             (a, s') \<Rightarrow> (Inr a, registerTask a s'))"

section \<open>The goroutines of a task\<close>

text \<open>What the engine of a partition answers; \<open>en_Closed n\<close> is the answer to the \<open>n\<close>-th \<^verbatim>\<open>HasClosed\<close>.\<close>

record engine_lib =
  en_Cfg :: "(string option) res"
  en_Backup :: "unit res"
  en_Closed :: "nat \<Rightarrow> bool"
  en_Load :: "unit res"

definition finish_task :: "int \<Rightarrow> nat \<Rightarrow> unit res \<Rightarrow> shard_mgr \<Rightarrow> shard_mgr" where
  "finish_task now a r s =
     (case r of Inl e \<Rightarrow> markTaskFailed now a e s | Inr _ \<Rightarrow> markTaskCompleted now a s)"

text \<open>
  \<^verbatim>\<open>startShardSnapshot\<close>: the partition store may be missing, or have no engine; a panic is recovered
  and recorded. \<open>execute\<close> stands for the call of \<^verbatim>\<open>executeShardSnapshot\<close> with the local path; a call
  that never returns leaves the task running.
\<close>

definition engine_path :: "engine_lib \<Rightarrow> string res" where
  "engine_path en =
     bind_res (en_Cfg en) (\<lambda>path.
       case path of None \<Rightarrow> Inl (GoPanic ''nil pointer dereference'') | Some p \<Rightarrow> Inr p)"

definition startShardSnapshot ::
  "int \<Rightarrow> nat \<Rightarrow> (engine_lib option) option \<Rightarrow> (string \<Rightarrow> 'w \<Rightarrow> (unit res \<times> 'w) option) \<Rightarrow>
     shard_mgr \<times> 'w \<Rightarrow> (shard_mgr \<times> 'w) option" where
  "startShardSnapshot now a part execute sw =
     (case sw of (s, w) \<Rightarrow>
      case part of
        None \<Rightarrow> Some (markTaskFailed now a (GoErr ''partition store not found'') s, w)
      | Some None \<Rightarrow> Some (markTaskFailed now a (GoErr ''engine not found'') s, w)
      | Some (Some en) \<Rightarrow>
          (case bind_res (en_Cfg en) (\<lambda>_. bind_res (en_Backup en) (\<lambda>_. engine_path en)) of
             Inl e \<Rightarrow> Some (markTaskFailed now a e s, w)
           | Inr filePath \<Rightarrow>
               (case execute filePath w of
                  None \<Rightarrow> None
                | Some (r, w') \<Rightarrow> Some (finish_task now a r s, w'))))"

text \<open>The wait for the engine to close gives up after 61 rounds.\<close>

function wait_closed :: "(nat \<Rightarrow> bool) \<Rightarrow> nat \<Rightarrow> bool" where
  "wait_closed ans k =
     (if ans k then True
      else if k + 1 > 60 then False
      else wait_closed ans (k + 1))"
  by pat_completeness auto
termination by (relation "measure (\<lambda>(ans, k). 61 - k)") auto

declare wait_closed.simps [simp del]

text \<open>
  \<^verbatim>\<open>startShardRestore\<close>: once the engine is closed, it is loaded again when the function returns,
  after the task was marked; a failure to load marks it again.
\<close>

definition reload :: "int \<Rightarrow> nat \<Rightarrow> engine_lib \<Rightarrow> shard_mgr \<Rightarrow> shard_mgr" where
  "reload now a en s = (case en_Load en of Inl e \<Rightarrow> markTaskFailed now a e s | Inr _ \<Rightarrow> s)"

definition restore_ids :: "string \<Rightarrow> SnapshotTask \<Rightarrow> 32 word \<times> string" where
  "restore_ids globalName task =
     (if tk_s3PartitionID task = 0 then tk_PartitionID task else tk_s3PartitionID task,
      if tk_sourceClusterName task = [] then globalName else tk_sourceClusterName task)"

definition startShardRestore ::
  "int \<Rightarrow> string \<Rightarrow> nat \<Rightarrow> (engine_lib option) option \<Rightarrow>
     (string \<Rightarrow> 32 word \<Rightarrow> string \<Rightarrow> 'w \<Rightarrow> unit res \<times> 'w) \<Rightarrow> shard_mgr \<times> 'w \<Rightarrow> shard_mgr \<times> 'w" where
  "startShardRestore now globalName a part restore sw =
     (case sw of (s, w) \<Rightarrow>
      case part of
        None \<Rightarrow> (markTaskFailed now a (GoErr ''partition store not found'') s, w)
      | Some None \<Rightarrow> (markTaskFailed now a (GoErr ''engine not found'') s, w)
      | Some (Some en) \<Rightarrow>
          (case en_Cfg en of
             Inl e \<Rightarrow> (markTaskFailed now a e s, w)
           | Inr _ \<Rightarrow>
               if \<not> wait_closed (en_Closed en) 0
               then (reload now a en (markTaskFailed now a (GoErr ''engine close timeout'') s), w)
               else case engine_path en of
                 Inl p \<Rightarrow> (markTaskFailed now a p (reload now a en s), w)
               | Inr filePath \<Rightarrow>
                   (case restore_ids globalName (task_heap s ! a) of (s3pid, source) \<Rightarrow>
                     (case restore filePath s3pid source w of
                        (Inl (GoPanic m), w') \<Rightarrow> (markTaskFailed now a (GoPanic m) (reload now a en s), w')
                      | (r, w') \<Rightarrow> (reload now a en (finish_task now a r s), w')))))"

section \<open>The upload of a snapshot\<close>

record FileMeta =
  fm_FilePath :: string
  fm_FileName :: string
  fm_CRC32 :: string
  fm_Size :: int
  fm_S3Path :: string
  fm_LocalPath :: string
  fm_UploadStatus :: string

record PartitionBackupMeta =
  pm_PartitionID :: "32 word"
  pm_BackupID :: string
  pm_VersionID :: string
  pm_SpaceKey :: string
  pm_Files :: "FileMeta list"
  pm_TotalFiles :: int
  pm_TotalSize :: int

text \<open>A local file: its path and base name, and what computing its checksum and its size give.\<close>

record local_file =
  lf_path :: string
  lf_name :: string
  lf_crc :: "string res"
  lf_size :: "int res"

definition backup_file ::
  "(string \<Rightarrow> string \<Rightarrow> ('e, unit) act) \<Rightarrow> ('e, unit) blocking \<Rightarrow> int \<Rightarrow> bool \<Rightarrow> string \<Rightarrow> string \<Rightarrow> local_file \<Rightarrow>
     ('e, FileMeta) blocking" where
  "backup_file upload save now incremental s3Path versionID f st =
     (case lf_crc f of
        Inl _ \<Rightarrow> Some (Inl (GoErr ''failed to calculate CRC32''), st)
      | Inr crc \<Rightarrow>
        (case lf_size f of
           Inl _ \<Rightarrow> Some (Inl (GoErr ''failed to get file info''), st)
         | Inr fileSize \<Rightarrow>
           let file_meta = (\<lambda>path status. \<lparr> fm_FilePath = lf_path f, fm_FileName = lf_name f, fm_CRC32 = crc,
                 fm_Size = fileSize, fm_S3Path = path, fm_LocalPath = lf_path f, fm_UploadStatus = status \<rparr>);
               add = (\<lambda>path status st.
                 case AddReference save now crc path versionID fileSize st of
                   None \<Rightarrow> None
                 | Some (Inl _, st') \<Rightarrow> Some (Inl (GoErr ''failed to add reference''), st')
                 | Some (Inr _, st') \<Rightarrow> Some (Inr (file_meta path status), st'))
           in case (if incremental then GetFileInfo crc st else Some None) of
             None \<Rightarrow> None
           | Some (Some info) \<Rightarrow> add (fr_S3Path info) ''reused'' st
           | Some None \<Rightarrow>
               let sstS3Path = Join [s3Path, lf_name f] in
               (case retryOperation (upload (lf_path f) sstS3Path) defaultRetries (store st) of
                  (Inl _, s) \<Rightarrow> Some (Inl (GoErr ''failed to upload to S3''), st\<lparr>store := s\<rparr>)
                | (Inr _, s) \<Rightarrow> add sstS3Path ''uploaded'' (st\<lparr>store := s\<rparr>))))"

text \<open>The results of one directory, added to the description of the partition.\<close>

definition count_file :: "FileMeta \<Rightarrow> PartitionBackupMeta \<Rightarrow> PartitionBackupMeta" where
  "count_file fm meta =
     meta\<lparr>pm_Files := pm_Files meta @ [fm], pm_TotalFiles := int64 (pm_TotalFiles meta + 1),
          pm_TotalSize := int64 (pm_TotalSize meta + fm_Size fm)\<rparr>"

fun backup_files ::
  "(local_file \<Rightarrow> ('e, FileMeta) blocking) \<Rightarrow> local_file list \<Rightarrow> PartitionBackupMeta \<times> nat \<Rightarrow> 'e rcm \<Rightarrow>
     ((PartitionBackupMeta \<times> nat) \<times> 'e rcm) option" where
  "backup_files one [] (meta, errs) st = Some ((meta, errs), st)"
| "backup_files one (f # fs) (meta, errs) st =
     (case one f st of
        None \<Rightarrow> None
      | Some (Inl _, st') \<Rightarrow> backup_files one fs (meta, errs + 1) st'
      | Some (Inr fm, st') \<Rightarrow> backup_files one fs (count_file fm meta, errs) st')"

definition savePartitionMeta ::
  "(PartitionBackupMeta \<Rightarrow> string res) \<Rightarrow> (string \<Rightarrow> ('e, unit) act) \<Rightarrow> (string \<Rightarrow> string \<Rightarrow> ('e, unit) act) \<Rightarrow>
     PartitionBackupMeta \<Rightarrow> string \<Rightarrow> ('e, unit) act" where
  "savePartitionMeta marshal_meta temp put meta base =
     bindA (lift (marshal_meta meta)) (\<lambda>json.
     bindA (temp json) (\<lambda>_. retryOperation (put (base @ ''/partition_meta.json'') json) defaultRetries))"

text \<open>
  \<^verbatim>\<open>executeShardSnapshot\<close>: the directories \<^verbatim>\<open>data\<close> and \<^verbatim>\<open>bitmap\<close> one after the other; \<open>walk\<close> lists the files
  of one. When a file failed, the description is saved all the same and the call fails. The removal
  of the local copies after success has no effect on the result.
\<close>

record 'e snapshot_lib =
  walk :: "string \<Rightarrow> (local_file list) res"
  upload_file :: "string \<Rightarrow> string \<Rightarrow> ('e, unit) act"
  save_meta :: "PartitionBackupMeta \<Rightarrow> string \<Rightarrow> ('e, unit) act"

definition backup_dir ::
  "'e snapshot_lib \<Rightarrow> ('e, unit) blocking \<Rightarrow> int \<Rightarrow> string \<Rightarrow> string \<Rightarrow> string \<Rightarrow> string \<Rightarrow>
     PartitionBackupMeta \<times> nat \<Rightarrow> 'e rcm \<Rightarrow> ((PartitionBackupMeta \<times> nat) res \<times> 'e rcm) option" where
  "backup_dir lib save now base backupType versionID dir acc st =
     (case walk lib dir of
        Inl _ \<Rightarrow> Some (Inl (GoErr ''failed to walk directory''), st)
      | Inr files \<Rightarrow>
          map_option (\<lambda>(acc', st'). (Inr acc', st'))
            (backup_files (backup_file (upload_file lib) save now (backupType = ''incremental'')
                (base @ ''/'' @ dir) versionID) files acc st))"

definition executeShardSnapshot ::
  "'e snapshot_lib \<Rightarrow> ('e, unit) blocking \<Rightarrow> int \<Rightarrow> string \<Rightarrow> string \<Rightarrow> string \<Rightarrow> string \<Rightarrow> 32 word \<Rightarrow> string \<Rightarrow>
     ('e, unit) blocking" where
  "executeShardSnapshot lib save now cluster spaceKey backupID versionID partitionID backupType0 st =
     (let backupType = (if backupType0 = [] then ''full'' else backupType0);
          meta0 = \<lparr> pm_PartitionID = partitionID, pm_BackupID = backupID, pm_VersionID = versionID,
                    pm_SpaceKey = spaceKey, pm_Files = [], pm_TotalFiles = 0, pm_TotalSize = 0 \<rparr>
      in case BuildBackupPath cluster spaceKey versionID partitionID of
        Inl p \<Rightarrow> (case walk lib ''data'' of
            Inl _ \<Rightarrow> Some (Inl (GoErr ''failed to walk directory''), st) | Inr _ \<Rightarrow> Some (Inl p, st))
      | Inr base \<Rightarrow>
        (case backup_dir lib save now base backupType versionID ''data'' (meta0, 0) st of
           None \<Rightarrow> None
         | Some (Inl e, st1) \<Rightarrow> Some (Inl e, st1)
         | Some (Inr acc1, st1) \<Rightarrow>
           (case backup_dir lib save now base backupType versionID ''bitmap'' acc1 st1 of
              None \<Rightarrow> None
            | Some (Inl e, st2) \<Rightarrow> Some (Inl e, st2)
            | Some (Inr (meta, errs), st2) \<Rightarrow>
                (case save_meta lib meta base (store st2) of (r, s) \<Rightarrow>
                   let st3 = st2\<lparr>store := s\<rparr> in
                   if errs > 0 then Some (Inl (GoErr ''encountered errors during backup''), st3)
                   else case r of
                     Inl _ \<Rightarrow> Some (Inl (GoErr ''failed to save partition meta''), st3)
                   | Inr _ \<Rightarrow> Some (Inr (), st3)))))"

section \<open>The restore\<close>

text \<open>The local directory of a file, from its paths.\<close>

definition restore_dir :: "FileMeta \<Rightarrow> string" where
  "restore_dir fm =
     (if Contains (fm_S3Path fm) ''/bitmap/'' then ''bitmap''
      else if Contains (fm_S3Path fm) ''/data/'' then ''data''
      else if Contains (fm_FilePath fm) ''/bitmap/'' \<or> Contains (fm_LocalPath fm) ''/bitmap/'' then ''bitmap''
      else if Contains (fm_FilePath fm) ''/data/'' \<or> Contains (fm_LocalPath fm) ''/data/'' then ''data''
      else ''data'')"

record 'e restore_lib =
  load_meta :: "string \<Rightarrow> ('e, PartitionBackupMeta) act"
  prepare_dirs :: "('e, unit) act"
  make_dir :: "string \<Rightarrow> ('e, unit) act"
  download :: "string \<Rightarrow> string \<Rightarrow> ('e, unit) act"
  crc_of :: "string \<Rightarrow> ('e, string) act"

definition loadPartitionMeta ::
  "('e, unit) act \<Rightarrow> (string \<Rightarrow> ('e, unit) act) \<Rightarrow> ('e, string) act \<Rightarrow> (string \<Rightarrow> PartitionBackupMeta res) \<Rightarrow> string \<Rightarrow>
     ('e, PartitionBackupMeta) act" where
  "loadPartitionMeta temp get read_temp unmarshal_meta base =
     bindA temp (\<lambda>_.
     bindA (retryOperation (get (base @ ''/partition_meta.json'')) defaultRetries) (\<lambda>_.
     bindA read_temp (\<lambda>json. lift (unmarshal_meta json))))"

definition restore_file :: "'e restore_lib \<Rightarrow> string \<Rightarrow> FileMeta \<Rightarrow> ('e, unit) act" where
  "restore_file lib localPath fm =
     (let dir = Join [localPath, restore_dir fm]; path = Join [dir, fm_FileName fm] in
      bindA (make_dir lib dir) (\<lambda>_.
      bindA (retryOperation (download lib (fm_S3Path fm) path) defaultRetries) (\<lambda>_.
        if fm_Size fm > 0 then
          bindA (crc_of lib path) (\<lambda>crc.
            lift (guard (crc \<noteq> fm_CRC32 fm) (GoErr ''failed to stat downloaded file'')))
        else ret ())))"

fun restore_files :: "'e restore_lib \<Rightarrow> string \<Rightarrow> FileMeta list \<Rightarrow> nat \<Rightarrow> 'e \<Rightarrow> nat \<times> 'e" where
  "restore_files lib localPath [] errs s = (errs, s)"
| "restore_files lib localPath (fm # fms) errs s =
     (if fm_FileName fm = ''LOCK'' then restore_files lib localPath fms errs s
      else case restore_file lib localPath fm s of
        (Inl _, s') \<Rightarrow> restore_files lib localPath fms (errs + 1) s'
      | (Inr _, s') \<Rightarrow> restore_files lib localPath fms errs s')"

definition restoreShardSnapshot ::
  "'e restore_lib \<Rightarrow> string \<Rightarrow> string \<Rightarrow> string \<Rightarrow> 32 word \<Rightarrow> string \<Rightarrow> ('e, unit) act" where
  "restoreShardSnapshot lib localPath spaceKey versionID s3PartitionID sourceClusterName =
     bindA (lift (BuildBackupPath sourceClusterName spaceKey versionID s3PartitionID)) (\<lambda>base.
     bindA (load_meta lib base) (\<lambda>meta.
       if pm_PartitionID meta \<noteq> s3PartitionID \<or> pm_VersionID meta \<noteq> versionID \<or> pm_SpaceKey meta \<noteq> spaceKey
       then fail (GoErr ''partition meta mismatch'')
       else bindA (prepare_dirs lib) (\<lambda>_ s.
         case restore_files lib localPath (pm_Files meta) 0 s of
           (errs, s') \<Rightarrow> (guard (errs > 0) (GoErr ''encountered errors during restore''), s'))))"

section \<open>Facts on paths\<close>

lemma split_on_ne [simp]: "split_on c s \<noteq> []"
  by (cases s) (simp_all split: list.split)

lemma split_on_append: "split_on c (a @ c # b) = split_on c a @ split_on c b"
proof (induction a)
  case (Cons x a)
  then show ?case by (cases "split_on c a") auto
qed simp

lemma split_on_plain: "c \<notin> set s \<Longrightarrow> split_on c s = [s]"
  by (induction s) auto

lemma split_join:
  "ps \<noteq> [] \<Longrightarrow> \<forall>p \<in> set ps. c \<notin> set p \<Longrightarrow> split_on c (join_with c ps) = ps"
  by (induction c ps rule: join_with.induct) (simp_all add: split_on_plain split_on_append)

text \<open>A segment of a path that cleaning leaves alone.\<close>

definition segment :: "string \<Rightarrow> bool" where
  "segment p \<longleftrightarrow> p \<noteq> [] \<and> p \<noteq> ''.'' \<and> p \<noteq> ''..'' \<and> CHR ''/'' \<notin> set p"

lemma clean_parts_segments:
  "\<forall>p \<in> set ps. segment p \<Longrightarrow> clean_parts False out ps = rev out @ ps"
  by (induction ps arbitrary: out) (auto simp: segment_def)

lemma hd_join: "segment p \<Longrightarrow> join_with c (p # ps) \<noteq> [] \<and> hd (join_with c (p # ps)) = hd p"
  by (cases ps) (auto simp: segment_def)

lemma Clean_segments:
  assumes "ps \<noteq> []" and "\<forall>p \<in> set ps. segment p"
  shows "Clean (join_with CHR ''/'' ps) = join_with CHR ''/'' ps"
proof -
  obtain p qs where ps: "ps = p # qs" using assms(1) by (cases ps) auto
  have p: "segment p" using assms(2) ps by simp
  then have "hd p \<noteq> CHR ''/''" unfolding segment_def using hd_in_set [of p] by metis
  then have "\<not> (join_with CHR ''/'' ps \<noteq> [] \<and> hd (join_with CHR ''/'' ps) = CHR ''/'')"
    using hd_join [OF p, of "CHR ''/''" qs] ps by simp
  moreover have "clean_parts False [] (split_on CHR ''/'' (join_with CHR ''/'' ps)) = ps"
    using assms clean_parts_segments [of ps "[]"] by (simp add: split_join segment_def)
  moreover have "join_with CHR ''/'' ps \<noteq> []" using hd_join [OF p, of "CHR ''/''" qs] ps by simp
  ultimately show ?thesis by (simp add: Clean_def Let_def)
qed

lemma join_append:
  "ps \<noteq> [] \<Longrightarrow> qs \<noteq> [] \<Longrightarrow> join_with c (ps @ qs) = join_with c ps @ c # join_with c qs"
  by (induction c ps rule: join_with.induct) (auto simp: neq_Nil_conv)

text \<open>A whole path as one part is the same as its segments.\<close>

lemma Join_segments:
  assumes "ps \<noteq> []" and "\<forall>p \<in> set ps. segment p"
  shows "Join ps = join_with CHR ''/'' ps"
proof -
  have "filter (\<lambda>p. p \<noteq> []) ps = ps" using assms(2) by (auto simp: segment_def intro: filter_True)
  then show ?thesis using assms by (simp add: Join_def Let_def Clean_segments)
qed

lemma Contains_segment:
  assumes "ps \<noteq> []" and "\<forall>p \<in> set ps. CHR ''/'' \<notin> set p" and "CHR ''/'' \<notin> set t"
  shows "Contains (join_with CHR ''/'' ps) (''/'' @ t @ ''/'') \<longleftrightarrow>
    (\<exists>as bs. as \<noteq> [] \<and> bs \<noteq> [] \<and> ps = as @ t # bs)"
proof
  assume "Contains (join_with CHR ''/'' ps) (''/'' @ t @ ''/'')"
  then obtain a b where "join_with CHR ''/'' ps = a @ CHR ''/'' # t @ CHR ''/'' # b"
    by (auto simp: Contains_iff)
  then have "split_on CHR ''/'' (join_with CHR ''/'' ps) =
      split_on CHR ''/'' a @ t # split_on CHR ''/'' b"
    using assms(3) by (simp add: split_on_append split_on_plain)
  then show "\<exists>as bs. as \<noteq> [] \<and> bs \<noteq> [] \<and> ps = as @ t # bs"
    using split_join [OF assms(1,2)] split_on_ne by metis
next
  assume "\<exists>as bs. as \<noteq> [] \<and> bs \<noteq> [] \<and> ps = as @ t # bs"
  then obtain as bs where "as \<noteq> []" "bs \<noteq> []" "ps = as @ t # bs" by blast
  then have "join_with CHR ''/'' ps =
      join_with CHR ''/'' as @ (''/'' @ t @ ''/'') @ join_with CHR ''/'' bs"
    using join_append [of as "t # bs"] join_append [of "[t]" bs] by simp
  then show "Contains (join_with CHR ''/'' ps) (''/'' @ t @ ''/'')"
    unfolding Contains_iff by blast
qed

lemma FormatNat_segment: "segment (FormatNat n)" and FormatNat_not_bitmap: "FormatNat n \<noteq> ''bitmap''"
proof -
  have "FormatNat n \<noteq> c # s" if "\<not> is_digit c" for c s
    using hd_FormatNat [of n] that by auto
  from this [of "CHR ''.''"] this [of "CHR ''b''"]
  show "segment (FormatNat n)" "FormatNat n \<noteq> ''bitmap''" by (auto simp: segment_def is_digit_def)
qed

lemma join_last: "join_with c (ps @ [p @ c # q]) = join_with c (ps @ [p, q])"
  by (induction c ps rule: join_with.induct) auto

lemma Join_path:
  assumes "\<forall>p \<in> set (ps @ [q, r]). segment p" and "ps \<noteq> []"
  shows "Join (ps @ [q @ CHR ''/'' # r]) = join_with CHR ''/'' (ps @ [q, r])"
proof -
  have "filter (\<lambda>p. p \<noteq> []) (ps @ [q @ CHR ''/'' # r]) = ps @ [q @ CHR ''/'' # r]"
    using assms(1) by (auto simp: segment_def intro: filter_True)
  then show ?thesis
    using assms Clean_segments [of "ps @ [q, r]"] by (simp add: Join_def Let_def join_last)
qed

lemma BuildBackupPath_segments:
  assumes "segment cluster" "segment db" "segment space" "segment version"
    and "CHR ''-'' \<notin> set db" "CHR ''-'' \<notin> set space"
  shows "BuildBackupPath cluster (db @ ''-'' @ space) version pid =
    Inr (join_with CHR ''/'' [cluster, ''backup'', db, space, version, FormatNat (unat pid)])"
proof -
  have "split_on CHR ''-'' (db @ ''-'' @ space) = [db, space]"
    using split_on_append [of "CHR ''-''" db space] assms(5,6) by (simp add: split_on_plain)
  moreover have "Join [cluster, ''backup'', db, space, version @ CHR ''/'' # FormatNat (unat pid)] =
      join_with CHR ''/'' [cluster, ''backup'', db, space, version, FormatNat (unat pid)]"
    using Join_path [of "[cluster, ''backup'', db, space]" version "FormatNat (unat pid)"] assms(1-4) FormatNat_segment
    by (simp add: segment_def [of "''backup''"])
  moreover have "filter (\<lambda>p. p \<noteq> []) [''backup'', db, space, version @ CHR ''/'' # FormatNat (unat pid)] =
      [''backup'', db, space, version @ CHR ''/'' # FormatNat (unat pid)]"
    using assms by (simp add: segment_def)
  ultimately show ?thesis
    by (simp add: BuildBackupPath_def BuildObjectPath_def Let_def go_index_def del: filter.simps)
qed

lemma upload_path:
  assumes "\<forall>p \<in> set ps. segment p" "ps \<noteq> []" "segment dir" "segment name"
  shows "Join [join_with CHR ''/'' ps @ ''/'' @ dir, name] = join_with CHR ''/'' (ps @ [dir, name])"
proof -
  have j: "join_with CHR ''/'' ps @ ''/'' @ dir = join_with CHR ''/'' (ps @ [dir])"
    using join_append [OF assms(2), of "[dir]" "CHR ''/''"] by simp
  have ne: "join_with CHR ''/'' (ps @ [dir]) \<noteq> []"
    using assms(2) hd_join assms(1) by (metis Cons_eq_appendI list.set_intros(1) neq_Nil_conv)
  have "join_with CHR ''/'' [join_with CHR ''/'' (ps @ [dir]), name] = join_with CHR ''/'' (ps @ [dir, name])"
    using join_append [of "ps @ [dir]" "[name]" "CHR ''/''"] by simp
  then show ?thesis
    unfolding j Join_def using ne assms Clean_segments [of "ps @ [dir, name]"]
    by (simp add: Let_def segment_def [of name])
qed

lemma inner_segment:
  "(\<exists>as bs. as \<noteq> [] \<and> bs \<noteq> [] \<and> x # ys @ [z] = as @ t # bs) \<longleftrightarrow> t \<in> set ys"
proof
  assume "\<exists>as bs. as \<noteq> [] \<and> bs \<noteq> [] \<and> x # ys @ [z] = as @ t # bs"
  then obtain as bs where a: "as \<noteq> []" "bs \<noteq> []" "x # ys @ [z] = as @ t # bs" by blast
  then obtain y as' where "as = y # as'" by (cases as) auto
  moreover from a(2) obtain bs' z' where "bs = bs' @ [z']" by (cases bs rule: rev_cases) auto
  ultimately have "ys @ [z] = (as' @ t # bs') @ [z']" using a(3) by simp
  then have "ys = as' @ t # bs'" by (simp only: append1_eq_conv)
  then show "t \<in> set ys" by simp
next
  assume "t \<in> set ys"
  then obtain as bs where "ys = as @ t # bs" by (auto dest: split_list)
  then have "x # as \<noteq> [] \<and> bs @ [z] \<noteq> [] \<and> x # ys @ [z] = (x # as) @ t # (bs @ [z])" by simp
  then show "\<exists>as bs. as \<noteq> [] \<and> bs \<noteq> [] \<and> x # ys @ [z] = as @ t # bs" by blast
qed

lemma restore_dir_uploaded:
  assumes "segment cluster" "segment db" "segment space" "segment version" "segment name"
    and "dir \<in> {''data'', ''bitmap''}" and "cluster \<noteq> []"
    and "fm_S3Path fm = join_with CHR ''/'' [cluster, ''backup'', db, space, version, FormatNat n, dir, name]"
  shows "restore_dir fm = dir \<longleftrightarrow> dir = ''bitmap'' \<or> ''bitmap'' \<notin> {db, space, version}"
proof -
  let ?ps = "[cluster, ''backup'', db, space, version, FormatNat n, dir, name]"
  have slash: "\<forall>p \<in> set ?ps. CHR ''/'' \<notin> set p"
    using assms(1-6) by (auto simp: segment_def)
  have inner: "Contains (fm_S3Path fm) (''/'' @ t @ ''/'') \<longleftrightarrow> t \<in> {''backup'', db, space, version, FormatNat n, dir}"
    if "CHR ''/'' \<notin> set t" for t
  proof -
    have "(\<exists>as bs. as \<noteq> [] \<and> bs \<noteq> [] \<and> ?ps = as @ t # bs) \<longleftrightarrow>
        t \<in> {''backup'', db, space, version, FormatNat n, dir}"
      using inner_segment [of cluster "[''backup'', db, space, version, FormatNat n, dir]" name t] by simp
    then show ?thesis using Contains_segment [OF _ slash that] assms(8) by simp
  qed
  have b: "Contains (fm_S3Path fm) ''/bitmap/'' \<longleftrightarrow> ''bitmap'' \<in> {db, space, version} \<or> dir = ''bitmap''"
    using inner [of "''bitmap''"] not_sym [OF FormatNat_not_bitmap [of n]]
    by (simp only: append_Cons append_Nil insert_iff empty_iff) (simp, blast)
  have d: "Contains (fm_S3Path fm) ''/data/''" if "dir = ''data''"
    using inner [of "''data''"] that by simp
  from assms(6) consider "dir = ''data''" | "dir = ''bitmap''" by blast
  then show ?thesis
  proof cases
    case 1
    then show ?thesis using b d by (simp add: restore_dir_def)
  next
    case 2
    then show ?thesis using b by (simp add: restore_dir_def)
  qed
qed

section \<open>Facts on tasks\<close>

lemma last_underscore:
  assumes "CHR ''_'' \<notin> set b" "CHR ''_'' \<notin> set b'"
  shows "a @ ''_'' @ b = a' @ ''_'' @ b' \<longleftrightarrow> a = a' \<and> b = b'"
proof -
  have "a @ ''_'' @ b = a' @ ''_'' @ b' \<longleftrightarrow> rev b @ CHR ''_'' # rev a = rev b' @ CHR ''_'' # rev a'"
    by (metis append_Cons append_Nil append_assoc rev.simps(2) rev_append rev_rev_ident)
  then show ?thesis using assms by (auto simp: sep_append_inject)
qed

lemma FormatNat_no_underscore: "CHR ''_'' \<notin> set (FormatNat n)"
  by (auto dest: set_FormatNat simp: is_digit_def)

lemma getTaskKey_inject:
  assumes "CHR ''_'' \<notin> set b" "CHR ''_'' \<notin> set b'"
  shows "getTaskKey s b p = getTaskKey s' b' p' \<longleftrightarrow> s = s' \<and> b = b' \<and> p = p'"
proof -
  have "getTaskKey s b p = getTaskKey s' b' p' \<longleftrightarrow>
      (s @ ''_'' @ b) @ ''_'' @ FormatNat (unat p) = (s' @ ''_'' @ b') @ ''_'' @ FormatNat (unat p')"
    by (simp add: getTaskKey_def)
  also have "\<dots> \<longleftrightarrow> s @ ''_'' @ b = s' @ ''_'' @ b' \<and> p = p'"
    by (subst last_underscore) (auto simp: FormatNat_no_underscore word_unat_eq_iff)
  also have "\<dots> \<longleftrightarrow> s = s' \<and> b = b' \<and> p = p'" using last_underscore [OF assms] by auto
  finally show ?thesis .
qed

definition ended :: "SnapshotTask \<Rightarrow> bool" where
  "ended task \<longleftrightarrow> tk_status task \<noteq> SnapshotStatusRunning"

lemma mark_ended:
  "a < length (task_heap s) \<Longrightarrow> tk_status (task_heap (markTaskFailed now a e s) ! a) = SnapshotStatusFailed"
  "a < length (task_heap s) \<Longrightarrow> tk_status (task_heap (markTaskCompleted now a s) ! a) = SnapshotStatusCompleted"
  "length (task_heap (markTaskFailed now a e s)) = length (task_heap s)"
  "length (task_heap (markTaskCompleted now a s)) = length (task_heap s)"
  by (simp_all add: markTaskFailed_def markTaskCompleted_def)

lemma finish_status:
  "a < length (task_heap s) \<Longrightarrow> tk_status (task_heap (finish_task now a r s) ! a) =
     (case r of Inl _ \<Rightarrow> SnapshotStatusFailed | Inr _ \<Rightarrow> SnapshotStatusCompleted)"
  "length (task_heap (finish_task now a r s)) = length (task_heap s)"
  by (simp_all add: finish_task_def mark_ended split: sum.splits)

lemma reload_status:
  "a < length (task_heap s) \<Longrightarrow> tk_status (task_heap (reload now a en s) ! a) =
     (case en_Load en of Inl _ \<Rightarrow> SnapshotStatusFailed | Inr _ \<Rightarrow> tk_status (task_heap s ! a))"
  "length (task_heap (reload now a en s)) = length (task_heap s)"
  by (simp_all add: reload_def mark_ended split: sum.splits)

section \<open>Facts on the upload\<close>

lemma AddReference_refs:
  assumes "\<not> wlocked st"
  shows "\<exists>r st'. AddReference (saveToS3Impl s3) now crc path v n st = Some (r, st') \<and> \<not> wlocked st' \<and>
    refs (refCountMap st') = insert (crc, v) (refs (refCountMap st))"
proof -
  obtain r s where "AddReference (saveToS3Impl s3) now crc path v n st =
      Some (r, st\<lparr>refCountMap := add_entry now crc path v n (refCountMap st), store := s\<rparr>)"
    using AddReference_saves [OF assms] by blast
  then show ?thesis using assms by (simp add: add_entry_refs)
qed

definition referenced :: "string \<Rightarrow> 'e rcm \<Rightarrow> local_file \<Rightarrow> bool" where
  "referenced v st f \<longleftrightarrow> (\<exists>crc. lf_crc f = Inr crc \<and> (crc, v) \<in> refs (refCountMap st))"

lemma backup_file_references:
  assumes "\<not> wlocked st"
  shows "\<exists>r st'. backup_file upload (saveToS3Impl s3) now inc path v f st = Some (r, st') \<and> \<not> wlocked st' \<and>
    refs (refCountMap st) \<subseteq> refs (refCountMap st') \<and> (\<forall>fm. r = Inr fm \<longrightarrow> referenced v st' f)"
proof (cases "lf_crc f")
  case (Inl e)
  then show ?thesis using assms by (simp add: backup_file_def)
next
  case crc: (Inr crc)
  show ?thesis
  proof (cases "lf_size f")
    case (Inl e)
    then show ?thesis using assms crc by (simp add: backup_file_def)
  next
    case sz: (Inr n)
    have add: "\<exists>r st'. (case AddReference (saveToS3Impl s3) now crc p v n st1 of
          None \<Rightarrow> None | Some (Inl _, st') \<Rightarrow> Some (Inl e, st') | Some (Inr _, st') \<Rightarrow> Some (Inr fm, st')) = Some (r, st') \<and>
        \<not> wlocked st' \<and> refs (refCountMap st1) \<subseteq> refs (refCountMap st') \<and> (\<forall>fm. r = Inr fm \<longrightarrow> referenced v st' f)"
      if nl: "\<not> wlocked st1" for p e fm and st1 :: "'a rcm"
    proof -
      obtain r st' where "AddReference (saveToS3Impl s3) now crc p v n st1 = Some (r, st')" "\<not> wlocked st'"
          "refs (refCountMap st') = insert (crc, v) (refs (refCountMap st1))"
        using AddReference_refs [OF nl] by blast
      then show ?thesis using crc by (cases r) (auto simp: referenced_def)
    qed
    have info: "GetFileInfo crc st = Some (map_of (refCountMap st) crc)"
      using assms by (simp add: GetFileInfo_def rlocked_def)
    show ?thesis
    proof (cases "inc \<and> map_of (refCountMap st) crc \<noteq> None")
      case True
      then show ?thesis using crc sz add [OF assms] by (auto simp: backup_file_def info Let_def)
    next
      case False
      obtain r1 s1 where up: "retryOperation (upload (lf_path f) (Join [path, lf_name f])) defaultRetries (store st) = (r1, s1)"
        by force
      have "\<not> wlocked (st\<lparr>store := s1\<rparr>)" using assms by simp
      from add [OF this] False crc sz up assms show ?thesis
        by (cases r1; cases "map_of (refCountMap st) crc") (auto simp: backup_file_def info Let_def)
    qed
  qed
qed

lemma backup_files_reference:
  assumes "\<not> wlocked st"
  shows "\<exists>meta' errs' st'. backup_files (backup_file upload (saveToS3Impl s3) now inc path v) fs (meta, errs) st =
      Some ((meta', errs'), st') \<and> \<not> wlocked st' \<and> refs (refCountMap st) \<subseteq> refs (refCountMap st') \<and>
    errs \<le> errs' \<and> (errs' = errs \<longrightarrow> (\<forall>f \<in> set fs. referenced v st' f))"
  using assms
proof (induction fs arbitrary: meta errs st)
  case Nil
  then show ?case by simp
next
  case (Cons f fs)
  obtain r st1 where one: "backup_file upload (saveToS3Impl s3) now inc path v f st = Some (r, st1)" "\<not> wlocked st1"
      "refs (refCountMap st) \<subseteq> refs (refCountMap st1)" "\<forall>fm. r = Inr fm \<longrightarrow> referenced v st1 f"
    using backup_file_references [OF Cons.prems] by blast
  define acc where "acc = (case r of Inl _ \<Rightarrow> (meta, errs + 1) | Inr fm \<Rightarrow> (count_file fm meta, errs))"
  obtain meta' errs' st' where rest: "backup_files (backup_file upload (saveToS3Impl s3) now inc path v) fs acc st1 =
      Some ((meta', errs'), st')" "\<not> wlocked st'" "refs (refCountMap st1) \<subseteq> refs (refCountMap st')"
      "snd acc \<le> errs'" "errs' = snd acc \<longrightarrow> (\<forall>f \<in> set fs. referenced v st' f)"
    using Cons.IH [OF one(2), of "fst acc" "snd acc"] by auto
  have "referenced v st1 f \<Longrightarrow> referenced v st' f" using rest(3) by (auto simp: referenced_def)
  with one rest show ?case by (cases r) (auto simp: acc_def)
qed

lemma backup_dir_references:
  assumes "\<not> wlocked st"
  shows "\<exists>r st'. backup_dir lib (saveToS3Impl s3) now base bt v dir (meta, errs) st = Some (r, st') \<and> \<not> wlocked st' \<and>
    refs (refCountMap st) \<subseteq> refs (refCountMap st') \<and>
    (\<forall>meta' errs'. r = Inr (meta', errs') \<longrightarrow> errs \<le> errs' \<and>
       (errs' = errs \<longrightarrow> (\<exists>files. walk lib dir = Inr files \<and> (\<forall>f \<in> set files. referenced v st' f))))"
proof (cases "walk lib dir")
  case (Inl e)
  then show ?thesis using assms by (simp add: backup_dir_def)
next
  case (Inr files)
  obtain meta' errs' st' where
    "backup_files (backup_file (upload_file lib) (saveToS3Impl s3) now (bt = ''incremental'') (base @ ''/'' @ dir) v) files (meta, errs) st =
        Some ((meta', errs'), st')" "\<not> wlocked st'" "refs (refCountMap st) \<subseteq> refs (refCountMap st')"
      "errs \<le> errs'" "errs' = errs \<longrightarrow> (\<forall>f \<in> set files. referenced v st' f)"
    using backup_files_reference [OF assms] by blast
  then show ?thesis using Inr by (auto simp: backup_dir_def)
qed

lemma wait_closed_step:
  "wait_closed ans k = (ans k \<or> k < 60 \<and> wait_closed ans (Suc k))"
  by (subst wait_closed.simps) simp

lemma wait_closed_iff: "wait_closed ans (60 - n) \<longleftrightarrow> (\<exists>j \<ge> 60 - n. j \<le> 60 \<and> ans j)" if "n \<le> 60"
  using that
proof (induction n)
  case 0
  then show ?case using wait_closed_step [of ans 60] by (auto dest: antisym)
next
  case (Suc n)
  define k where "k = 60 - Suc n"
  have k: "Suc k = 60 - n" "k < 60" using Suc.prems by (simp_all add: k_def)
  have split: "(\<exists>j \<ge> k. j \<le> 60 \<and> ans j) \<longleftrightarrow> ans k \<or> (\<exists>j \<ge> Suc k. j \<le> 60 \<and> ans j)"
    using k(2) by (auto simp: Suc_le_eq nat_less_le)
  show ?case
    unfolding k_def [symmetric] wait_closed_step [of ans k] split using Suc k by simp
qed

section \<open>Properties\<close>


definition demo_snapshot :: "(string list) snapshot_lib" where
  "demo_snapshot =
     \<lparr> walk = (\<lambda>dir. Inr (if dir = ''data''
          then [\<lparr> lf_path = ''/p/backup/data/1.sst'', lf_name = ''1.sst'', lf_crc = Inr ''0b'', lf_size = Inr 9 \<rparr>] else [])),
       upload_file = (\<lambda>l p s. (Inr (), s @ [p])),
       save_meta = (\<lambda>m p s. (Inr (), s)) \<rparr>"


text \<open>
  A restored file returns to its directory, unless a name on its path is \<^verbatim>\<open>bitmap\<close>. For a file
  uploaded from the directory \<^verbatim>\<open>data\<close> or \<^verbatim>\<open>bitmap\<close> of a partition, the restore chooses the same directory
  exactly when it came from \<^verbatim>\<open>bitmap\<close> or neither the database nor the space nor the version is called
  \<^verbatim>\<open>bitmap\<close>: the data files of a space of that name are written to the bitmap directory.
\<close>

theorem restore_directory:
  assumes "segment cluster" "segment db" "segment space" "segment version" "segment name"
    and "CHR ''-'' \<notin> set db" "CHR ''-'' \<notin> set space" and "dir \<in> {''data'', ''bitmap''}"
  shows "\<exists>base. BuildBackupPath cluster (db @ ''-'' @ space) version pid = Inr base \<and>
    (restore_dir (fm\<lparr>fm_S3Path := Join [base @ ''/'' @ dir, name]\<rparr>) = dir \<longleftrightarrow>
     dir = ''bitmap'' \<or> ''bitmap'' \<notin> {db, space, version})"
proof -
  let ?ps = "[cluster, ''backup'', db, space, version, FormatNat (unat pid)]"
  have seg: "\<forall>p \<in> set ?ps. segment p"
    using assms(1-4) FormatNat_segment by (auto simp: segment_def [of "''backup''"])
  have dir: "segment dir" using assms(8) by (auto simp: segment_def)
  have "Join [join_with CHR ''/'' ?ps @ ''/'' @ dir, name] = join_with CHR ''/'' (?ps @ [dir, name])"
    by (rule upload_path [OF seg _ dir assms(5)]) simp
  then have "fm_S3Path (fm\<lparr>fm_S3Path := Join [join_with CHR ''/'' ?ps @ ''/'' @ dir, name]\<rparr>) =
      join_with CHR ''/'' [cluster, ''backup'', db, space, version, FormatNat (unat pid), dir, name]" by simp
  from restore_dir_uploaded [OF assms(1-5,8) _ this] assms(1)
  show ?thesis using BuildBackupPath_segments [OF assms(1-4,6,7)] by (simp add: segment_def [of cluster])
qed

theorem restore_directory_witness:
  "\<exists>base. BuildBackupPath ''c1'' (''db'' @ ''-'' @ ''bitmap'') ''v1'' 3 = Inr base \<and>
    (restore_dir (\<lparr> fm_FilePath = [], fm_FileName = ''1.sst'', fm_CRC32 = [], fm_Size = 1, fm_S3Path = [],
        fm_LocalPath = [], fm_UploadStatus = [] \<rparr>\<lparr>fm_S3Path := Join [base @ ''/'' @ ''data'', ''1.sst'']\<rparr>) = ''data'' \<longleftrightarrow>
     ''data'' = ''bitmap'' \<or> ''bitmap'' \<notin> {''db'', ''bitmap'', ''v1''})"
  by (rule restore_directory) (simp_all add: segment_def)

text \<open>
  A task that was started ends, and ends as it deserves. When the goroutine of a restore is over,
  its task is no longer running, and it is completed exactly if the partition and its engine were
  there, the engine closed within 61 looks and could be loaded again, and the files were restored.
\<close>

theorem restore_task_outcome:
  assumes "a < length (task_heap s)"
  shows "tk_status (task_heap (fst (startShardRestore now globalName a part restore (s, w))) ! a) =
    (if \<exists>en p s3pid src. part = Some (Some en) \<and> en_Cfg en = Inr (Some p) \<and> (\<exists>k \<le> 60. en_Closed en k) \<and>
       en_Load en = Inr () \<and> restore_ids globalName (task_heap s ! a) = (s3pid, src) \<and>
       fst (restore p s3pid src w) = Inr ()
     then SnapshotStatusCompleted else SnapshotStatusFailed)"
proof -
  have w: "wait_closed (en_Closed en) 0 \<longleftrightarrow> (\<exists>k \<le> 60. en_Closed en k)" for en
    using wait_closed_iff [of 60 "en_Closed en"] by simp
  obtain s3pid src where ids: "restore_ids globalName (task_heap s ! a) = (s3pid, src)" by force
  show ?thesis
  proof (cases "\<exists>en p. part = Some (Some en) \<and> en_Cfg en = Inr (Some p) \<and> wait_closed (en_Closed en) 0")
    case True
    then obtain en p where en: "part = Some (Some en)" "en_Cfg en = Inr (Some p)" "wait_closed (en_Closed en) 0"
      by blast
    obtain r w' where r: "restore p s3pid src w = (r, w')" by force
    with en ids have "fst (startShardRestore now globalName a part restore (s, w)) =
        (case r of Inl (GoPanic m) \<Rightarrow> markTaskFailed now a (GoPanic m) (reload now a en s)
         | _ \<Rightarrow> reload now a en (finish_task now a r s))"
      by (simp add: startShardRestore_def engine_path_def split: sum.splits go_error.splits)
    with assms en(1,2) r ids iffD1 [OF w en(3)] show ?thesis
      by (simp add: mark_ended finish_status reload_status split: sum.splits go_error.splits)
  next
    case False
    then have "tk_status (task_heap (fst (startShardRestore now globalName a part restore (s, w))) ! a) =
        SnapshotStatusFailed"
      using assms
      by (auto simp: startShardRestore_def engine_path_def mark_ended reload_status split: option.splits sum.splits)
    with False w show ?thesis by (simp only: if_False split: if_split) blast
  qed
qed

theorem restore_task_outcome_witness:
  "tk_status (task_heap (fst (startShardRestore 9 ''c'' 0 (Some (Some \<lparr> en_Cfg = Inr (Some ''/p''), en_Backup = Inr (),
      en_Closed = (\<lambda>k. k = 7), en_Load = Inr () \<rparr>)) (\<lambda>p i c w. (Inr (), w))
      (\<lparr> task_heap = [\<lparr> tk_PartitionID = 3, tk_s3PartitionID = 0, tk_status = SnapshotStatusRunning, tk_spaceKey = ''d-s'',
          tk_backupID = ''b'', tk_versionID = ''v'', tk_backupType = [], tk_sourceClusterName = [], tk_errorMessage = [],
          tk_startTime = 1, tk_completeTime = 0 \<rparr>], taskStatus = [] \<rparr>, ()))) ! 0) = SnapshotStatusCompleted"
  by (subst restore_task_outcome) (auto simp: restore_ids_def intro!: exI [of _ 7])

text \<open>
  There is one task of a kind at a time. Starting a backup of a partition is refused without effect
  while one with the same space, backup and partition runs or the type is unknown; otherwise it
  registers a running task and, backup ids being UUIDs without underscore, no other task changes.
\<close>

theorem one_backup_task_per_key:
  assumes "CHR ''_'' \<notin> set backupID" "CHR ''_'' \<notin> set backupID'" and "\<forall>k x. map_of (taskStatus s) k = Some x \<longrightarrow> x < length (task_heap s)"
  shows "case StartPartitionBackup now spaceKey backupID versionID pid bt s of
      (Inl e, s') \<Rightarrow> s' = s \<and> (running spaceKey backupID pid s \<or> bt \<notin> {[], ''full'', ''incremental''})
    | (Inr a, s') \<Rightarrow> \<not> running spaceKey backupID pid s \<and> bt \<in> {[], ''full'', ''incremental''} \<and>
        GetBackupTaskStatus spaceKey backupID pid s' = (0, [], True) \<and>
        ((spaceKey', backupID', pid') \<noteq> (spaceKey, backupID, pid) \<longrightarrow>
           GetTaskStatus spaceKey' backupID' pid' s' = GetTaskStatus spaceKey' backupID' pid' s)"
proof (cases "running spaceKey backupID pid s \<or> bt \<notin> {[], ''full'', ''incremental''}")
  case True
  then show ?thesis by (auto simp: StartPartitionBackup_def Let_def)
next
  case False
  have "getTaskKey spaceKey' backupID' pid' \<noteq> getTaskKey spaceKey backupID pid"
    if "(spaceKey', backupID', pid') \<noteq> (spaceKey, backupID, pid)"
    using that getTaskKey_inject [OF assms(2,1)] by auto
  moreover have "(xs @ [t]) ! x = xs ! x" if "map_of (taskStatus s) k = Some x" "xs = task_heap s" for k x t xs
    using assms(3) that by (simp add: nth_append)
  ultimately show ?thesis
    using False
    by (auto simp: StartPartitionBackup_def new_task_def registerTask_def GetBackupTaskStatus_def GetTaskStatus_def
        update_conv' Let_def option.map_comp comp_def intro!: option.map_cong0)
qed

theorem one_backup_task_per_key_witness:
  "GetBackupTaskStatus ''d-s'' ''b1'' 3
     (snd (StartPartitionBackup 1 ''d-s'' ''b1'' ''v'' 3 [] \<lparr> task_heap = [], taskStatus = [] \<rparr>)) = (0, [], True)"
proof -
  let ?s = "\<lparr> task_heap = [], taskStatus = [] \<rparr> :: shard_mgr"
  have n: "\<not> running ''d-s'' ''b1'' 3 ?s" by (simp add: running_def GetTaskStatus_def)
  obtain r s' where st: "StartPartitionBackup 1 ''d-s'' ''b1'' ''v'' 3 [] ?s = (r, s')" by force
  have "case StartPartitionBackup 1 ''d-s'' ''b1'' ''v'' 3 [] ?s of
      (Inl e, s') \<Rightarrow> s' = ?s \<and> (running ''d-s'' ''b1'' 3 ?s \<or> [] \<notin> {[], ''full'', ''incremental''})
    | (Inr a, s') \<Rightarrow> \<not> running ''d-s'' ''b1'' 3 ?s \<and> [] \<in> {[], ''full'', ''incremental''} \<and>
        GetBackupTaskStatus ''d-s'' ''b1'' 3 s' = (0, [], True) \<and>
        ((''d-s'', ''b2'', 3 :: 32 word) \<noteq> (''d-s'', ''b1'', 3) \<longrightarrow>
           GetTaskStatus ''d-s'' ''b2'' 3 s' = GetTaskStatus ''d-s'' ''b2'' 3 ?s)"
    by (rule one_backup_task_per_key) simp_all
  with st n show ?thesis by (cases r) simp_all
qed

end
