(* ===== verification/SearchMerge.thy ===== *)
theory SearchMerge
  imports GoLib
begin

text \<open>
  The router's answer to a search or a query, made of the answers of the partitions:
  \<^verbatim>\<open>mergeSortedArrays\<close>, \<^verbatim>\<open>AddMerge\<close>, \<^verbatim>\<open>AddMergeSort\<close>, \<^verbatim>\<open>AddMergeResultArr\<close> and the merging halves of
  \<^verbatim>\<open>SearchFieldSortExecute\<close> and \<^verbatim>\<open>QueryFieldSortExecute\<close> in \<^verbatim>\<open>internal/client/client.go\<close>, with paging.

  The replies come in the order in which they arrive on the channel. A nil pointer is \<open>None\<close>; reading
  through it is a panic, which both functions recover into an error. Tracing is off.
  \<^verbatim>\<open>sort.Slice\<close> is the parameter \<open>sortf\<close>, of which the properties assume the contract \<open>go_sort\<close>.
\<close>

section \<open>Data\<close>

text \<open>The value of an \<^verbatim>\<open>int32\<close> expression.\<close>

definition int32 :: "int \<Rightarrow> int" where
  "int32 x = (x + 2 ^ 31) mod 2 ^ 32 - 2 ^ 31"

lemma int32_id [simp]: "- (2 ^ 31) \<le> x \<Longrightarrow> x < 2 ^ 31 \<Longrightarrow> int32 x = x"
  unfolding int32_def by (subst mod_pos_pos_trivial) simp_all

record ResultItem =
  ri_Score :: float64
  ri_Fields :: "((string \<times> string) option) list"
  ri_PKey :: string

record SearchStatus =
  ss_Total :: int
  ss_Failed :: int
  ss_Successful :: int

record SearchResult =
  sr_TotalHits :: int
  sr_MaxScore :: float64
  sr_MaxTook :: int
  sr_MaxTookId :: "32 word"
  sr_Status :: "SearchStatus option"
  sr_Timeout :: bool
  sr_ResultItems :: "ResultItem list"

record ResponseHead =
  rh_RequestId :: string
  rh_Err :: "go_error option"

record SearchResponse =
  rs_Head :: "ResponseHead option"
  rs_Results :: "SearchResult list"

text \<open>
  What a partition sends back, and what the request says about the size of the answer;
  \<open>pq_TopN\<close> is \<^verbatim>\<open>TopN\<close> of a search and \<^verbatim>\<open>Limit\<close> of a query.
\<close>

record part_reply =
  pa_Err :: "go_error option"
  pa_Response :: "SearchResponse option"

record page_request =
  pq_TopN :: int
  pq_PageSize :: int
  pq_PageNum :: int
  pq_DocumentIds :: "string list"

definition nil_panic :: go_error where
  "nil_panic = GoPanic ''nil pointer dereference''"

section \<open>Merging two results\<close>

definition before :: "bool \<Rightarrow> ResultItem \<Rightarrow> ResultItem \<Rightarrow> bool" where
  "before desc x y = (if desc then f_lt (ri_Score y) (ri_Score x) else f_lt (ri_Score x) (ri_Score y))"

fun merge_loop :: "bool \<Rightarrow> ResultItem list \<Rightarrow> ResultItem list \<Rightarrow> ResultItem list" where
  "merge_loop desc [] ys = ys"
| "merge_loop desc (x # xs) [] = x # xs"
| "merge_loop desc (x # xs) (y # ys) =
     (if before desc x y then x # merge_loop desc xs (y # ys) else y # merge_loop desc (x # xs) ys)"

text \<open>\<^verbatim>\<open>merged[:topN]\<close> panics for a negative \<open>topN\<close>.\<close>

definition mergeSortedArrays ::
  "ResultItem list \<Rightarrow> ResultItem list \<Rightarrow> int \<Rightarrow> bool \<Rightarrow> (ResultItem list) res" where
  "mergeSortedArrays arr1 arr2 topN desc =
     (let m = int (length arr1); n = int (length arr2) in
      if m = 0 then (if topN > 0 \<and> n > topN then Inr (take (nat topN) arr2) else Inr arr2)
      else if n = 0 then (if topN > 0 \<and> m > topN then Inr (take (nat topN) arr1) else Inr arr1)
      else let merged = merge_loop desc arr1 arr2 in
        if int (length merged) > topN then
          (if topN < 0 then Inl (GoPanic ''slice bounds out of range'') else Inr (take (nat topN) merged))
        else Inr merged)"

definition Merge :: "SearchStatus option \<Rightarrow> SearchStatus option \<Rightarrow> (SearchStatus option) res" where
  "Merge ss other =
     (case (ss, other) of
        (Some s, Some t) \<Rightarrow> Inr (Some
          \<lparr> ss_Total = int32 (ss_Total s + ss_Total t), ss_Failed = int32 (ss_Failed s + ss_Failed t),
            ss_Successful = int32 (ss_Successful s + ss_Successful t) \<rparr>)
      | _ \<Rightarrow> Inl nil_panic)"

text \<open>The common part of \<^verbatim>\<open>AddMerge\<close> and \<^verbatim>\<open>AddMergeSort\<close>.\<close>

definition merge_totals :: "SearchResult \<Rightarrow> SearchResult \<Rightarrow> SearchResult res" where
  "merge_totals sr other =
     bind_res (Merge (sr_Status sr) (sr_Status other)) (\<lambda>st.
       Inr (sr\<lparr>sr_Status := st,
               sr_TotalHits := int32 (sr_TotalHits sr + sr_TotalHits other),
               sr_MaxScore := (if f_lt (sr_MaxScore sr) (sr_MaxScore other) then sr_MaxScore other else sr_MaxScore sr),
               sr_MaxTook := (if sr_MaxTook other > sr_MaxTook sr then sr_MaxTook other else sr_MaxTook sr),
               sr_MaxTookId := (if sr_MaxTook other > sr_MaxTook sr then sr_MaxTookId other else sr_MaxTookId sr),
               sr_Timeout := (sr_Timeout sr \<and> sr_Timeout other)\<rparr>))"

definition AddMerge :: "SearchResult \<Rightarrow> SearchResult \<Rightarrow> SearchResult res" where
  "AddMerge sr other =
     bind_res (merge_totals sr other) (\<lambda>sr'.
       Inr (if length (sr_ResultItems sr) > 0 \<or> length (sr_ResultItems other) > 0
            then sr'\<lparr>sr_ResultItems := sr_ResultItems sr @ sr_ResultItems other\<rparr> else sr'))"

definition AddMergeSort :: "int \<Rightarrow> bool \<Rightarrow> SearchResult \<Rightarrow> SearchResult \<Rightarrow> SearchResult res" where
  "AddMergeSort topN desc sr other =
     bind_res (merge_totals sr other) (\<lambda>sr'.
       if length (sr_ResultItems sr) > 0 \<or> length (sr_ResultItems other) > 0
       then bind_res (mergeSortedArrays (sr_ResultItems sr) (sr_ResultItems other) topN desc) (\<lambda>items.
              Inr (sr'\<lparr>sr_ResultItems := items\<rparr>))
       else Inr sr')"

definition Compare :: "float64 \<Rightarrow> float64 \<Rightarrow> int" where
  "Compare old new = f_cmp old new"

text \<open>
  One result per query vector. The lists are merged position by position; when the second is
  shorter, its first element is merged into all the positions that it has.
\<close>

fun zip_merge :: "(SearchResult \<Rightarrow> SearchResult \<Rightarrow> SearchResult res) \<Rightarrow> SearchResult list \<Rightarrow> SearchResult list \<Rightarrow>
    (SearchResult list) res" where
  "zip_merge f [] ys = Inr []"
| "zip_merge f (x # xs) [] = Inr (x # xs)"
| "zip_merge f (x # xs) (y # ys) =
     bind_res (f x y) (\<lambda>z. bind_res (zip_merge f xs ys) (\<lambda>zs. Inr (z # zs)))"

definition merge_results ::
  "(SearchResult \<Rightarrow> SearchResult \<Rightarrow> SearchResult res) \<Rightarrow> SearchResult list \<Rightarrow> SearchResult list \<Rightarrow>
     (SearchResult list) res" where
  "merge_results f dest src =
     (if length dest \<le> length src then zip_merge f dest src
      else zip_merge f dest (map (\<lambda>i. src ! 0) [0..<length src]))"

definition AddMergeResultArr :: "SearchResult list \<Rightarrow> SearchResult list \<Rightarrow> (SearchResult list) res" where
  "AddMergeResultArr dest src = merge_results AddMerge dest src"

section \<open>Paging\<close>

text \<open>\<^verbatim>\<open>items[start:end]\<close> with \<^verbatim>\<open>int32\<close> bounds.\<close>

definition page :: "int \<Rightarrow> int \<Rightarrow> 'a list \<Rightarrow> ('a list) res" where
  "page pageSize pageNum xs =
     (let start = int32 (pageSize * int32 (pageNum - 1)); stop = int32 (start + pageSize);
          len = int (length xs) in
      if start \<ge> len then Inr []
      else let stop' = (if stop > len then int32 len else stop) in
        if 0 \<le> start \<and> start \<le> stop' then Inr (take (nat (stop' - start)) (drop (nat start) xs))
        else Inl (GoPanic ''slice bounds out of range''))"

definition cut :: "page_request \<Rightarrow> 'a list \<Rightarrow> ('a list) res" where
  "cut pq xs =
     (if length xs > 0 then
        if pq_PageSize pq > 0 \<and> pq_PageNum pq \<ge> 1 then page (pq_PageSize pq) (pq_PageNum pq) xs
        else if pq_TopN pq > 0 \<and> int (length xs) > pq_TopN pq then Inr (take (nat (pq_TopN pq)) xs)
        else Inr xs
      else Inr xs)"

section \<open>Searches\<close>

record merging =
  mg_result :: "SearchResult list"
  mg_response :: "SearchResponse option"
  mg_finalErr :: "go_error option"
  mg_headErr :: "go_error option"

definition head_err :: "part_reply \<Rightarrow> go_error option" where
  "head_err r =
     (case pa_Response r of None \<Rightarrow> None | Some rsp \<Rightarrow>
        (case rs_Head rsp of None \<Rightarrow> None | Some h \<Rightarrow> rh_Err h))"

definition search_step :: "int \<Rightarrow> bool \<Rightarrow> part_reply \<Rightarrow> merging \<Rightarrow> merging res" where
  "search_step topN desc r st =
     (if pa_Err r \<noteq> None then Inr (st\<lparr>mg_finalErr := pa_Err r\<rparr>)
      else if head_err r \<noteq> None then Inr (st\<lparr>mg_finalErr := head_err r\<rparr>)
      else let st' = (if mg_result st = [] then st\<lparr>mg_response := pa_Response r\<rparr> else st) in
        case pa_Response r of
          None \<Rightarrow> Inl nil_panic
        | Some rsp \<Rightarrow>
            if mg_result st = [] \<and> length (rs_Results rsp) > 0 then Inr (st'\<lparr>mg_result := rs_Results rsp\<rparr>)
            else bind_res (merge_results (AddMergeSort topN desc) (mg_result st') (rs_Results rsp)) (\<lambda>res.
              Inr (st'\<lparr>mg_result := res\<rparr>)))"

fun run_replies :: "(part_reply \<Rightarrow> merging \<Rightarrow> merging res) \<Rightarrow> part_reply list \<Rightarrow> merging \<Rightarrow> merging res" where
  "run_replies step [] st = Inr st"
| "run_replies step (r # rs) st = bind_res (step r st) (run_replies step rs)"

definition merging0 :: merging where
  "merging0 = \<lparr> mg_result = [], mg_response = None, mg_finalErr = None, mg_headErr = None \<rparr>"

definition recovered :: "'a res \<Rightarrow> 'a res" where
  "recovered r =
     (case r of Inl _ \<Rightarrow> Inl (NewError RECOVER (Some (GoErr ''merge result err''))) | Inr x \<Rightarrow> Inr x)"

definition SearchFieldSortExecute ::
  "((ResultItem \<Rightarrow> ResultItem \<Rightarrow> bool) \<Rightarrow> ResultItem list \<Rightarrow> ResultItem list) \<Rightarrow> page_request \<Rightarrow> bool \<Rightarrow> string \<Rightarrow>
     part_reply list \<Rightarrow> SearchResponse res" where
  "SearchFieldSortExecute sortf pq desc msgId replies = recovered (
     bind_res (run_replies (search_step (pq_TopN pq) desc) replies merging0) (\<lambda>st.
     bind_res (map_res (\<lambda>resp. bind_res (cut pq (sortf (before desc) (sr_ResultItems resp))) (\<lambda>items.
         Inr (resp\<lparr>sr_ResultItems := items\<rparr>))) (mg_result st)) (\<lambda>results.
     let response = (case mg_response st of
           None \<Rightarrow> \<lparr> rs_Head = Some \<lparr> rh_RequestId = [], rh_Err = mg_finalErr st \<rparr>, rs_Results = [] \<rparr>
         | Some rsp \<Rightarrow> rsp) in
     case rs_Head response of
       None \<Rightarrow> Inl nil_panic
     | Some h \<Rightarrow> Inr (response\<lparr>rs_Results := results, rs_Head := Some (h\<lparr>rh_RequestId := msgId\<rparr>)\<rparr>))))"

section \<open>Queries\<close>

text \<open>Only the replies that come before the first results are checked for an error in their head.\<close>

definition query_step :: "part_reply \<Rightarrow> merging \<Rightarrow> merging res" where
  "query_step r st =
     (if pa_Err r \<noteq> None then Inr (st\<lparr>mg_finalErr := pa_Err r\<rparr>)
      else if mg_result st = [] \<and> head_err r \<noteq> None then Inr (st\<lparr>mg_headErr := head_err r\<rparr>)
      else case pa_Response r of
          None \<Rightarrow> Inl nil_panic
        | Some rsp \<Rightarrow>
            if mg_result st = [] \<and> length (rs_Results rsp) > 0 then Inr (st\<lparr>mg_result := rs_Results rsp\<rparr>)
            else bind_res (AddMergeResultArr (mg_result st) (rs_Results rsp)) (\<lambda>res.
              Inr (st\<lparr>mg_result := res\<rparr>)))"

text \<open>The primary key of an item is the value of its last field \<^verbatim>\<open>_id\<close>; ids not asked for sort as 0.\<close>

definition item_key :: "ResultItem \<Rightarrow> ResultItem" where
  "item_key it =
     foldl (\<lambda>it f. case f of None \<Rightarrow> it | Some (n, v) \<Rightarrow> if n = ''_id'' then it\<lparr>ri_PKey := v\<rparr> else it)
       it (ri_Fields it)"

definition id_order :: "string list \<Rightarrow> string \<Rightarrow> nat" where
  "id_order ids key =
     (case map_of (rev (zip ids [0..<length ids])) key of None \<Rightarrow> 0 | Some i \<Rightarrow> i)"

definition finish_query ::
  "((ResultItem \<Rightarrow> ResultItem \<Rightarrow> bool) \<Rightarrow> ResultItem list \<Rightarrow> ResultItem list) \<Rightarrow> page_request \<Rightarrow> merging \<Rightarrow>
     SearchResponse res" where
  "finish_query sortf pq st =
     (let respond = (\<lambda>err results. \<lparr> rs_Head = Some \<lparr> rh_RequestId = [], rh_Err = err \<rparr>, rs_Results = results \<rparr>);
          result = mg_result st in
      if result = [] \<and> mg_headErr st \<noteq> None then Inr (respond (mg_headErr st) result)
      else if mg_finalErr st \<noteq> None then Inr (respond (mg_finalErr st) result)
      else case result of
        [] \<Rightarrow> Inr (respond None result)
      | [resp] \<Rightarrow>
          if length (pq_DocumentIds pq) = 0 then
            bind_res (cut pq (sr_ResultItems resp)) (\<lambda>items.
              Inr (respond None [resp\<lparr>sr_ResultItems := items\<rparr>]))
          else Inr (respond None [resp\<lparr>sr_ResultItems :=
                 sortf (\<lambda>x y. id_order (pq_DocumentIds pq) (ri_PKey x) < id_order (pq_DocumentIds pq) (ri_PKey y))
                   (map item_key (sr_ResultItems resp))\<rparr>])
      | _ \<Rightarrow> Inr (respond (Some (VErr PARAM_ERROR ''the document_ids of query should be a one-dimensional array''))
               result))"

definition QueryFieldSortExecute ::
  "((ResultItem \<Rightarrow> ResultItem \<Rightarrow> bool) \<Rightarrow> ResultItem list \<Rightarrow> ResultItem list) \<Rightarrow> page_request \<Rightarrow>
     part_reply list \<Rightarrow> SearchResponse res" where
  "QueryFieldSortExecute sortf pq replies =
     recovered (bind_res (run_replies query_step replies merging0) (finish_query sortf pq))"

section \<open>The best items\<close>

abbreviation in_order :: "bool \<Rightarrow> ResultItem list \<Rightarrow> bool" where
  "in_order desc \<equiv> sorted_wrt (\<lambda>x y. \<not> before desc y x)"

definition scored :: "ResultItem multiset \<Rightarrow> bool" where
  "scored M \<longleftrightarrow> (\<forall>x \<in># M. ri_Score x \<noteq> NaN)"

lemma before_asym: "before desc x y \<Longrightarrow> \<not> before desc y x"
  by (auto simp: before_def dest: f_lt_asym split: if_splits)

lemma before_negtrans:
  "ri_Score y \<noteq> NaN \<Longrightarrow> before desc x z \<Longrightarrow> before desc x y \<or> before desc y z"
  by (auto simp: before_def dest: f_lt_negtrans split: if_splits)

lemma before_strict_weak: "scored M \<Longrightarrow> set xs \<subseteq> set_mset M \<Longrightarrow> strict_weak (before desc) (set xs)"
  unfolding strict_weak_def scored_def using before_asym before_negtrans by blast

lemma mset_merge_loop [simp]: "mset (merge_loop desc xs ys) = mset xs + mset ys"
  by (induction desc xs ys rule: merge_loop.induct) auto

lemma set_merge_loop [simp]: "set (merge_loop desc xs ys) = set xs \<union> set ys"
  by (metis mset_merge_loop set_mset_mset set_mset_union)

lemma in_order_merge_loop:
  assumes "in_order desc xs" and "in_order desc ys" and "scored (mset xs + mset ys)"
  shows "in_order desc (merge_loop desc xs ys)"
  using assms
proof (induction desc xs ys rule: merge_loop.induct)
  case (3 desc x xs y ys)
  show ?case
  proof (cases "before desc x y")
    case True
    have "\<not> before desc z x" if "z \<in> insert y (set ys)" for z
    proof
      assume "before desc z x"
      then have "before desc z y \<or> before desc y x"
        using "3.prems"(3) by (intro before_negtrans) (auto simp: scored_def)
      moreover have "\<not> before desc z y" using that "3.prems"(2) before_asym by auto
      ultimately show False using before_asym [OF True] by blast
    qed
    moreover have "in_order desc (merge_loop desc xs (y # ys))"
      using True "3.prems" by (intro "3.IH"(1)) (auto simp: scored_def)
    ultimately show ?thesis using True "3.prems"(1) by auto
  next
    case False
    have "\<not> before desc z y" if "z \<in> insert x (set xs)" for z
    proof
      assume z: "before desc z y"
      then have "before desc z x \<or> before desc x y"
        using "3.prems"(3) by (intro before_negtrans) (auto simp: scored_def)
      moreover have "\<not> before desc z x" using that "3.prems"(1) z False by auto
      ultimately show False using False by blast
    qed
    moreover have "in_order desc (merge_loop desc (x # xs) ys)"
      using False "3.prems" by (intro "3.IH"(2)) (auto simp: scored_def)
    ultimately show ?thesis using False "3.prems"(2) by auto
  qed
qed simp_all

text \<open>\<open>best n desc M xs\<close>: \<open>xs\<close> are \<open>n\<close> best of the items \<open>M\<close>, or all of them, in order.\<close>

definition best :: "nat \<Rightarrow> bool \<Rightarrow> ResultItem multiset \<Rightarrow> ResultItem list \<Rightarrow> bool" where
  "best n desc M xs \<longleftrightarrow>
     in_order desc xs \<and> mset xs \<subseteq># M \<and> length xs = min n (size M) \<and>
     (\<forall>x \<in> set xs. \<forall>y \<in># M - mset xs. \<not> before desc y x)"

lemma best_take:
  assumes "in_order desc xs"
  shows "best n desc (mset xs) (take n xs)"
proof -
  have "mset xs - mset (take n xs) = mset (drop n xs)"
    by (metis add_diff_cancel_left' append_take_drop_id mset_append)
  moreover have "in_order desc (take n xs @ drop n xs)" using assms by simp
  then have "in_order desc (take n xs)" "\<forall>x \<in> set (take n xs). \<forall>y \<in> set (drop n xs). \<not> before desc y x"
    unfolding sorted_wrt_append by blast+
  moreover have "mset (take n xs) \<subseteq># mset xs" using mset_take_drop [of n xs] by (metis mset_subset_eq_add_left)
  ultimately show ?thesis by (simp add: best_def min.commute)
qed

lemma best_merge:
  assumes "best n desc A xs" and "in_order desc ys" and "scored (A + mset ys)"
  shows "best n desc (A + mset ys) (take n (merge_loop desc xs ys))"
proof -
  let ?m = "merge_loop desc xs ys" let ?t = "take n ?m"
  have xs: "in_order desc xs" "mset xs \<subseteq># A" "length xs = min n (size A)"
      "\<And>x y. x \<in> set xs \<Longrightarrow> y \<in># A - mset xs \<Longrightarrow> \<not> before desc y x"
    using assms(1) by (auto simp: best_def)
  have sc: "scored (mset xs + mset ys)"
    using assms(3) xs(2) mset_subset_eqD by (fastforce simp: scored_def)
  have t: "in_order desc ?t" "mset ?t \<subseteq># mset xs + mset ys" "length ?t = min n (length xs + length ys)"
      "\<And>x y. x \<in> set ?t \<Longrightarrow> y \<in># mset xs + mset ys - mset ?t \<Longrightarrow> \<not> before desc y x"
    using best_take [OF in_order_merge_loop [OF xs(1) assms(2) sc], of n] by (auto simp: best_def)
  have sub: "mset ?t \<subseteq># A + mset ys"
    using t(2) xs(2) by (meson mset_subset_eq_mono_add subset_mset.order_refl subset_mset.order_trans)
  have rest: "A + mset ys - mset ?t = (A - mset xs) + (mset xs + mset ys - mset ?t)"
    using t(2) xs(2) by (metis (no_types, lifting) add.assoc subset_mset.add_diff_assoc2 subset_mset.add_diff_inverse
        subset_mset.diff_add_assoc2 union_commute)
  have dropped: "\<not> before desc y x" if x: "x \<in> set ?t" and y: "y \<in># A - mset xs" for x y
  proof (cases "x \<in> set xs")
    case True
    then show ?thesis using xs(4) y by blast
  next
    case False
    have "size A \<noteq> length xs" using y xs(2) by (metis empty_iff set_mset_empty size_mset size_Diff_submset diff_self_eq_0 size_eq_0_iff_empty)
    with xs(3) have n: "length xs = n" by simp
    then have "size (mset ?t) = size (mset xs)" using t(3) by simp
    moreover have "mset ?t \<noteq> mset xs" using False x by (metis mset_eq_setD)
    ultimately have "\<not> mset xs \<subseteq># mset ?t" by (metis mset_subset_size subset_mset.le_neq_trans nat_neq_iff)
    then obtain z where z: "z \<in># mset xs - mset ?t" by (metis Diff_eq_empty_iff_mset multiset_nonemptyE)
    then have "z \<in># mset xs + mset ys - mset ?t"
      by (metis in_diff_count count_union trans_less_add1)
    then have zx: "\<not> before desc z x" using t(4) x by blast
    have "z \<in> set xs" using z in_diffD by fastforce
    then have "\<not> before desc y z" "ri_Score z \<noteq> NaN" using xs(4) y sc by (auto simp: scored_def)
    then show ?thesis using zx before_negtrans by blast
  qed
  show ?thesis
    unfolding best_def rest
    using t(1,3) sub dropped t(4) xs(3) by auto
qed

lemma mergeSortedArrays_pos:
  "topN > 0 \<Longrightarrow> mergeSortedArrays xs ys topN desc = Inr (take (nat topN) (merge_loop desc xs ys))"
  by (cases xs; cases ys) (auto simp: mergeSortedArrays_def Let_def)

lemma AddMergeSort_items:
  assumes "topN > 0" and "sr_Status sr \<noteq> None" and "sr_Status other \<noteq> None"
  shows "\<exists>sr'. AddMergeSort topN desc sr other = Inr sr' \<and> sr_Status sr' \<noteq> None \<and>
    sr_ResultItems sr' = take (nat topN) (merge_loop desc (sr_ResultItems sr) (sr_ResultItems other))"
  using assms
  by (auto simp: AddMergeSort_def merge_totals_def Merge_def mergeSortedArrays_pos)

text \<open>A reply that carries one result, in order and with scores that are numbers.\<close>

definition good_reply :: "bool \<Rightarrow> part_reply \<Rightarrow> bool" where
  "good_reply desc r \<longleftrightarrow>
     pa_Err r = None \<and>
     (\<exists>rsp h sr. pa_Response r = Some rsp \<and> rs_Head rsp = Some h \<and> rh_Err h = None \<and> rs_Results rsp = [sr] \<and>
        sr_Status sr \<noteq> None \<and> in_order desc (sr_ResultItems sr) \<and> scored (mset (sr_ResultItems sr)))"

definition items_of :: "part_reply \<Rightarrow> ResultItem list" where
  "items_of r = (case pa_Response r of None \<Rightarrow> [] | Some rsp \<Rightarrow> concat (map sr_ResultItems (rs_Results rsp)))"

text \<open>The merging so far: one result with a head, holding all items of \<open>M\<close> or its best.\<close>

definition merged_ok :: "nat \<Rightarrow> bool \<Rightarrow> ResultItem multiset \<Rightarrow> merging \<Rightarrow> bool" where
  "merged_ok n desc M st \<longleftrightarrow>
     (\<exists>sr rsp h. mg_result st = [sr] \<and> mg_response st = Some rsp \<and> rs_Head rsp = Some h \<and> rh_Err h = None \<and>
        sr_Status sr \<noteq> None \<and>
        (in_order desc (sr_ResultItems sr) \<and> M = mset (sr_ResultItems sr) \<or> best n desc M (sr_ResultItems sr)))"

lemma search_step_good:
  assumes "merged_ok (nat topN) desc M st" and "good_reply desc r" and "topN > 0" and "scored M"
  shows "\<exists>st'. search_step topN desc r st = Inr st' \<and> merged_ok (nat topN) desc (M + mset (items_of r)) st'"
proof -
  obtain sr rsp h where st: "mg_result st = [sr]" "mg_response st = Some rsp" "rs_Head rsp = Some h" "rh_Err h = None"
      "sr_Status sr \<noteq> None"
      "in_order desc (sr_ResultItems sr) \<and> M = mset (sr_ResultItems sr) \<or> best (nat topN) desc M (sr_ResultItems sr)"
    using assms(1) unfolding merged_ok_def by blast
  obtain rsp' h' sr' where r: "pa_Err r = None" "pa_Response r = Some rsp'" "rs_Head rsp' = Some h'" "rh_Err h' = None"
      "rs_Results rsp' = [sr']" "sr_Status sr' \<noteq> None" "in_order desc (sr_ResultItems sr')"
      "scored (mset (sr_ResultItems sr'))"
    using assms(2) unfolding good_reply_def by blast
  obtain sr2 where m: "AddMergeSort topN desc sr sr' = Inr sr2" "sr_Status sr2 \<noteq> None"
      "sr_ResultItems sr2 = take (nat topN) (merge_loop desc (sr_ResultItems sr) (sr_ResultItems sr'))"
    using AddMergeSort_items [OF assms(3) st(5) r(6)] by blast
  have sc: "scored (M + mset (sr_ResultItems sr'))" using assms(4) r(8) by (auto simp: scored_def)
  from st(6) have "best (nat topN) desc (M + mset (sr_ResultItems sr')) (sr_ResultItems sr2)"
  proof
    assume full: "in_order desc (sr_ResultItems sr) \<and> M = mset (sr_ResultItems sr)"
    then have "in_order desc (merge_loop desc (sr_ResultItems sr) (sr_ResultItems sr'))"
      using r(7) sc by (intro in_order_merge_loop) auto
    from best_take [OF this, of "nat topN"] full show ?thesis by (simp add: m(3))
  next
    assume "best (nat topN) desc M (sr_ResultItems sr)"
    from best_merge [OF this r(7) sc] show ?thesis by (simp add: m(3))
  qed
  moreover have "search_step topN desc r st = Inr (st\<lparr>mg_result := [sr2]\<rparr>)"
    using r st(1) m(1) by (simp add: search_step_def head_err_def merge_results_def)
  ultimately show ?thesis
    using st(2-5) m(2) r(2,5) by (auto simp: merged_ok_def items_of_def)
qed

lemma search_replies_good:
  assumes "merged_ok (nat topN) desc M st" and "\<forall>r \<in> set rs. good_reply desc r" and "topN > 0" and "scored M"
  shows "\<exists>st'. run_replies (search_step topN desc) rs st = Inr st' \<and>
    merged_ok (nat topN) desc (M + (\<Sum>r\<leftarrow>rs. mset (items_of r))) st'"
  using assms
proof (induction rs arbitrary: M st)
  case (Cons r rs)
  obtain st1 where st1: "search_step topN desc r st = Inr st1" "merged_ok (nat topN) desc (M + mset (items_of r)) st1"
    using search_step_good [OF Cons.prems(1) _ Cons.prems(3,4), of r] Cons.prems(2) by auto
  have "scored (M + mset (items_of r))"
    using Cons.prems(2,4) by (auto simp: scored_def good_reply_def items_of_def)
  from Cons.IH [OF st1(2) _ Cons.prems(3) this] Cons.prems(2) st1(1)
  show ?case by (auto simp: add.assoc)
qed simp

lemma best_sorted:
  assumes "go_sort sortf" and "in_order desc xs \<and> M = mset xs \<or> best n desc M xs" and "scored M"
  shows "best n desc M (take n (sortf (before desc) xs))"
proof -
  let ?ys = "sortf (before desc) xs"
  have ms: "mset ?ys = mset xs" by (rule go_sort.sort_mset [OF assms(1)])
  then have sets: "set ?ys = set xs" "length ?ys = length xs" by (metis mset_eq_setD, metis size_mset)
  have "set xs \<subseteq> set_mset M"
    using assms(2) by (auto simp: best_def dest: mset_subset_eqD)
  then have ord: "in_order desc ?ys"
    using go_sort.sort_sorted [OF assms(1)] before_strict_weak [OF assms(3)] by blast
  from assms(2) show ?thesis
  proof
    assume "in_order desc xs \<and> M = mset xs"
    then show ?thesis using best_take [OF ord, of n] ms by simp
  next
    assume b: "best n desc M xs"
    then have "take n ?ys = ?ys" using sets by (simp add: best_def)
    then show ?thesis using b ms sets ord by (simp add: best_def)
  qed
qed

lemma cut_top: "pq_TopN pq > 0 \<Longrightarrow> pq_PageSize pq = 0 \<Longrightarrow> cut pq xs = Inr (take (nat (pq_TopN pq)) xs)"
  by (auto simp: cut_def)

section \<open>Properties\<close>

text \<open>
  C4: a search over many partitions returns the best items of all of them. When every partition answers
  with its items in order and with numbers as scores, the router returns, in order, \<^verbatim>\<open>TopN\<close> items (or
  all, if there are fewer) such that no item left out anywhere is better than one that is returned,
  in whatever order the answers arrive.
\<close>

theorem search_returns_global_best:
  assumes "go_sort sortf" and "pq_TopN pq > 0" and "pq_PageSize pq = 0" and "replies \<noteq> []"
    and "\<forall>r \<in> set replies. good_reply desc r"
  shows "\<exists>rsp sr. SearchFieldSortExecute sortf pq desc msgId replies = Inr rsp \<and> rs_Results rsp = [sr] \<and>
    best (nat (pq_TopN pq)) desc (\<Sum>r\<leftarrow>replies. mset (items_of r)) (sr_ResultItems sr)"
proof -
  let ?n = "nat (pq_TopN pq)"
  obtain r rs where rs: "replies = r # rs" using assms(4) by (cases replies) auto
  obtain rsp h sr where r: "pa_Err r = None" "pa_Response r = Some rsp" "rs_Head rsp = Some h" "rh_Err h = None"
      "rs_Results rsp = [sr]" "sr_Status sr \<noteq> None" "in_order desc (sr_ResultItems sr)"
      "scored (mset (sr_ResultItems sr))"
    using assms(5) rs unfolding good_reply_def by auto
  have first: "search_step (pq_TopN pq) desc r merging0 =
      Inr (merging0\<lparr>mg_response := Some rsp, mg_result := [sr]\<rparr>)"
    using r by (simp add: search_step_def head_err_def merging0_def)
  have items: "items_of r = sr_ResultItems sr" using r by (simp add: items_of_def)
  have "merged_ok ?n desc (mset (items_of r)) (merging0\<lparr>mg_response := Some rsp, mg_result := [sr]\<rparr>)"
    using r items by (simp add: merged_ok_def)
  from search_replies_good [OF this _ assms(2), of rs] assms(5) rs items r(8)
  obtain st where st: "run_replies (search_step (pq_TopN pq) desc) replies merging0 = Inr st"
      "merged_ok ?n desc (\<Sum>r\<leftarrow>replies. mset (items_of r)) st"
    using first by auto
  obtain sr' rsp' h' where m: "mg_result st = [sr']" "mg_response st = Some rsp'" "rs_Head rsp' = Some h'"
      "in_order desc (sr_ResultItems sr') \<and> (\<Sum>r\<leftarrow>replies. mset (items_of r)) = mset (sr_ResultItems sr') \<or>
       best ?n desc (\<Sum>r\<leftarrow>replies. mset (items_of r)) (sr_ResultItems sr')"
    using st(2) unfolding merged_ok_def by blast
  have sc: "scored (\<Sum>r\<leftarrow>replies. mset (items_of r))"
    using assms(5) by (induction replies) (auto simp: scored_def good_reply_def items_of_def)
  show ?thesis
    using best_sorted [OF assms(1) m(4) sc] st(1) m(1-3)
    by (simp add: SearchFieldSortExecute_def recovered_def cut_top [OF assms(2,3)])
qed

definition demo_reply :: "rat \<Rightarrow> part_reply" where
  "demo_reply q =
     \<lparr> pa_Err = None, pa_Response = Some \<lparr> rs_Head = Some \<lparr> rh_RequestId = [], rh_Err = None \<rparr>,
         rs_Results = [\<lparr> sr_TotalHits = 1, sr_MaxScore = Num q, sr_MaxTook = 0, sr_MaxTookId = 0,
           sr_Status = Some \<lparr> ss_Total = 1, ss_Failed = 0, ss_Successful = 1 \<rparr>, sr_Timeout = False,
           sr_ResultItems = [\<lparr> ri_Score = Num q, ri_Fields = [], ri_PKey = ''k'' \<rparr>] \<rparr>] \<rparr> \<rparr>"

lemma demo_reply_good: "good_reply desc (demo_reply q)"
  by (simp add: good_reply_def demo_reply_def scored_def)

theorem search_returns_global_best_witness:
  "\<exists>rsp sr. SearchFieldSortExecute insertion_sort \<lparr> pq_TopN = 1, pq_PageSize = 0, pq_PageNum = 0, pq_DocumentIds = [] \<rparr>
      True ''id'' [demo_reply 2, demo_reply 5] = Inr rsp \<and> rs_Results rsp = [sr] \<and>
    best (nat 1) True (\<Sum>r\<leftarrow>[demo_reply 2, demo_reply 5]. mset (items_of r)) (sr_ResultItems sr)"
  using search_returns_global_best [OF insertion.go_sort_axioms,
      of "\<lparr> pq_TopN = 1, pq_PageSize = 0, pq_PageNum = 0, pq_DocumentIds = [] \<rparr>" "[demo_reply 2, demo_reply 5]" True "''id''"]
  by (simp add: demo_reply_good)





end
