(* ===== verification/Placement.thy ===== *)
theory Placement
  imports DBService
begin

text \<open>
  Where the replicas of a partition go: \<^verbatim>\<open>filterAndSortServer\<close> and
  \<^verbatim>\<open>selectServersForPartition\<close> of \<^verbatim>\<open>internal/master/services/space_service.go\<close>.

  \<open>filterAndSortServer\<close> counts the replicas on every server that may be used for a space.
  \<open>selectServersForPartition\<close> goes through these servers from the least to the most loaded one
  (\<open>select_loop\<close>), skips those that are down or in a zone that already has a replica, and stops when it
  has enough. Three things are parameters: \<open>sortf\<close>, which iterates over the Go map and sorts, with the
  contract \<open>go_sort\<close>; \<open>live\<close>, the answer of \<^verbatim>\<open>client.IsLive\<close>, a call to the server; and the
  configured \<open>strategy\<close>.

  The loop is shown equal to taking the first servers of a list \<open>eligible\<close>, and from that follow which
  servers are chosen, when the choice fails, and that the load stays balanced.
\<close>

section \<open>Servers for a space\<close>

text \<open>Reading a Go map of numbers: 0 for a key that is not there.\<close>

definition go_count :: "('k, int) gomap \<Rightarrow> 'k \<Rightarrow> int" where
  "go_count m k = (case map_of m k of None \<Rightarrow> 0 | Some v \<Rightarrow> v)"

record filtering =
  fi_allowed :: "(string, bool) gomap"
  fi_counts :: "(int, int) gomap"
  fi_index :: "(64 word, int) gomap"

definition add_server :: "int \<Rightarrow> Server \<Rightarrow> filtering \<Rightarrow> filtering" where
  "add_server i sv st =
     st\<lparr>fi_counts := AList.update i 0 (fi_counts st), fi_index := AList.update (sv_ID sv) i (fi_index st)\<rparr>"

text \<open>
  A server of another resource group is left out. When the database names its servers, this server's
  address is also struck from the allowed ones, for the servers that come after it.
\<close>

definition public_step :: "Space \<Rightarrow> int \<times> Server \<Rightarrow> filtering \<Rightarrow> filtering" where
  "public_step space = (\<lambda>(i, sv) st.
     if sv_ResourceName sv \<noteq> sp_ResourceName space then st
     else if \<not> sv_Private sv then add_server i sv st else st)"

definition allowed_step :: "Space \<Rightarrow> int \<times> Server \<Rightarrow> filtering \<Rightarrow> filtering" where
  "allowed_step space = (\<lambda>(i, sv) st.
     if sv_ResourceName sv \<noteq> sp_ResourceName space
     then st\<lparr>fi_allowed := AList.update (sv_Ip sv) False (fi_allowed st)\<rparr>
     else if map_of (fi_allowed st) (sv_Ip sv) = Some True then add_server i sv st else st)"

definition count_replica :: "(64 word, int) gomap \<Rightarrow> 64 word \<Rightarrow> (int, int) gomap \<Rightarrow> (int, int) gomap" where
  "count_replica index nodeID counts =
     (case map_of index nodeID of
        None \<Rightarrow> counts
      | Some i \<Rightarrow> AList.update i (int64 (go_count counts i + 1)) counts)"

definition server_counts :: "DB \<Rightarrow> Space \<Rightarrow> Server list \<Rightarrow> Space list \<Rightarrow> (int, int) gomap" where
  "server_counts database space servers allSpaces =
     (let indexed = zip (map int [0..<length servers]) servers;
          st0 = \<lparr> fi_allowed = fold (\<lambda>ip m. AList.update ip True m) (db_Ps database) [], fi_counts = [], fi_index = [] \<rparr>;
          st = (if length (db_Ps database) > 0 then fold (allowed_step space) indexed st0
                else fold (public_step space) indexed st0)
      in fold (count_replica (fi_index st))
           (concat (map (\<lambda>sp. concat (map pt_Replicas (sp_Partitions sp))) allSpaces)) (fi_counts st))"

definition filterAndSortServer ::
  "key_space \<Rightarrow> (nat \<Rightarrow> bool) \<Rightarrow> cast_lib \<Rightarrow> DB codec \<Rightarrow> Space codec \<Rightarrow> Space \<Rightarrow> Server list \<Rightarrow>
     (world, (int, int) gomap) act" where
  "filterAndSortServer ks nt cl dc sc space servers =
     bindA (QueryDB ks nt cl dc (ToString cl (sp_DBId space))) (\<lambda>database.
     bindA (QuerySpacesByKey sc (PrefixSpace ks)) (\<lambda>allSpaces.
     ret (server_counts database space servers allSpaces)))"

section \<open>Servers for a partition\<close>

record selecting =
  se_counts :: "(int, int) gomap"
  se_zones :: "(string, int) gomap"
  se_addrs :: "string list"
  se_replicas :: "64 word list"
  se_left :: "8 word"

definition zone_of :: "int \<Rightarrow> Server \<Rightarrow> string" where
  "zone_of strategy sv =
     (if strategy = 1 then sv_HostIp sv else if strategy = 2 then sv_HostRack sv
      else if strategy = 3 then sv_HostZone sv else [])"

fun select_loop ::
  "cast_lib \<Rightarrow> int \<Rightarrow> (string \<Rightarrow> bool) \<Rightarrow> Server list \<Rightarrow> (int \<times> int) list \<Rightarrow> selecting \<Rightarrow> selecting res" where
  "select_loop cl strategy live servers [] st = Inr st"
| "select_loop cl strategy live servers ((i, c) # pairs) st =
     bind_res (go_index servers i) (\<lambda>sv.
       let zone = zone_of strategy sv in
       if \<not> live (RpcAddr cl sv)
       then select_loop cl strategy live servers pairs (st\<lparr>se_counts := AList.update i c (se_counts st)\<rparr>)
       else if zone \<noteq> [] \<and> go_count (se_zones st) zone > 0
       then select_loop cl strategy live servers pairs st
       else let st' = st\<lparr>se_counts := AList.update i (int64 (go_count (se_counts st) i + 1)) (se_counts st),
                  se_zones := (if zone \<noteq> [] then AList.update zone (int64 (go_count (se_zones st) zone + 1)) (se_zones st)
                               else se_zones st),
                  se_addrs := se_addrs st @ [RpcAddr cl sv], se_replicas := se_replicas st @ [sv_ID sv],
                  se_left := se_left st - 1\<rparr>
            in if se_left st' = 0 then Inr st' else select_loop cl strategy live servers pairs st')"

definition selectServersForPartition ::
  "(((int \<times> int) \<Rightarrow> (int \<times> int) \<Rightarrow> bool) \<Rightarrow> (int \<times> int) list \<Rightarrow> (int \<times> int) list) \<Rightarrow> cast_lib \<Rightarrow> int \<Rightarrow>
     (string \<Rightarrow> bool) \<Rightarrow> Server list \<Rightarrow> (int, int) gomap \<Rightarrow> 8 word \<Rightarrow> Partition \<Rightarrow>
     (string list \<times> (int, int) gomap \<times> Partition) res" where
  "selectServersForPartition sortf cl strategy live servers counts replicaCount part =
     bind_res (select_loop cl strategy live servers (sortf (\<lambda>x y. snd x < snd y) counts)
       \<lparr> se_counts = counts, se_zones = [], se_addrs = [], se_replicas = [], se_left = replicaCount \<rparr>) (\<lambda>st.
     if se_left st > 0
     then Inl (NewError MASTER_PS_NOT_ENOUGH_SELECT (Some (GoErr ''need more partition servers than got'')))
     else Inr (se_addrs st, se_counts st, part\<lparr>pt_Replicas := se_replicas st\<rparr>))"

text \<open>The loop over the partitions of a space, \<^verbatim>\<open>CreateSpace\<close> and others; every round sorts anew.\<close>

fun place_partitions ::
  "(nat \<Rightarrow> ((int \<times> int) \<Rightarrow> (int \<times> int) \<Rightarrow> bool) \<Rightarrow> (int \<times> int) list \<Rightarrow> (int \<times> int) list) \<Rightarrow> cast_lib \<Rightarrow> int \<Rightarrow>
     (nat \<Rightarrow> string \<Rightarrow> bool) \<Rightarrow> Server list \<Rightarrow> (int, int) gomap \<Rightarrow> 8 word \<Rightarrow> Partition list \<Rightarrow>
     ((string list \<times> Partition) list \<times> (int, int) gomap) res" where
  "place_partitions sortf cl strategy live servers counts replicaCount [] = Inr ([], counts)"
| "place_partitions sortf cl strategy live servers counts replicaCount (p # ps) =
     bind_res (selectServersForPartition (sortf (length ps)) cl strategy (live (length ps)) servers counts replicaCount p)
       (\<lambda>(addrs, counts', p').
     bind_res (place_partitions sortf cl strategy live servers counts' replicaCount ps) (\<lambda>(rest, counts'').
     Inr ((addrs, p') # rest, counts'')))"

section \<open>The servers that are chosen\<close>

text \<open>
  A description of the loop: the servers that are up and whose zone is free when their turn comes.
\<close>

fun eligible ::
  "cast_lib \<Rightarrow> int \<Rightarrow> (string \<Rightarrow> bool) \<Rightarrow> Server list \<Rightarrow> string set \<Rightarrow> (int \<times> int) list \<Rightarrow> (int \<times> int) list" where
  "eligible cl strategy live servers used [] = []"
| "eligible cl strategy live servers used ((i, c) # pairs) =
     (let sv = servers ! nat i; zone = zone_of strategy sv in
      if \<not> live (RpcAddr cl sv) \<or> zone \<noteq> [] \<and> zone \<in> used then eligible cl strategy live servers used pairs
      else (i, c) # eligible cl strategy live servers (insert zone used) pairs)"

lemma set_eligible: "set (eligible cl strategy live servers used pairs) \<subseteq> set pairs"
proof (induction pairs arbitrary: used)
  case (Cons p pairs)
  obtain i c where "p = (i, c)" by (cases p)
  then show ?case
    using Cons.IH [of used] Cons.IH [of "insert (zone_of strategy (servers ! nat i)) used"] by (auto simp: Let_def)
qed simp

lemma distinct_eligible:
  "distinct (map fst pairs) \<Longrightarrow> distinct (map fst (eligible cl strategy live servers used pairs))"
proof (induction cl strategy live servers used pairs rule: eligible.induct)
  case (2 cl strategy live servers used i c pairs)
  have "i \<notin> fst ` set (eligible cl strategy live servers (insert z used) pairs)" for z
    using "2.prems" set_eligible [of cl strategy live servers "insert z used" pairs] by auto
  then show ?case using 2 by (auto simp: Let_def)
qed simp

lemma sorted_eligible:
  "sorted_wrt R pairs \<Longrightarrow> sorted_wrt R (eligible cl strategy live servers used pairs)"
proof (induction cl strategy live servers used pairs rule: eligible.induct)
  case (2 cl strategy live servers used i c pairs)
  then show ?case
    using set_eligible [of cl strategy live servers "insert (zone_of strategy (servers ! nat i)) used" pairs]
    by (auto simp: Let_def)
qed simp

definition wanted :: "8 word \<Rightarrow> nat" where
  "wanted left = (if left = 0 then 256 else unat left)"

lemma wanted_step: "left - 1 \<noteq> 0 \<Longrightarrow> wanted left = Suc (wanted (left - 1))" for left :: "8 word"
proof -
  assume l: "left - 1 \<noteq> 0"
  show ?thesis
  proof (cases "left = 0")
    case False
    then have "unat (left - 1) = unat left - 1" "0 < unat left"
      by (simp_all add: unat_minus_one unat_gt_0)
    then show ?thesis using l False by (simp add: wanted_def)
  qed (simp add: wanted_def unsigned_minus_1_eq_mask mask_eq_exp_minus_1)
qed

lemma wanted_one: "left - 1 = 0 \<Longrightarrow> wanted left = 1" for left :: "8 word"
  by (simp add: wanted_def)

definition charged :: "(int \<times> int) list \<Rightarrow> (int, int) gomap \<Rightarrow> int \<Rightarrow> int option" where
  "charged chosen counts i = (case map_of chosen i of None \<Rightarrow> map_of counts i | Some c \<Rightarrow> Some (c + 1))"

definition in_zones :: "(string, int) gomap \<Rightarrow> string set \<Rightarrow> bool" where
  "in_zones zones used \<longleftrightarrow> (\<forall>z. z \<noteq> [] \<longrightarrow> go_count zones z = (if z \<in> used then 1 else 0))"

lemma in_zones_insert:
  "in_zones zones used \<Longrightarrow> z \<noteq> [] \<Longrightarrow> z \<notin> used \<Longrightarrow>
   in_zones (AList.update z (int64 (go_count zones z + 1)) zones) (insert z used)"
  by (auto simp: in_zones_def go_count_def update_conv')

lemma in_zones_empty: "in_zones zones used \<Longrightarrow> in_zones zones (insert [] used)"
  by (simp add: in_zones_def)

definition entry_ok :: "nat \<Rightarrow> (int, int) gomap \<Rightarrow> int \<times> int \<Rightarrow> bool" where
  "entry_ok n counts p \<longleftrightarrow>
     0 \<le> fst p \<and> fst p < int n \<and> map_of counts (fst p) = Some (snd p) \<and> - (2 ^ 63) \<le> snd p \<and> snd p + 1 < 2 ^ 63"

lemma entry_ok_update: "entry_ok n counts p \<Longrightarrow> fst p \<noteq> i \<Longrightarrow> entry_ok n (AList.update i v counts) p"
  by (simp add: entry_ok_def update_conv')

lemma select_loop_eligible:
  assumes "\<forall>p \<in> set pairs. entry_ok (length servers) (se_counts st) p"
    and "distinct (map fst pairs)" and "in_zones (se_zones st) used"
  shows "\<exists>st'. select_loop cl strategy live servers pairs st = Inr st' \<and>
    (let chosen = take (wanted (se_left st)) (eligible cl strategy live servers used pairs) in
      se_addrs st' = se_addrs st @ map (\<lambda>(i, c). RpcAddr cl (servers ! nat i)) chosen \<and>
      se_replicas st' = se_replicas st @ map (\<lambda>(i, c). sv_ID (servers ! nat i)) chosen \<and>
      se_left st' = se_left st - of_nat (length chosen) \<and>
      map fst (se_counts st') = map fst (se_counts st) \<and>
      map_of (se_counts st') = charged chosen (se_counts st))"
  using assms
proof (induction pairs arbitrary: st used)
  case Nil
  then show ?case by (simp add: charged_def)
next
  case (Cons p pairs)
  obtain i c where p: "p = (i, c)" by (cases p)
  let ?sv = "servers ! nat i" and ?z = "zone_of strategy (servers ! nat i)"
  have ix: "go_index servers i = Inr ?sv" and ic: "map_of (se_counts st) i = Some c" "int64 (c + 1) = c + 1"
    and keys: "i \<in> fst ` set (se_counts st)"
    using Cons.prems(1) p by (auto simp: entry_ok_def go_index_def intro!: rev_image_eqI dest: map_of_SomeD)
  have dist: "distinct (map fst pairs)" "i \<notin> fst ` set pairs" using Cons.prems(2) p by auto
  have later: "\<forall>p \<in> set pairs. entry_ok (length servers) (AList.update i v (se_counts st)) p" for v
    using Cons.prems(1) dist(2) by (auto intro!: entry_ok_update)
  show ?case
  proof (cases "\<not> live (RpcAddr cl ?sv)")
    case True
    have "map_of (AList.update i c (se_counts st)) = map_of (se_counts st)"
      using ic by (simp add: update_conv' fun_upd_idem)
    then have ch: "charged ch (AList.update i c (se_counts st)) = charged ch (se_counts st)" for ch
      by (intro ext) (simp add: charged_def split: option.splits)
    show ?thesis
      using Cons.IH [of "st\<lparr>se_counts := AList.update i c (se_counts st)\<rparr>" used] later dist Cons.prems(3) True p ix keys ch
      by (simp add: Let_def update_keys)
  next
    case lv: False
    show ?thesis
    proof (cases "?z \<noteq> [] \<and> ?z \<in> used")
      case True
      then have "go_count (se_zones st) ?z > 0" using Cons.prems(3) by (simp add: in_zones_def)
      then show ?thesis
        using Cons.IH [of st used] Cons.prems p ix True lv by (simp add: Let_def)
    next
      case False
      define st1 where "st1 = st\<lparr>se_counts := AList.update i (int64 (go_count (se_counts st) i + 1)) (se_counts st),
          se_zones := (if ?z \<noteq> [] then AList.update ?z (int64 (go_count (se_zones st) ?z + 1)) (se_zones st) else se_zones st),
          se_addrs := se_addrs st @ [RpcAddr cl ?sv], se_replicas := se_replicas st @ [sv_ID ?sv],
          se_left := se_left st - 1\<rparr>"
      have nz: "\<not> (?z \<noteq> [] \<and> go_count (se_zones st) ?z > 0)"
        using False Cons.prems(3) by (auto simp: in_zones_def)
      have run: "select_loop cl strategy live servers (p # pairs) st =
          (if se_left st1 = 0 then Inr st1 else select_loop cl strategy live servers pairs st1)"
        using lv nz ix p by (auto simp: Let_def st1_def)
      have el: "eligible cl strategy live servers used (p # pairs) =
          (i, c) # eligible cl strategy live servers (insert ?z used) pairs"
        using lv False p by (auto simp: Let_def)
      have cnt: "go_count (se_counts st) i = c" using ic by (simp add: go_count_def)
      have one: "map_of (se_counts st1) = (map_of (se_counts st))(i \<mapsto> c + 1)" "map fst (se_counts st1) = map fst (se_counts st)"
        using ic cnt keys by (simp_all add: st1_def update_conv' update_keys)
      have ch: "charged ch (se_counts st1) = charged ((i, c) # ch) (se_counts st)" if "i \<notin> fst ` set ch" for ch
      proof (rule ext)
        have "map_of ch i = None" using that by (simp add: map_of_eq_None_iff)
        then show "charged ch (se_counts st1) j = charged ((i, c) # ch) (se_counts st) j" for j
          by (simp add: charged_def one(1) split: option.splits)
      qed
      show ?thesis
      proof (cases "se_left st1 = 0")
        case True
        then have "wanted (se_left st) = 1" by (intro wanted_one) (simp add: st1_def)
        then show ?thesis
          using True run el one True by (auto simp: st1_def charged_def fun_eq_iff Let_def)
      next
        case more: False
        then have w: "wanted (se_left st) = Suc (wanted (se_left st1))"
          using wanted_step [of "se_left st"] by (simp add: st1_def)
        have z1: "in_zones (se_zones st1) (insert ?z used)"
          using Cons.prems(3) False in_zones_insert in_zones_empty by (cases "?z = []") (auto simp: st1_def)
        let ?el = "eligible cl strategy live servers (insert ?z used) pairs"
        have "i \<notin> fst ` set (take (wanted (se_left st1)) ?el)"
          using dist(2) set_eligible [of cl strategy live servers "insert ?z used" pairs] by (auto dest: in_set_takeD)
        from ch [OF this] show ?thesis
          using Cons.IH [of st1 "insert ?z used"] later [of "int64 (go_count (se_counts st) i + 1)"] dist(1) z1 run more el w one(2)
          by (auto simp: Let_def st1_def algebra_simps)
      qed
    qed
  qed
qed

section \<open>What is chosen\<close>

definition counts_ok :: "nat \<Rightarrow> (int, int) gomap \<Rightarrow> bool" where
  "counts_ok n counts \<longleftrightarrow> gomap_ok counts \<and> (\<forall>p \<in> set counts. 0 \<le> fst p \<and> fst p < int n \<and> 0 \<le> snd p \<and> snd p < 2 ^ 62)"

lemma counts_lookup: "counts_ok n counts \<Longrightarrow> p \<in> set counts \<Longrightarrow> map_of counts (fst p) = Some (snd p)"
  by (cases p) (auto simp: counts_ok_def)

definition candidates ::
  "(((int \<times> int) \<Rightarrow> (int \<times> int) \<Rightarrow> bool) \<Rightarrow> (int \<times> int) list \<Rightarrow> (int \<times> int) list) \<Rightarrow> cast_lib \<Rightarrow> int \<Rightarrow>
     (string \<Rightarrow> bool) \<Rightarrow> Server list \<Rightarrow> (int, int) gomap \<Rightarrow> (int \<times> int) list" where
  "candidates sortf cl strategy live servers counts =
     eligible cl strategy live servers {} (sortf (\<lambda>x y. snd x < snd y) counts)"

lemma sorted_counts:
  assumes "go_sort sortf" and "counts_ok n counts"
  defines "pairs \<equiv> sortf (\<lambda>x y. snd x < snd y) counts"
  shows "set pairs = set counts" and "distinct (map fst pairs)" and "sorted_wrt (\<lambda>x y. snd x \<le> snd y) pairs"
proof -
  show st: "set pairs = set counts" unfolding pairs_def by (rule go_sort.sort_set [OF assms(1)])
  have ms: "mset pairs = mset counts" unfolding pairs_def by (rule go_sort.sort_mset [OF assms(1)])
  then have "mset (map fst pairs) = mset (map fst counts)" by simp
  then show "distinct (map fst pairs)"
    using assms(2) mset_eq_imp_distinct_iff unfolding counts_ok_def by blast
  have "strict_weak (\<lambda>x y. snd x < snd y) (set counts)" by (auto simp: strict_weak_def)
  from go_sort.sort_sorted [OF assms(1) this] show "sorted_wrt (\<lambda>x y. snd x \<le> snd y) pairs"
    by (simp add: pairs_def not_less)
qed

lemma selectServersForPartition_eq:
  fixes rc :: "8 word" and cl :: cast_lib and strategy :: int and live :: "string \<Rightarrow> bool" and part :: Partition
  assumes "go_sort sortf" and "counts_ok (length servers) counts"
  defines "chosen \<equiv> take (wanted rc) (candidates sortf cl strategy live servers counts)"
  obtains counts' where
    "selectServersForPartition sortf cl strategy live servers counts rc part =
       (if rc = of_nat (length chosen)
        then Inr (map (\<lambda>(i, c). RpcAddr cl (servers ! nat i)) chosen, counts',
               part\<lparr>pt_Replicas := map (\<lambda>(i, c). sv_ID (servers ! nat i)) chosen\<rparr>)
        else Inl (NewError MASTER_PS_NOT_ENOUGH_SELECT (Some (GoErr ''need more partition servers than got''))))"
    and "map fst counts' = map fst counts" and "map_of counts' = charged chosen counts"
proof -
  let ?pairs = "sortf (\<lambda>x y. snd x < snd y) counts"
  let ?st = "\<lparr> se_counts = counts, se_zones = [], se_addrs = [], se_replicas = [], se_left = rc \<rparr>"
  have ok: "\<forall>p \<in> set ?pairs. entry_ok (length servers) (se_counts ?st) p"
    using assms(2) sorted_counts(1) [OF assms(1,2)] by (auto simp: counts_ok_def entry_ok_def)
  obtain st where run: "select_loop cl strategy live servers ?pairs ?st = Inr st"
    and st: "se_addrs st = map (\<lambda>(i, c). RpcAddr cl (servers ! nat i)) chosen"
      "se_replicas st = map (\<lambda>(i, c). sv_ID (servers ! nat i)) chosen" "se_left st = rc - of_nat (length chosen)"
      "map fst (se_counts st) = map fst counts" "map_of (se_counts st) = charged chosen counts"
    using select_loop_eligible [OF ok sorted_counts(2) [OF assms(1,2)], of "{}" cl strategy live]
    unfolding chosen_def candidates_def Let_def by (auto simp: in_zones_def go_count_def)
  have "se_left st > 0 \<longleftrightarrow> rc \<noteq> of_nat (length chosen)" using st(3) by (simp add: word_gt_0)
  then show thesis
    using that [of "se_counts st"] run st unfolding selectServersForPartition_def by simp
qed

lemma selectServersForPartition_Inr:
  assumes "go_sort sortf" and "counts_ok (length servers) counts"
    and "selectServersForPartition sortf cl strategy live servers counts rc part = Inr (addrs, counts', part')"
    and "chosen = take (wanted rc) (candidates sortf cl strategy live servers counts)"
  shows "rc = of_nat (length chosen) \<and> addrs = map (\<lambda>(i, c). RpcAddr cl (servers ! nat i)) chosen \<and>
    part' = part\<lparr>pt_Replicas := map (\<lambda>(i, c). sv_ID (servers ! nat i)) chosen\<rparr> \<and>
    map fst counts' = map fst counts \<and> map_of counts' = charged chosen counts"
  by (rule selectServersForPartition_eq [OF assms(1,2), where rc = rc and cl = cl and strategy = strategy and
        live = live and part = part]) (use assms(3,4) in \<open>auto split: if_splits\<close>)

lemma eligible_live:
  "p \<in> set (eligible cl strategy live servers used pairs) \<Longrightarrow> live (RpcAddr cl (servers ! nat (fst p)))"
  by (induction pairs arbitrary: used) (auto simp: Let_def split: if_splits)

lemma eligible_fresh:
  "p \<in> set (eligible cl strategy live servers used pairs) \<Longrightarrow>
   zone_of strategy (servers ! nat (fst p)) = [] \<or> zone_of strategy (servers ! nat (fst p)) \<notin> used"
proof (induction pairs arbitrary: used)
  case (Cons x pairs)
  obtain i c where "x = (i, c)" by (cases x)
  then show ?case
    using Cons.prems Cons.IH [of used] Cons.IH [of "insert (zone_of strategy (servers ! nat i)) used"]
    by (auto simp: Let_def split: if_splits)
qed simp

lemma eligible_zones:
  assumes "distinct (map fst pairs)"
    and "p \<in> set (eligible cl strategy live servers used pairs)" and "q \<in> set (eligible cl strategy live servers used pairs)"
    and "p \<noteq> q" and "zone_of strategy (servers ! nat (fst p)) = zone_of strategy (servers ! nat (fst q))"
  shows "zone_of strategy (servers ! nat (fst p)) = []"
  using assms
proof (induction pairs arbitrary: used)
  case (Cons x pairs)
  obtain i c where x: "x = (i, c)" by (cases x)
  let ?z = "zone_of strategy (servers ! nat i)"
  note fresh = eligible_fresh [where cl = cl and strategy = strategy and live = live and servers = servers and pairs = pairs]
  show ?case
    using Cons.prems Cons.IH [of used] Cons.IH [of "insert ?z used"] fresh [of p "insert ?z used"] fresh [of q "insert ?z used"]
    by (auto simp: x Let_def split: if_splits)
qed simp

lemma eligible_skips:
  assumes "sorted_wrt (\<lambda>x y. snd x \<le> snd y) pairs" and "q \<in> set pairs"
    and "live (RpcAddr cl (servers ! nat (fst q)))" and "q \<notin> set (eligible cl strategy live servers used pairs)"
  shows "zone_of strategy (servers ! nat (fst q)) \<noteq> [] \<and>
    (zone_of strategy (servers ! nat (fst q)) \<in> used \<or>
     (\<exists>e \<in> set (eligible cl strategy live servers used pairs). snd e \<le> snd q \<and>
        zone_of strategy (servers ! nat (fst e)) = zone_of strategy (servers ! nat (fst q))))"
  using assms
proof (induction pairs arbitrary: used)
  case (Cons x pairs)
  obtain i c where x: "x = (i, c)" by (cases x)
  let ?z = "zone_of strategy (servers ! nat i)"
  show ?case
  proof (cases "\<not> live (RpcAddr cl (servers ! nat i)) \<or> ?z \<noteq> [] \<and> ?z \<in> used")
    case True
    then show ?thesis using Cons.prems Cons.IH [of used] by (auto simp: x Let_def)
  next
    case False
    then have el: "eligible cl strategy live servers used (x # pairs) = x # eligible cl strategy live servers (insert ?z used) pairs"
      by (auto simp: x Let_def)
    show ?thesis
      using Cons.prems Cons.IH [of "insert ?z used"] unfolding el by (auto simp: x)
  qed
qed simp

abbreviation server_zone :: "int \<Rightarrow> Server list \<Rightarrow> int \<Rightarrow> string" where
  "server_zone strategy servers i \<equiv> zone_of strategy (servers ! nat i)"

abbreviation server_up :: "cast_lib \<Rightarrow> (string \<Rightarrow> bool) \<Rightarrow> Server list \<Rightarrow> int \<Rightarrow> bool" where
  "server_up cl live servers i \<equiv> live (RpcAddr cl (servers ! nat i))"

lemma candidates_facts:
  fixes cl :: cast_lib and strategy :: int and live :: "string \<Rightarrow> bool"
  assumes "go_sort sortf" and "counts_ok (length servers) counts"
  defines "cand \<equiv> candidates sortf cl strategy live servers counts"
  shows "set cand \<subseteq> set counts" and "distinct (map fst cand)" and "sorted_wrt (\<lambda>x y. snd x \<le> snd y) cand"
    and "p \<in> set cand \<Longrightarrow> server_up cl live servers (fst p)"
  unfolding cand_def candidates_def
  using sorted_counts(1) [OF assms(1,2)] set_eligible apply blast
  using sorted_counts(2) [OF assms(1,2)] distinct_eligible apply blast
  using sorted_counts(3) [OF assms(1,2)] sorted_eligible apply blast
  using eligible_live by blast

lemma taken_before:
  assumes "sorted_wrt R xs" and "x \<in> set (take n xs)" and "y \<in> set xs" and "y \<notin> set (take n xs)"
  shows "R x y"
proof -
  have "sorted_wrt R (take n xs @ drop n xs)" and "y \<in> set (drop n xs)"
    using assms by (simp, metis Un_iff append_take_drop_id set_append)
  then show ?thesis using assms(2) unfolding sorted_wrt_append by blast
qed

lemma chosen_least:
  assumes "go_sort sortf" and "counts_ok (length servers) counts"
    and "p \<in> set (take n (candidates sortf cl strategy live servers counts))"
    and "q \<in> set counts" and "q \<notin> set (take n (candidates sortf cl strategy live servers counts))"
    and "server_up cl live servers (fst q)"
    and free: "\<forall>e \<in> set (take n (candidates sortf cl strategy live servers counts)).
      server_zone strategy servers (fst e) = server_zone strategy servers (fst q) \<longrightarrow> server_zone strategy servers (fst q) = []"
  shows "snd p \<le> snd q"
proof -
  let ?cand = "candidates sortf cl strategy live servers counts"
  note ord = candidates_facts(3) [OF assms(1,2), where cl = cl and strategy = strategy and live = live]
  note le = taken_before [OF ord assms(3)]
  show ?thesis
  proof (cases "q \<in> set ?cand")
    case False
    from eligible_skips [OF sorted_counts(3) [OF assms(1,2)], of q live cl servers strategy "{}"] False assms(4,6)
    obtain e where e: "e \<in> set ?cand" "snd e \<le> snd q" "server_zone strategy servers (fst e) = server_zone strategy servers (fst q)"
        "server_zone strategy servers (fst q) \<noteq> []"
      unfolding candidates_def using sorted_counts(1) [OF assms(1,2)] by auto
    then have "e \<notin> set (take n ?cand)" using free by blast
    then show ?thesis using le [OF e(1)] e(2) by simp
  qed (use le assms(5) in blast)
qed

lemma length_eligible:
  "length (eligible cl strategy live servers used pairs) =
     card ((\<lambda>p. server_zone strategy servers (fst p)) ` {p \<in> set pairs. server_up cl live servers (fst p)} - insert [] used) +
     length (filter (\<lambda>p. server_up cl live servers (fst p) \<and> server_zone strategy servers (fst p) = []) pairs)"
proof (induction pairs arbitrary: used)
  case (Cons x pairs)
  obtain i c where x: "x = (i, c)" by (cases x)
  let ?z = "server_zone strategy servers i" and ?up = "server_up cl live servers i"
  let ?Z = "\<lambda>ps. (\<lambda>p. server_zone strategy servers (fst p)) ` {p \<in> set ps. server_up cl live servers (fst p)}"
  have "{p \<in> set (x # pairs). server_up cl live servers (fst p)} =
      (if ?up then insert x {p \<in> set pairs. server_up cl live servers (fst p)}
       else {p \<in> set pairs. server_up cl live servers (fst p)})"
    by (auto simp: x)
  then have Z: "?Z (x # pairs) = (if ?up then insert ?z (?Z pairs) else ?Z pairs)" by (simp add: x)
  have fin: "finite (?Z pairs)" by simp
  show ?case
  proof (cases "?up \<and> ?z \<noteq> [] \<and> ?z \<notin> used")
    case True
    then have "?Z (x # pairs) - insert [] used = insert ?z (?Z pairs - insert [] (insert ?z used))"
      unfolding Z by auto
    then have "card (?Z (x # pairs) - insert [] used) = Suc (card (?Z pairs - insert [] (insert ?z used)))"
      using fin by (simp add: card_insert_if)
    then show ?thesis using True Cons.IH [of "insert ?z used"] by (simp add: x Let_def)
  next
    case False
    then have "?Z (x # pairs) - insert [] used = ?Z pairs - insert [] used" unfolding Z by auto
    moreover have "?Z pairs - insert [] (insert [] used) = ?Z pairs - insert [] used" by auto
    ultimately show ?thesis
      using False Cons.IH [of used] Cons.IH [of "insert [] used"] by (cases "?z = []") (auto simp: x Let_def)
  qed
qed simp

definition balanced :: "(int, int) gomap \<Rightarrow> bool" where
  "balanced counts \<longleftrightarrow> (\<exists>k. \<forall>p \<in> set counts. snd p = k \<or> snd p = k + 1)"

lemma charged_entries:
  assumes "counts_ok n counts" and "distinct (map fst ch)" and "set ch \<subseteq> set counts"
    and "map fst counts' = map fst counts" and "map_of counts' = charged ch counts"
    and "p \<in> set counts'"
  obtains "(fst p, snd p - 1) \<in> set ch" "(fst p, snd p - 1) \<in> set counts" | "p \<in> set counts" "p \<notin> set ch"
proof -
  have "gomap_ok counts'" using assms(1,4) by (simp add: counts_ok_def)
  then have p: "charged ch counts (fst p) = Some (snd p)" using assms(5,6) by (metis map_of_is_SomeI prod.collapse)
  show thesis
  proof (cases "map_of ch (fst p)")
    case None
    then have "map_of counts (fst p) = Some (snd p)" using p by (simp add: charged_def)
    then have "p \<in> set counts" by (metis map_of_SomeD prod.collapse)
    moreover have "p \<notin> set ch" using None by (auto simp: map_of_eq_None_iff)
    ultimately show ?thesis using that(2) by blast
  next
    case (Some c)
    then have "snd p = c + 1" "(fst p, c) \<in> set ch" using p by (auto simp: charged_def dest: map_of_SomeD)
    then show ?thesis using that(1) assms(3) by auto
  qed
qed

lemma balanced_charge:
  assumes "counts_ok n counts" and "distinct (map fst ch)" and "set ch \<subseteq> set counts"
    and "map fst counts' = map fst counts" and "map_of counts' = charged ch counts"
    and "\<forall>p \<in> set ch. \<forall>q \<in> set counts. q \<notin> set ch \<longrightarrow> snd p \<le> snd q" and "balanced counts"
  shows "balanced counts'"
proof -
  note entries = charged_entries [OF assms(1-5)]
  obtain k where k: "\<forall>p \<in> set counts. snd p = k \<or> snd p = k + 1" using assms(7) unfolding balanced_def by blast
  show ?thesis
  proof (cases "\<forall>p \<in> set ch. snd p = k")
    case True
    have "snd p = k \<or> snd p = k + 1" if "p \<in> set counts'" for p
      using that by (rule entries) (use True k in force)+
    then show ?thesis unfolding balanced_def by blast
  next
    case False
    then obtain c where c: "c \<in> set ch" "snd c = k + 1" using k assms(3) by blast
    have "snd p = k + 1 \<or> snd p = k + 1 + 1" if "p \<in> set counts'" for p
      using that by (rule entries) (use c assms(6) k in force)+
    then show ?thesis unfolding balanced_def by blast
  qed
qed

lemma NewError_GoErr_VErr: "\<exists>m'. NewError c (Some (GoErr m)) = VErr c m'"
  by (cases "HasPrefix m (ErrMsg c)") (auto simp: NewError.simps)

lemma eq_min_iff: "a = min b a \<longleftrightarrow> a \<le> b" for a b :: nat
  by arith

lemma wanted_taken:
  assumes "rc \<noteq> 0"
  shows "rc = of_nat (length (take (wanted rc) xs)) \<longleftrightarrow> unat rc \<le> length xs"
proof -
  have "length (take (wanted rc) xs) = min (length xs) (unat rc)" using assms by (simp add: wanted_def)
  moreover have "unat (of_nat (min (length xs) (unat rc)) :: 8 word) = min (length xs) (unat rc)"
    using unat_bounds(1) [of rc] by (simp add: unat_of_nat)
  ultimately have "rc = of_nat (length (take (wanted rc) xs)) \<longleftrightarrow> unat rc = min (length xs) (unat rc)"
    by (simp add: word_unat_eq_iff)
  also have "\<dots> \<longleftrightarrow> unat rc \<le> length xs" by (rule eq_min_iff)
  finally show ?thesis .
qed

lemma card_keys:
  assumes "distinct (map fst pairs)"
  shows "card {i \<in> fst ` set pairs. P i} = length (filter (\<lambda>p. P (fst p)) pairs)"
proof -
  let ?f = "filter (\<lambda>p. P (fst p)) pairs"
  have "{i \<in> fst ` set pairs. P i} = set (map fst ?f)" by auto
  then show ?thesis using distinct_card [of "map fst ?f"] distinct_map_filter [OF assms] by simp
qed

lemma balanced_select:
  assumes "go_sort sortf" and "counts_ok (length servers) counts" and "strategy \<notin> {1, 2, 3}" and "\<forall>a. live a"
    and "selectServersForPartition sortf cl strategy live servers counts rc part = Inr (addrs, counts', part')"
    and "\<forall>p \<in> set counts. snd p + 1 < 2 ^ 62"
  shows "balanced counts \<Longrightarrow> balanced counts'" and "counts_ok (length servers) counts'"
    and "p \<in> set counts' \<Longrightarrow> \<exists>c. (fst p, c) \<in> set counts \<and> snd p \<le> c + 1"
proof -
  define cand where "cand = candidates sortf cl strategy live servers counts"
  define ch where "ch = take (wanted rc) cand"
  note facts = candidates_facts [OF assms(1,2), where cl = cl and strategy = strategy and live = live, folded cand_def]
  from selectServersForPartition_Inr [OF assms(1,2,5) refl, folded cand_def, folded ch_def]
  have res: "map fst counts' = map fst counts" "map_of counts' = charged ch counts" by blast+
  have sub: "set ch \<subseteq> set counts" and dist: "distinct (map fst ch)"
    using facts(1,2) by (auto simp: ch_def take_map [symmetric] dest: in_set_takeD)
  have nozone: "server_zone strategy servers i = []" for i using assms(3) by (simp add: zone_of_def)
  have "\<forall>p \<in> set ch. \<forall>q \<in> set counts. q \<notin> set ch \<longrightarrow> snd p \<le> snd q"
    using chosen_least [OF assms(1,2), where cl = cl and strategy = strategy and live = live and n = "wanted rc"] assms(4) nozone
    by (simp add: ch_def cand_def)
  then show "balanced counts \<Longrightarrow> balanced counts'" by (rule balanced_charge [OF assms(2) dist sub res])
  note entries = charged_entries [OF assms(2) dist sub res]
  show grow: "\<exists>c. (fst p, c) \<in> set counts \<and> snd p \<le> c + 1" if "p \<in> set counts'" for p
    using that by (rule entries) (auto intro: exI [of _ "snd p - 1"] exI [of _ "snd p"])
  have "0 \<le> fst p \<and> fst p < int (length servers) \<and> 0 \<le> snd p \<and> snd p < 2 ^ 62" if "p \<in> set counts'" for p
    using that by (rule entries) (use assms(2,6) in \<open>force simp: counts_ok_def\<close>)+
  then show "counts_ok (length servers) counts'" using res(1) assms(2) by (simp add: counts_ok_def)
qed

lemma select_everywhere:
  assumes "go_sort sortf" and "counts_ok (length servers) counts" and "strategy \<notin> {1, 2, 3}" and "\<forall>a. live a"
    and "rc \<noteq> 0" and "unat rc \<le> length counts"
  shows "\<exists>addrs counts' part'. selectServersForPartition sortf cl strategy live servers counts rc part = Inr (addrs, counts', part') \<and>
    map fst counts' = map fst counts"
proof -
  have nozone: "server_zone strategy servers i = []" for i using assms(3) by (simp add: zone_of_def)
  have "length (candidates sortf cl strategy live servers counts) = length counts"
    using assms(4) nozone go_sort.sort_length [OF assms(1)] by (simp add: candidates_def length_eligible image_constant_conv)
  then have "rc = of_nat (length (take (wanted rc) (candidates sortf cl strategy live servers counts)))"
    using wanted_taken [OF assms(5), of "candidates sortf cl strategy live servers counts"] assms(6) by (simp del: length_take)
  then show ?thesis
    by (rule_tac selectServersForPartition_eq [OF assms(1,2), where rc = rc and cl = cl and strategy = strategy and
          live = live and part = part]) (simp del: length_take)
qed

section \<open>The counts\<close>

lemma update_fresh: "k \<notin> fst ` set al \<Longrightarrow> AList.update k v al = al @ [(k, v)]"
  by (induction al) auto

definition public :: "Space \<Rightarrow> Server \<Rightarrow> bool" where
  "public space sv \<longleftrightarrow> sv_ResourceName sv = sp_ResourceName space \<and> \<not> sv_Private sv"

lemma fold_public_step:
  assumes "distinct (map fst xs)" and "distinct (map (sv_ID \<circ> snd) xs)"
    and "fst ` set xs \<inter> fst ` set (fi_counts st) = {}" and "(sv_ID \<circ> snd) ` set xs \<inter> fst ` set (fi_index st) = {}"
  shows "fi_counts (fold (public_step space) xs st) =
      fi_counts st @ map (\<lambda>x. (fst x, 0)) (filter (\<lambda>x. public space (snd x)) xs) \<and>
    fi_index (fold (public_step space) xs st) =
      fi_index st @ map (\<lambda>x. (sv_ID (snd x), fst x)) (filter (\<lambda>x. public space (snd x)) xs)"
  using assms
proof (induction xs arbitrary: st)
  case (Cons x xs)
  show ?case
  proof (cases "public space (snd x)")
    case True
    let ?st = "st\<lparr>fi_counts := fi_counts st @ [(fst x, 0)], fi_index := fi_index st @ [(sv_ID (snd x), fst x)]\<rparr>"
    have step: "public_step space x st = ?st"
      using True Cons.prems(3,4)
      by (auto simp: public_step_def public_def add_server_def update_fresh split: prod.split)
    have "fst ` set xs \<inter> fst ` set (fi_counts ?st) = {}" "(sv_ID \<circ> snd) ` set xs \<inter> fst ` set (fi_index ?st) = {}"
      using Cons.prems by auto
    from Cons.IH [OF _ _ this] show ?thesis using Cons.prems(1,2) True step by simp
  next
    case False
    then have "public_step space x st = st" by (auto simp: public_step_def public_def split: prod.split)
    then show ?thesis using Cons.IH [of st] Cons.prems False by auto
  qed
qed simp

lemma fold_count_replica:
  assumes "\<forall>r i. map_of index r = Some i \<longrightarrow> i \<in> fst ` set counts"
    and "\<forall>i c. map_of counts i = Some c \<longrightarrow> 0 \<le> c \<and> c + int (length reps) < 2 ^ 63"
  shows "map_of (fold (count_replica index) reps counts) i =
      map_option (\<lambda>c. c + int (length (filter (\<lambda>r. map_of index r = Some i) reps))) (map_of counts i) \<and>
    map fst (fold (count_replica index) reps counts) = map fst counts"
  using assms
proof (induction reps arbitrary: counts)
  case Nil
  then show ?case by (simp add: option.map_ident)
next
  case (Cons r reps)
  show ?case
  proof (cases "map_of index r")
    case None
    then show ?thesis using Cons.IH [of counts] Cons.prems by (force simp: count_replica_def)
  next
    case (Some j)
    then obtain d where d: "map_of counts j = Some d"
      using Cons.prems(1) by (metis image_iff map_of_eq_None_iff option.exhaust)
    then have b: "0 \<le> d" "d + int (length (r # reps)) < 2 ^ 63" using Cons.prems(2) by blast+
    let ?counts = "AList.update j (d + 1) counts"
    have step: "count_replica index r counts = ?counts"
      using Some d b by (simp add: count_replica_def go_count_def)
    have j: "j \<in> fst ` set counts" using Cons.prems(1) Some by blast
    have "\<forall>r i. map_of index r = Some i \<longrightarrow> i \<in> fst ` set ?counts" using Cons.prems(1) by (simp add: update_keys dom_update)
    moreover have "\<forall>i c. map_of ?counts i = Some c \<longrightarrow> 0 \<le> c \<and> c + int (length reps) < 2 ^ 63"
      using Cons.prems(2) b by (auto simp: update_conv' split: if_splits) force
    ultimately show ?thesis
      using Cons.IH [of ?counts] step Some d j by (auto simp: update_conv' update_keys)
  qed
qed

definition replicas_of :: "Space list \<Rightarrow> 64 word list" where
  "replicas_of spaces = concat (map (\<lambda>sp. concat (map pt_Replicas (sp_Partitions sp))) spaces)"

lemma map_of_indexed:
  "map_of (map (\<lambda>x. (fst x, f x)) (filter P (zip (map int [0..<length ys]) ys))) i =
     (if 0 \<le> i \<and> i < int (length ys) \<and> P (i, ys ! nat i) then Some (f (i, ys ! nat i)) else None)"
proof (induction ys rule: rev_induct)
  case (snoc y ys)
  let ?n = "int (length ys)"
  have "(ys @ [y]) ! nat i = (if i < ?n then ys ! nat i else y)" if "0 \<le> i" "i \<le> ?n"
    using that by (auto simp: nth_append nat_less_iff)
  then show ?case
    using snoc.IH by (cases i ?n rule: linorder_cases) (auto simp: map_add_def)
qed simp

section \<open>Properties\<close>

text \<open>
  C3: the replicas of a partition go to the least loaded servers that may hold them. When
  \<^verbatim>\<open>selectServersForPartition\<close> succeeds, it has chosen as many different servers as replicas are
  wanted; all of them are up, no two are in the same named zone, exactly their counts go up by one,
  and a server that was passed over although it is up and in none of the zones used has no smaller count.
\<close>

theorem replicas_on_least_loaded:
  assumes "go_sort sortf" and "counts_ok (length servers) counts" and "rc \<noteq> 0"
    and "selectServersForPartition sortf cl strategy live servers counts rc part = Inr (addrs, counts', part')"
  shows "\<exists>chosen. distinct chosen \<and> length chosen = unat rc \<and> set chosen \<subseteq> fst ` set counts \<and>
    addrs = map (\<lambda>i. RpcAddr cl (servers ! nat i)) chosen \<and>
    part' = part\<lparr>pt_Replicas := map (\<lambda>i. sv_ID (servers ! nat i)) chosen\<rparr> \<and>
    (\<forall>i \<in> set chosen. server_up cl live servers i) \<and>
    (\<forall>i \<in> set chosen. \<forall>j \<in> set chosen. i \<noteq> j \<and> server_zone strategy servers i = server_zone strategy servers j \<longrightarrow>
       server_zone strategy servers i = []) \<and>
    (\<forall>i. map_of counts' i = (if i \<in> set chosen then Some (go_count counts i + 1) else map_of counts i)) \<and>
    (\<forall>i \<in> set chosen. \<forall>j \<in> fst ` set counts - set chosen. server_up cl live servers j \<and>
       (server_zone strategy servers j = [] \<or> server_zone strategy servers j \<notin> server_zone strategy servers ` set chosen) \<longrightarrow>
       go_count counts i \<le> go_count counts j)"
proof -
  define cand where "cand = candidates sortf cl strategy live servers counts"
  define ch where "ch = take (wanted rc) cand"
  note facts = candidates_facts [OF assms(1,2), where cl = cl and strategy = strategy and live = live, folded cand_def]
  from selectServersForPartition_Inr [OF assms(1,2,4) refl, folded cand_def, folded ch_def]
  have res: "rc = of_nat (length ch)" "addrs = map (\<lambda>(i, c). RpcAddr cl (servers ! nat i)) ch"
      "part' = part\<lparr>pt_Replicas := map (\<lambda>(i, c). sv_ID (servers ! nat i)) ch\<rparr>" "map_of counts' = charged ch counts"
    by blast+
  have w: "wanted rc = unat rc" using assms(3) by (simp add: wanted_def)
  have len: "length ch = unat rc"
  proof -
    have "length ch \<le> unat rc" by (simp add: ch_def w)
    then have "length ch < 256" using unat_bounds(1) [of rc] by simp
    then have "unat (of_nat (length ch) :: 8 word) = length ch" by (simp add: unat_of_nat)
    then show ?thesis using res(1) by simp
  qed
  have sub: "set ch \<subseteq> set counts" and dist: "distinct (map fst ch)"
    using facts(1,2) by (auto simp: ch_def take_map [symmetric] dest: in_set_takeD)
  have cnt: "go_count counts (fst p) = snd p" "map_of counts (fst p) = Some (snd p)" if "p \<in> set counts" for p
    using counts_lookup [OF assms(2) that] by (simp_all add: go_count_def)
  have up: "\<forall>p \<in> set ch. server_up cl live servers (fst p)"
    using facts(4) by (auto simp: ch_def dest: in_set_takeD)
  have zones: "server_zone strategy servers (fst p) = []"
    if "p \<in> set ch" "q \<in> set ch" "fst p \<noteq> fst q" "server_zone strategy servers (fst p) = server_zone strategy servers (fst q)" for p q
    using eligible_zones [OF sorted_counts(2) [OF assms(1,2)], of p cl strategy live servers "{}" q] that
    by (auto simp: ch_def cand_def candidates_def dest: in_set_takeD)
  have charge: "map_of counts' i = (if i \<in> fst ` set ch then Some (go_count counts i + 1) else map_of counts i)" for i
  proof (cases "map_of ch i")
    case (Some c)
    then have "(i, c) \<in> set ch" by (rule map_of_SomeD)
    then show ?thesis using cnt [of "(i, c)"] sub Some res(4) by (force simp: charged_def)
  next
    case None
    then show ?thesis using map_of_eq_None_iff [of ch i] by (simp add: charged_def res(4))
  qed
  have least: "go_count counts (fst p) \<le> go_count counts (fst q)"
    if "p \<in> set ch" "q \<in> set counts" "fst q \<notin> fst ` set ch" "server_up cl live servers (fst q)"
      "server_zone strategy servers (fst q) = [] \<or> server_zone strategy servers (fst q) \<notin> (server_zone strategy servers \<circ> fst) ` set ch" for p q
  proof -
    have "q \<notin> set ch" using that(3) by blast
    moreover have "\<forall>e \<in> set ch. server_zone strategy servers (fst e) = server_zone strategy servers (fst q) \<longrightarrow>
        server_zone strategy servers (fst q) = []"
      using that(5) by (metis comp_apply imageI)
    ultimately have "snd p \<le> snd q"
      using chosen_least [OF assms(1,2), folded cand_def, of p "wanted rc" cl strategy live q, folded ch_def] that(1,2,4)
      unfolding ch_def cand_def by blast
    then show ?thesis using cnt(1) that(1,2) sub by (metis subsetD)
  qed
  show ?thesis
  proof (intro exI [of _ "map fst ch"] conjI ballI impI allI)
    show "part' = part\<lparr>pt_Replicas := map (\<lambda>i. sv_ID (servers ! nat i)) (map fst ch)\<rparr>"
      using res(3) by (simp add: comp_def case_prod_beta)
    show "go_count counts i \<le> go_count counts j"
      if ij: "i \<in> set (map fst ch)" "j \<in> fst ` set counts - set (map fst ch)"
        "server_up cl live servers j \<and> (server_zone strategy servers j = [] \<or>
           server_zone strategy servers j \<notin> server_zone strategy servers ` set (map fst ch))" for i j
    proof -
      obtain p q where "p \<in> set ch" "i = fst p" "q \<in> set counts" "j = fst q" using ij(1,2) by auto
      then show ?thesis using least [of p q] ij by (simp add: image_comp)
    qed
    show "server_zone strategy servers i = []" if "i \<in> set (map fst ch)" "j \<in> set (map fst ch)"
        "i \<noteq> j \<and> server_zone strategy servers i = server_zone strategy servers j" for i j
      using zones that by auto
  qed (use res(2) len dist sub up charge in \<open>auto simp: comp_def case_prod_beta\<close>)
qed

definition demo_servers :: "Server list" where
  "demo_servers = [new_server\<lparr>sv_ID := 1, sv_HostIp := ''a''\<rparr>, new_server\<lparr>sv_ID := 2, sv_HostIp := ''b''\<rparr>]"

lemma demo_counts_ok: "counts_ok (length demo_servers) [(0, 4), (1, 2)]"
  by (simp add: counts_ok_def demo_servers_def)

lemma demo_select:
  "selectServersForPartition insertion_sort demo_cast 1 (\<lambda>_. True) demo_servers [(0, 4), (1, 2)] 1 zero_partition =
     Inr ([RpcAddr demo_cast (demo_servers ! 1)], [(0, 4), (1, 3)], zero_partition\<lparr>pt_Replicas := [2]\<rparr>)"
  by (simp add: selectServersForPartition_def insertion_sort_def demo_servers_def go_index_def Let_def go_count_def)

theorem replicas_on_least_loaded_witness:
  "\<exists>chosen. distinct chosen \<and> length chosen = 1 \<and> set chosen \<subseteq> {0, 1 :: int} \<and>
     [2] = map (\<lambda>i. sv_ID (demo_servers ! nat i)) chosen"
proof -
  obtain chosen where ch: "distinct chosen" "length chosen = unat (1 :: 8 word)" "set chosen \<subseteq> fst ` set [(0 :: int, 4 :: int), (1, 2)]"
    "zero_partition\<lparr>pt_Replicas := [2]\<rparr> = zero_partition\<lparr>pt_Replicas := map (\<lambda>i. sv_ID (demo_servers ! nat i)) chosen\<rparr>"
    using replicas_on_least_loaded [OF insertion.go_sort_axioms demo_counts_ok one_neq_zero demo_select] by (elim exE conjE) (rule that)
  from arg_cong [OF ch(4), of pt_Replicas] show ?thesis using ch(1-3) by (intro exI [of _ chosen]) simp
qed

text \<open>
  A partition finds its servers exactly when there are enough of them. The number of replicas
  that can be placed is the number of different named zones of the servers that are up, plus the
  number of servers that are up and in no zone; the choice succeeds if the wanted number is not larger,
  and is refused with \<^verbatim>\<open>MASTER_PS_NOT_ENOUGH_SELECT\<close> otherwise.
\<close>

theorem servers_enough_iff:
  assumes "go_sort sortf" and "counts_ok (length servers) counts" and "rc \<noteq> 0"
  shows "(if unat rc \<le>
       card (server_zone strategy servers ` {i \<in> fst ` set counts. server_up cl live servers i} - {[]}) +
       card {i \<in> fst ` set counts. server_up cl live servers i \<and> server_zone strategy servers i = []}
     then \<exists>r. selectServersForPartition sortf cl strategy live servers counts rc part = Inr r
     else \<exists>m. selectServersForPartition sortf cl strategy live servers counts rc part = Inl (VErr MASTER_PS_NOT_ENOUGH_SELECT m))"
proof -
  define pairs where "pairs = sortf (\<lambda>x y. snd x < snd y) counts"
  note pf = sorted_counts [OF assms(1,2), folded pairs_def]
  let ?n = "card (server_zone strategy servers ` {i \<in> fst ` set counts. server_up cl live servers i} - {[]}) +
       card {i \<in> fst ` set counts. server_up cl live servers i \<and> server_zone strategy servers i = []}"
  let ?cand = "candidates sortf cl strategy live servers counts"
  have "card {i \<in> fst ` set counts. server_up cl live servers i \<and> server_zone strategy servers i = []} =
      length (filter (\<lambda>p. server_up cl live servers (fst p) \<and> server_zone strategy servers (fst p) = []) pairs)"
    using card_keys [OF pf(2), of "\<lambda>i. server_up cl live servers i \<and> server_zone strategy servers i = []"] unfolding pf(1) .
  moreover have "server_zone strategy servers ` {i \<in> fst ` set counts. server_up cl live servers i} =
      (\<lambda>p. server_zone strategy servers (fst p)) ` {p \<in> set pairs. server_up cl live servers (fst p)}"
  proof -
    have "{i \<in> fst ` set counts. server_up cl live servers i} = fst ` {p \<in> set pairs. server_up cl live servers (fst p)}"
      using pf(1) by auto
    then show ?thesis by (simp add: image_image)
  qed
  ultimately have len: "length ?cand = ?n"
    by (simp add: candidates_def pairs_def length_eligible)
  note enough = wanted_taken [OF assms(3), of ?cand, unfolded len]
  obtain m where m: "NewError MASTER_PS_NOT_ENOUGH_SELECT (Some (GoErr ''need more partition servers than got'')) =
      VErr MASTER_PS_NOT_ENOUGH_SELECT m"
    using NewError_GoErr_VErr by blast
  show ?thesis
    by (rule selectServersForPartition_eq [OF assms(1,2), where rc = rc and cl = cl and strategy = strategy and
          live = live and part = part])
      (simp add: m enough del: length_take)
qed

theorem servers_enough_iff_witness:
  "\<exists>m. selectServersForPartition insertion_sort demo_cast 1 (\<lambda>_. False) demo_servers [(0, 4), (1, 2)] 1 zero_partition =
     Inl (VErr MASTER_PS_NOT_ENOUGH_SELECT m)"
  using servers_enough_iff [OF insertion.go_sort_axioms demo_counts_ok one_neq_zero,
      where strategy = 1 and cl = demo_cast and live = "\<lambda>_. False" and part = zero_partition]
  by simp



text \<open>
  The counts are the replicas in use. For a database without servers of its own,
  \<^verbatim>\<open>filterAndSortServer\<close> keeps exactly the public servers of the resource group of the space, and the
  count of each is the number of replicas of all stored spaces that are on it. Such counts are what
  the choice of servers relies on.
\<close>

theorem server_counts_exact:
  assumes "db_Ps db = []" and "distinct (map sv_ID servers)" and "length (replicas_of spaces) < 2 ^ 62"
  shows "map_of (server_counts db space servers spaces) i =
      (if 0 \<le> i \<and> i < int (length servers) \<and> public space (servers ! nat i)
       then Some (int (count_list (replicas_of spaces) (sv_ID (servers ! nat i)))) else None) \<and>
    counts_ok (length servers) (server_counts db space servers spaces)"
proof -
  let ?xs = "zip (map int [0..<length servers]) servers" and ?P = "\<lambda>x. public space (snd x)"
  let ?counts = "map (\<lambda>x. (fst x, 0 :: int)) (filter ?P ?xs)"
  let ?index = "map (\<lambda>x. (sv_ID (snd x), fst x)) (filter ?P ?xs)"
  let ?res = "server_counts db space servers spaces"
  have keys: "distinct (map fst ?xs)" by (simp add: distinct_map inj_on_def)
  have "map (sv_ID \<circ> snd) ?xs = map sv_ID servers" by (simp flip: map_map)
  then have ids: "distinct (map (sv_ID \<circ> snd) ?xs)" using assms(2) by metis
  have res: "?res = fold (count_replica ?index) (replicas_of spaces) ?counts"
    using fold_public_step [OF keys ids, of "\<lparr> fi_allowed = [], fi_counts = [], fi_index = [] \<rparr>" space] assms(1)
    by (simp add: server_counts_def replicas_of_def Let_def)
  have ix: "map_of ?index r = Some j \<longleftrightarrow> 0 \<le> j \<and> j < int (length servers) \<and> public space (servers ! nat j) \<and> r = sv_ID (servers ! nat j)" for r j
  proof -
    have "distinct (map fst ?index)" using distinct_map_filter [OF ids, of ?P] by (simp add: comp_def)
    then have "map_of ?index r = Some j \<longleftrightarrow> (r, j) \<in> set ?index" by simp
    also have "\<dots> \<longleftrightarrow> (\<exists>x \<in> set ?xs. public space (snd x) \<and> r = sv_ID (snd x) \<and> j = fst x)" by auto
    also have "\<dots> \<longleftrightarrow> 0 \<le> j \<and> j < int (length servers) \<and> public space (servers ! nat j) \<and> r = sv_ID (servers ! nat j)"
      by (auto simp: set_zip intro!: exI [of _ "nat j"])
    finally show ?thesis .
  qed
  note look = map_of_indexed [of "\<lambda>_. 0 :: int" ?P servers]
  have c1: "\<forall>r j. map_of ?index r = Some j \<longrightarrow> j \<in> fst ` set ?counts"
    using look unfolding ix by (metis (no_types, lifting) map_of_eq_None_iff option.distinct(1) snd_conv)
  have c2: "\<forall>j c. map_of ?counts j = Some c \<longrightarrow> 0 \<le> c \<and> c + int (length (replicas_of spaces)) < 2 ^ 63"
    using look assms(3) by (auto split: if_splits)
  note run = fold_count_replica [OF c1 c2, folded res]
  have "(\<lambda>r. map_of ?index r = Some j) = (=) (sv_ID (servers ! nat j))"
    if "0 \<le> j" "j < int (length servers)" "public space (servers ! nat j)" for j
    using that by (auto simp: ix fun_eq_iff)
  then have val: "map_of ?res j =
      (if 0 \<le> j \<and> j < int (length servers) \<and> public space (servers ! nat j)
       then Some (int (count_list (replicas_of spaces) (sv_ID (servers ! nat j)))) else None)" for j
    using run [of j] look [of j] by (simp add: count_list_eq_length_filter)
  have ok: "gomap_ok ?res"
    using run distinct_map_filter [OF keys, of ?P] by (simp add: comp_def)
  have "0 \<le> fst p \<and> fst p < int (length servers) \<and> 0 \<le> snd p \<and> snd p < 2 ^ 62" if "p \<in> set ?res" for p
  proof -
    have "map_of ?res (fst p) = Some (snd p)" using ok that by simp
    then show ?thesis
      using val [of "fst p"] assms(3) count_le_length [of "replicas_of spaces" "sv_ID (servers ! nat (fst p))"]
      by (auto split: if_splits)
  qed
  then show ?thesis using val ok by (simp add: counts_ok_def)
qed

theorem server_counts_exact_witness:
  "map_of (server_counts new_db empty_space demo_servers
     [empty_space\<lparr>sp_Partitions := [zero_partition\<lparr>pt_Replicas := [1, 2]\<rparr>, zero_partition\<lparr>pt_Replicas := [2]\<rparr>]\<rparr>]) 1 = Some 2"
  using server_counts_exact [of new_db demo_servers
      "[empty_space\<lparr>sp_Partitions := [zero_partition\<lparr>pt_Replicas := [1, 2]\<rparr>, zero_partition\<lparr>pt_Replicas := [2]\<rparr>]\<rparr>]" empty_space 1]
  by (simp add: new_db_def demo_servers_def replicas_of_def public_def new_server_def empty_space_def)

end
