(* ===== verification/Frames.thy ===== *)
theory Frames
  imports Store
begin

text \<open>
  Loops over actions that the services share, and the frame rules for invariants of the store.

  \<open>ignoring\<close> is a call whose error is only logged, \<open>eachA\<close> a loop that stops at the first error,
  \<open>parallelA\<close> one goroutine per element, all of them waited for. An invariant is \<open>unaffected\<close> by a key
  when it survives any value of it; an operation that writes only such keys keeps the invariant,
  whatever calls fail. The rules are collected in \<open>keep_rules\<close>.
\<close>

section \<open>Loops\<close>

definition ignoring :: "('s, 'a) act \<Rightarrow> ('s, unit) act" where
  "ignoring a s = (Inr (), snd (a s))"

fun eachA :: "('a \<Rightarrow> ('s, unit) act) \<Rightarrow> 'a list \<Rightarrow> ('s, unit) act" where
  "eachA f [] = ret ()"
| "eachA f (x # xs) = bindA (f x) (\<lambda>_. eachA f xs)"

text \<open>One goroutine per element: all are run, and the first error is the result.\<close>

fun parallelA :: "('a \<Rightarrow> ('s, unit) act) \<Rightarrow> 'a list \<Rightarrow> ('s, unit) act" where
  "parallelA f [] s = (Inr (), s)"
| "parallelA f (x # xs) s =
     (case f x s of (r, s') \<Rightarrow> (case parallelA f xs s' of
        (r', s'') \<Rightarrow> ((case r of Inl e \<Rightarrow> Inl e | Inr _ \<Rightarrow> r'), s'')))"

text \<open>Going on by the result of a call, error or not.\<close>

definition caseA :: "('s, 'a) act \<Rightarrow> (go_error \<Rightarrow> ('s, 'b) act) \<Rightarrow> ('a \<Rightarrow> ('s, 'b) act) \<Rightarrow> ('s, 'b) act" where
  "caseA a onErr onOk s = (case a s of (Inl e, s') \<Rightarrow> onErr e s' | (Inr x, s') \<Rightarrow> onOk x s')"

lemma bindA_caseA: "bindA a f = caseA a fail f"
  by (rule ext) (simp add: bindA_def caseA_def split: prod.splits sum.splits)

lemma caseA_simps [simp]:
  "a s = (Inr x, s') \<Longrightarrow> caseA a onErr onOk s = onOk x s'"
  "a s = (Inl e, s') \<Longrightarrow> caseA a onErr onOk s = onErr e s'"
  by (simp_all add: caseA_def)

lemma caseA_Inr:
  "caseA a onErr onOk s = (Inr y, t) \<longleftrightarrow>
     (\<exists>x s'. a s = (Inr x, s') \<and> onOk x s' = (Inr y, t)) \<or> (\<exists>e s'. a s = (Inl e, s') \<and> onErr e s' = (Inr y, t))"
  by (cases "a s"; cases "fst (a s)") auto

lemma mapA_Inr:
  assumes "mapA f xs w = (Inr ys, w')"
  shows "length ys = length xs \<and> (\<forall>i < length xs. \<exists>u u'. f (xs ! i) u = (Inr (ys ! i), u'))"
  using assms
proof (induction xs arbitrary: ys w)
  case (Cons x xs)
  then obtain y u zs where y: "f x w = (Inr y, u)" "mapA f xs u = (Inr zs, w')" "ys = y # zs"
    by (auto simp: bindA_eq_Inr)
  have "\<exists>u u'. f ((x # xs) ! i) u = (Inr (ys ! i), u')" if "i < length (x # xs)" for i
    using Cons.IH [OF y(2)] y(1,3) that by (cases i) auto
  then show ?case using Cons.IH [OF y(2)] y(3) by simp
qed simp

lemma with_lock_Inr:
  assumes "with_lock k body w = (Inr x, w')"
  obtains u v where "body u = (Inr x, v)" and "kv u = kv w" and "kv w' = kv v"
proof -
  obtain u v where "lock_call w = (Inr (), u)" "body u = (Inr x, v)" "w' = snd (noop v)"
    using assms by (auto simp: with_lock_def split: prod.splits sum.splits)
  then show thesis using that [of u v] kv_lock_call [of w] by simp
qed

section \<open>Frames\<close>

definition unaffected :: "(kvs \<Rightarrow> bool) \<Rightarrow> string \<Rightarrow> bool" where
  "unaffected I key \<longleftrightarrow> (\<forall>m v. I m \<longrightarrow> I (AList.update key v m) \<and> I (AList.delete key m))"

named_theorems keep_rules

lemma keeps_pure [keep_rules]: "keeps I (ret x)" "keeps I (fail e)" "keeps I (lift r)"
  by (simp_all add: triple_def split: sum.splits)

lemma keeps_bindA [keep_rules]: "keeps I a \<Longrightarrow> (\<And>x. keeps I (f x)) \<Longrightarrow> keeps I (bindA a f)"
  by (rule triple_bindA)

lemma keeps_act: "keeps I a \<longleftrightarrow> (\<forall>w. I (kv w) \<longrightarrow> I (kv (snd (a w))))"
proof -
  have "(case a w of (Inr x, w') \<Rightarrow> I (kv w') | (Inl _, w') \<Rightarrow> I (kv w')) \<longleftrightarrow> I (kv (snd (a w)))" for w
    by (cases "a w"; cases "fst (a w)") auto
  then show ?thesis by (simp add: triple_def)
qed

lemma keeps_caseA [keep_rules]:
  "keeps I a \<Longrightarrow> (\<And>e. keeps I (f e)) \<Longrightarrow> (\<And>x. keeps I (g x)) \<Longrightarrow> keeps I (caseA a f g)"
  by (fastforce simp: keeps_act caseA_def split: prod.splits sum.splits)

lemma keeps_ignoring [keep_rules]: "keeps I a \<Longrightarrow> keeps I (ignoring a)"
  by (simp add: keeps_act ignoring_def)

lemma keeps_mapA [keep_rules]: "(\<And>x. keeps I (f x)) \<Longrightarrow> keeps I (mapA f xs)"
  by (induction xs) (auto intro!: keep_rules)

lemma keeps_eachA [keep_rules]: "(\<And>x. x \<in> set xs \<Longrightarrow> keeps I (f x)) \<Longrightarrow> keeps I (eachA f xs)"
  by (induction xs) (auto intro!: keep_rules)

lemma keeps_parallelA [keep_rules]: "(\<And>x. x \<in> set xs \<Longrightarrow> keeps I (f x)) \<Longrightarrow> keeps I (parallelA f xs)"
proof (induction xs)
  case (Cons x xs)
  then have "keeps I (f x)" "keeps I (parallelA f xs)" by simp_all
  then show ?case by (auto simp: keeps_act split: prod.splits)
qed (simp add: keeps_act)

lemma keeps_if [keep_rules]: "keeps I a \<Longrightarrow> keeps I b \<Longrightarrow> keeps I (if c then a else b)"
  by simp

lemma keeps_option [keep_rules]:
  "keeps I a \<Longrightarrow> (\<And>x. keeps I (f x)) \<Longrightarrow> keeps I (case v of None \<Rightarrow> a | Some x \<Rightarrow> f x)"
  by (cases v) simp_all

lemma keeps_prod [keep_rules]: "(\<And>x y. keeps I (f x y)) \<Longrightarrow> keeps I (case p of (x, y) \<Rightarrow> f x y)"
  by (cases p) simp

lemma keeps_with_lock [keep_rules]: "keeps I body \<Longrightarrow> keeps I (with_lock k body)"
  by (rule triple_with_lock)

lemma keeps_etcd: "(\<And>m. I m \<Longrightarrow> I (snd (opr m))) \<Longrightarrow> keeps I (etcd opr)"
  by (rule triple_etcd) (metis snd_conv)+

lemma keeps_reads [keep_rules]: "keeps I (Get k)" "keeps I (PrefixScan p)"
  by (auto intro: triple_rules)

lemma keeps_writes [keep_rules]:
  assumes "unaffected I k"
  shows "keeps I (Put k v)" and "keeps I (Update k v)" and "keeps I (Create k v)" and "keeps I (Delete k)"
proof -
  show "keeps I (Put k v)" "keeps I (Update k v)" "keeps I (Create k v)"
    using assms unfolding Put_def Update_def Create_def unaffected_def by (auto intro!: keeps_etcd)
  have "keeps I (wrap_err e (etcd (\<lambda>m. (Inr (if map_of m k = None then 0 else 1 :: nat), AList.delete k m))))" for e
    using keeps_etcd [of I "\<lambda>m. (Inr (if map_of m k = None then 0 else 1 :: nat), AList.delete k m)"] assms
    by (auto simp: keeps_act wrap_err_def unaffected_def split: prod.splits sum.splits)
  then show "keeps I (Delete k)" unfolding Delete_def by (intro keep_rules)
qed

lemma keeps_NewIDGenerate [keep_rules]: "unaffected I k \<Longrightarrow> keeps I (NewIDGenerate k b)"
  unfolding NewIDGenerate_body
  by (rule triple_STM) (auto simp: id_body_def unaffected_def bindA_def Let_def split: if_splits sum.splits)

end
