(* ===== verification/SpaceService.thy ===== *)
theory SpaceService
  imports Placement SpaceRouting IndexRules Frames
begin

text \<open>
  Creating, changing and deleting spaces: \<^verbatim>\<open>internal/master/services/space_service.go\<close>.

  An operation is an action on the \<open>world\<close>, like those of the database service. The rest of the
  cluster is the record \<open>space_env\<close>: the decoders, \<^verbatim>\<open>mapping.SchemaMap\<close>, the sort and the calls to the
  partition servers (\<open>en_create\<close>, \<open>en_delete\<close>, \<open>en_update\<close>: \<^verbatim>\<open>client.CreatePartition\<close>,
  \<^verbatim>\<open>DeletePartition\<close>, \<^verbatim>\<open>UpdatePartition\<close>), which may change the world in any way, since a partition server
  registers its partitions at the master. \<open>en_sleep\<close> is what happens while the code sleeps, and \<open>en_polls\<close>
  the number of rounds of a waiting loop until the context of the request is cancelled.

  The code starts one goroutine per partition and waits for all of them; here they run one after the
  other, and the error that is reported is the one of the first.
\<close>

section \<open>The cluster\<close>

record space_env =
  en_ks :: key_space
  en_nt :: "nat \<Rightarrow> bool"
  en_cl :: cast_lib
  en_dc :: "DB codec"
  en_sc :: "Space codec"
  en_vc :: "Server codec"
  en_pc :: "Partition codec"
  en_js :: schema_json
  en_schema :: "string \<Rightarrow> unit res"
  en_sort :: "nat \<Rightarrow> ((int \<times> int) \<Rightarrow> (int \<times> int) \<Rightarrow> bool) \<Rightarrow> (int \<times> int) list \<Rightarrow> (int \<times> int) list"
  en_strategy :: int
  en_live :: "nat \<Rightarrow> string \<Rightarrow> bool"
  en_create :: "string \<Rightarrow> Space \<Rightarrow> 32 word \<Rightarrow> (world, unit) act"
  en_delete :: "string \<Rightarrow> 32 word \<Rightarrow> (world, unit) act"
  en_update :: "string \<Rightarrow> Space \<Rightarrow> 32 word \<Rightarrow> (world, unit) act"
  en_sleep :: "world \<Rightarrow> world"
  en_polls :: nat

section \<open>Partitions on their servers\<close>

text \<open>\<^verbatim>\<open>createPartitionOnServers\<close> stops at the first server that fails.\<close>

definition create_err :: "go_error \<Rightarrow> go_error" where
  "create_err e = NewError INTERNAL_ERROR (Some (GoErr ''create partition err''))"

fun createPartitionOnServers ::
  "space_env \<Rightarrow> Space \<Rightarrow> string list \<Rightarrow> 32 word \<Rightarrow> (world, unit) act" where
  "createPartitionOnServers en space [] pid = ret ()"
| "createPartitionOnServers en space (a # addrs) pid =
     caseA (en_create en a space pid) (\<lambda>e. fail (create_err e)) (\<lambda>_. createPartitionOnServers en space addrs pid)"

definition create_all :: "space_env \<Rightarrow> Space \<Rightarrow> (string list \<times> Partition) list \<Rightarrow> (world, unit) act" where
  "create_all en space = parallelA (\<lambda>(addrs, p). createPartitionOnServers en space addrs (pt_Id p))"

text \<open>The waiting loops; the result is the number of rounds that are left.\<close>

fun wait_partition :: "space_env \<Rightarrow> go_error \<Rightarrow> nat \<Rightarrow> 32 word \<Rightarrow> (world, nat) act" where
  "wait_partition en cancelled 0 pid = fail cancelled"
| "wait_partition en cancelled (Suc n) pid =
     caseA (QueryPartition (en_ks en) (en_pc en) pid)
       (\<lambda>e. if err_code (NewError INTERNAL_ERROR (Some e)) \<noteq> Some PARTITION_NOT_EXIST then fail e
            else (\<lambda>w. wait_partition en cancelled n pid (en_sleep en w)))
       (\<lambda>_. ret n)"

fun wait_partitions :: "space_env \<Rightarrow> go_error \<Rightarrow> nat \<Rightarrow> 32 word list \<Rightarrow> (world, unit) act" where
  "wait_partitions en cancelled n [] = ret ()"
| "wait_partitions en cancelled n (pid # pids) =
     bindA (wait_partition en cancelled n pid) (\<lambda>m. wait_partitions en cancelled m pids)"

definition waitForPartitionsReady ::
  "space_env \<Rightarrow> Space \<Rightarrow> (string list \<times> Partition) list \<Rightarrow> (world, unit) act" where
  "waitForPartitionsReady en space placed =
     bindA (create_all en space placed) (\<lambda>_.
       wait_partitions en (NewError INTERNAL_ERROR (Some (GoErr ''create space partition has error'')))
         (en_polls en) (map (pt_Id \<circ> snd) placed))"

definition delete_replicas :: "space_env \<Rightarrow> Partition \<Rightarrow> (world, unit) act" where
  "delete_replicas en p =
     eachA (\<lambda>nodeID. ignoring (bindA (QueryServer (en_ks en) (en_vc en) nodeID) (\<lambda>server.
       en_delete en (RpcAddr (en_cl en) server) (pt_Id p)))) (pt_Replicas p)"

section \<open>Saving a space\<close>

definition saved_space :: "Space \<Rightarrow> Space" where
  "saved_space space =
     space\<lparr>sp_Version := sp_Version space + 1,
       sp_PartitionNum := (if sp_PartitionRule space = None then int (length (sp_Partitions space)) else sp_PartitionNum space),
       sp_PartitionName := None, sp_PartitionOperatorType := None\<rparr>"

definition UpdateSpaceData :: "space_env \<Rightarrow> Space \<Rightarrow> (world, Space) act" where
  "UpdateSpaceData en space =
     (let space' = saved_space space in
      bindA (lift (marshal (en_sc en) space')) (\<lambda>bytes.
      bindA (Update (SpaceKey (en_ks en) (sp_DBId space) (sp_Id space)) bytes) (\<lambda>_. ret space')))"

section \<open>Creating a space\<close>

fun has_vector_index :: "Index option list \<Rightarrow> bool res" where
  "has_vector_index [] = Inr False"
| "has_vector_index (None # ixs) = Inl (GoPanic ''nil pointer dereference'')"
| "has_vector_index (Some ix # ixs) = (if \<not> IsScalarIndexType (ix_Type ix) then Inr True else has_vector_index ixs)"

text \<open>The loops that make the partitions, with an id from the store for each.\<close>

definition slot_loopA :: "space_env \<Rightarrow> Space \<Rightarrow> int \<Rightarrow> (nat \<Rightarrow> string res) \<Rightarrow> (world, Space) act" where
  "slot_loopA en space n name =
     (if n = 0 then fail (GoPanic ''integer divide by zero'')
      else bindA (mapA (\<lambda>i.
          bindA (NewIDGenerate (PartitionIdSequence (en_ks en)) 1) (\<lambda>pid. bindA (lift (name i)) (\<lambda>nm.
            ret (new_partition (word_of_int pid) nm (sp_Id space) (sp_DBId space)
                   (word_of_int (int i * (4294967295 sdiv n))))))) [0..<nat n])
        (\<lambda>ps. ret (space\<lparr>sp_Partitions := sp_Partitions space @ ps\<rparr>)))"

definition make_partitionsA :: "space_env \<Rightarrow> Space \<Rightarrow> (world, Space) act" where
  "make_partitionsA en space =
     (case sp_PartitionRule space of
        None \<Rightarrow> slot_loopA en space (sp_PartitionNum space) (\<lambda>i. Inr [])
      | Some rule \<Rightarrow> bindA (lift (PartitionRule_Validate (en_cl en) rule space True)) (\<lambda>space'.
          case sp_PartitionRule space' of
            None \<Rightarrow> fail (GoPanic ''nil pointer dereference'')
          | Some rule' \<Rightarrow>
              slot_loopA en space' (int64 (sp_PartitionNum space' * pr_Partitions rule'))
                (\<lambda>i. bind_res (go_index (pr_Ranges rule') (int i sdiv sp_PartitionNum space'))
                       (\<lambda>r. Inr (rg_Name r)))))"

definition check_fresh_name :: "space_env \<Rightarrow> Space \<Rightarrow> (world, unit) act" where
  "check_fresh_name en space =
     caseA (QuerySpaceByName (en_ks en) (en_sc en) (sp_DBId space) (sp_Name space))
       (\<lambda>e. let vErr = NewError INTERNAL_ERROR (Some e) in
            if err_code vErr \<noteq> Some SPACE_NOT_EXIST then fail vErr else ret ())
       (\<lambda>_. fail (NewError SPACE_EXIST None))"

text \<open>What a failed creation takes back.\<close>

definition undo_partition :: "space_env \<Rightarrow> Partition \<Rightarrow> (world, unit) act" where
  "undo_partition en p =
     bindA (delete_replicas en p) (\<lambda>_.
       ignoring (bindA (QueryPartition (en_ks en) (en_pc en) (pt_Id p)) (\<lambda>_.
         Delete (PartitionKey (en_ks en) (pt_Id p)))))"

definition choose_servers ::
  "space_env \<Rightarrow> Server list \<Rightarrow> (int, int) gomap \<Rightarrow> 8 word \<Rightarrow> Partition list \<Rightarrow>
     ((string list \<times> Partition) list) res" where
  "choose_servers en servers counts replicaNum ps =
     bind_res (place_partitions (en_sort en) (en_cl en) (en_strategy en) (en_live en) servers counts replicaNum ps)
       (\<lambda>(placed, _). Inr placed)"

text \<open>From \<^verbatim>\<open>Create\<close> on, the key of the space is deleted again unless the space got enabled.\<close>

definition deploy_space :: "space_env \<Rightarrow> Server list \<Rightarrow> (int, int) gomap \<Rightarrow> Space \<Rightarrow> (world, Space) act" where
  "deploy_space en servers counts space =
     bindA (lift (marshal (en_sc en) space)) (\<lambda>bytes.
     bindA (Create (SpaceKey (en_ks en) (sp_DBId space) (sp_Id space)) bytes) (\<lambda>_.
     bindA (lift (choose_servers en servers counts (sp_ReplicaNum space) (sp_Partitions space))) (\<lambda>placed.
     let space' = space\<lparr>sp_Partitions := map snd placed\<rparr> in
     caseA (waitForPartitionsReady en space' placed)
       (\<lambda>e. bindA (eachA (undo_partition en) (sp_Partitions space')) (\<lambda>_. fail e))
       (\<lambda>_. UpdateSpaceData en (space'\<lparr>sp_Enabled := Some True\<rparr>)))))"

definition drop_unless_enabled :: "space_env \<Rightarrow> Space \<Rightarrow> (world, Space) act \<Rightarrow> (world, Space) act" where
  "drop_unless_enabled en space body =
     caseA body
       (\<lambda>e. bindA (ignoring (Delete (SpaceKey (en_ks en) (sp_DBId space) (sp_Id space)))) (\<lambda>_. fail e)) ret"

definition CreateSpace :: "space_env \<Rightarrow> string \<Rightarrow> Space \<Rightarrow> bool \<Rightarrow> (world, Space) act" where
  "CreateSpace en dbName space isRestore =
     bindA (QueryDBName2ID (en_ks en) (en_cl en) dbName) (\<lambda>dbId.
     bindA (lift (en_schema en (sp_Fields space))) (\<lambda>_.
     with_lock (LockSpaceKey (en_ks en) dbName ''space_name'') (
       let space1 = space\<lparr>sp_DBId := dbId\<rparr> in
       bindA (check_fresh_name en space1) (\<lambda>_.
       bindA (QueryServers (en_ks en) (en_vc en)) (\<lambda>servers.
       bindA (NewIDGenerate (SpaceIdSequence (en_ks en)) 1) (\<lambda>spaceID.
       bindA (lift (UnmarshalPropertyJSON (en_js en) (sp_Fields space1))) (\<lambda>props.
       bindA (lift (if \<not> isRestore \<or> length (sp_Indexes space1) = 0 then MergeFieldIndexes props (sp_Indexes space1)
                    else Inr (sp_Indexes space1))) (\<lambda>indexes.
       bindA (lift (bind_res (has_vector_index indexes) (\<lambda>has.
                guard (\<not> has) (param_err ''space vector field index should not be empty'')))) (\<lambda>_.
       bindA (make_partitionsA en
                (space1\<lparr>sp_Id := spaceID, sp_SpaceProperties := props, sp_Indexes := indexes\<rparr>)) (\<lambda>space2.
       bindA (filterAndSortServer (en_ks en) (en_nt en) (en_cl en) (en_dc en) (en_sc en) space2 servers) (\<lambda>counts.
       bindA (lift (guard (unat (sp_ReplicaNum space2) > length counts)
                (GoErr ''not enough partition servers''))) (\<lambda>_.
       let space3 = space2\<lparr>sp_Enabled := Some False\<rparr> in
       drop_unless_enabled en space3 (deploy_space en servers counts space3)))))))))))))"

section \<open>Deleting a space\<close>

definition DeleteSpace :: "space_env \<Rightarrow> string \<Rightarrow> string \<Rightarrow> (world, unit) act" where
  "DeleteSpace en dbName spaceName =
     bindA (QueryDBName2ID (en_ks en) (en_cl en) dbName) (\<lambda>dbId.
     bindA (QuerySpaceByName (en_ks en) (en_sc en) dbId spaceName) (\<lambda>space.
     with_lock (LockSpaceKey (en_ks en) dbName spaceName) (
       bindA (Delete (SpaceKey (en_ks en) dbId (sp_Id space))) (\<lambda>_.
       bindA (eachA (\<lambda>p. bindA (delete_replicas en p) (\<lambda>_. Delete (PartitionKey (en_ks en) (pt_Id p))))
                (sp_Partitions space)) (\<lambda>_.
       Delete (SpaceConfigKey (en_ks en) dbId (sp_Id space)))))))"

section \<open>Successful runs\<close>

lemma slot_loopA_Inr:
  assumes "slot_loopA en space n name w = (Inr space', w')" and "0 < n"
  obtains ids nm where "length ids = nat n" and "\<forall>i < nat n. name i = Inr (nm i)"
    and "space' = space\<lparr>sp_Partitions := sp_Partitions space @
      make_partitions (sp_Id space) (sp_DBId space) (4294967295 div int (length ids)) nm ids\<rparr>"
proof -
  let ?mk = "\<lambda>i. bindA (NewIDGenerate (PartitionIdSequence (en_ks en)) 1) (\<lambda>pid. bindA (lift (name i)) (\<lambda>nm.
      ret (new_partition (word_of_int pid) nm (sp_Id space) (sp_DBId space) (word_of_int (int i * (4294967295 sdiv n))))))"
  obtain ps u where ps: "mapA ?mk [0..<nat n] w = (Inr ps, u)" "space' = space\<lparr>sp_Partitions := sp_Partitions space @ ps\<rparr>"
    using assms by (auto simp: slot_loopA_def bindA_eq_Inr)
  have run: "length ps = nat n" "\<And>i. i < nat n \<Longrightarrow> \<exists>u u'. ?mk i u = (Inr (ps ! i), u')"
    using mapA_Inr [OF ps(1)] by auto
  have w: "4294967295 sdiv n = 4294967295 div n" using assms(2) by (simp add: signed_divide_int_def)
  have "\<exists>nm. name i = Inr nm \<and> (\<exists>pid. ps ! i = new_partition (word_of_int pid) nm (sp_Id space) (sp_DBId space) (word_of_int (int i * (4294967295 div n))))"
    if "i < nat n" for i
    using run(2) [OF that] w by (auto simp: bindA_eq_Inr) (metis (full_types))
  then obtain nm where nm: "\<And>i. i < nat n \<Longrightarrow> name i = Inr (nm i) \<and>
      (\<exists>pid. ps ! i = new_partition (word_of_int pid) (nm i) (sp_Id space) (sp_DBId space) (word_of_int (int i * (4294967295 div n))))"
    by metis
  define ids where "ids = map (\<lambda>p. uint (pt_Id p)) ps"
  have len: "length ids = nat n" "int (nat n) = n" using run(1) assms(2) by (simp_all add: ids_def)
  have "ps = make_partitions (sp_Id space) (sp_DBId space) (4294967295 div int (length ids)) nm ids"
  proof (rule nth_equalityI)
    show "length ps = length (make_partitions (sp_Id space) (sp_DBId space) (4294967295 div int (length ids)) nm ids)"
      by (simp add: make_partitions_def ids_def)
    fix i assume i: "i < length ps"
    then have i': "i < nat n" using run(1) by simp
    from nm [OF this] show "ps ! i = make_partitions (sp_Id space) (sp_DBId space) (4294967295 div int (length ids)) nm ids ! i"
      using i i' len by (auto simp: make_partitions_nth ids_def new_partition_def)
  qed
  then show thesis using that [of ids nm] len nm ps(2) by blast
qed

text \<open>Choosing servers changes nothing but the replicas of a partition.\<close>

definition same_but_replicas :: "Partition \<Rightarrow> Partition \<Rightarrow> bool" where
  "same_but_replicas p q \<longleftrightarrow> (\<exists>rs. q = p\<lparr>pt_Replicas := rs\<rparr>)"

lemma select_loop_count:
  "select_loop cl strategy live servers pairs st = Inr st' \<Longrightarrow>
   \<exists>k. length (se_replicas st') = length (se_replicas st) + k \<and> k \<le> wanted (se_left st) \<and>
     se_left st' = se_left st - of_nat k"
proof (induction pairs arbitrary: st)
  case (Cons p pairs)
  obtain i c where p: "p = (i, c)" by (cases p)
  obtain sv where sv: "go_index servers i = Inr sv" using Cons.prems p by (auto simp: res_simps)
  let ?z = "zone_of strategy sv"
  show ?case
  proof (cases "live (RpcAddr cl sv) \<and> \<not> (?z \<noteq> [] \<and> go_count (se_zones st) ?z > 0)")
    case False
    then show ?thesis
      using Cons.prems Cons.IH [of st] Cons.IH [of "st\<lparr>se_counts := AList.update i c (se_counts st)\<rparr>"] p sv
      by (auto simp: Let_def split: if_splits)
  next
    case True
    define st1 where "st1 = st\<lparr>se_counts := AList.update i (int64 (go_count (se_counts st) i + 1)) (se_counts st),
        se_zones := (if ?z \<noteq> [] then AList.update ?z (int64 (go_count (se_zones st) ?z + 1)) (se_zones st) else se_zones st),
        se_addrs := se_addrs st @ [RpcAddr cl sv], se_replicas := se_replicas st @ [sv_ID sv], se_left := se_left st - 1\<rparr>"
    have run: "(if se_left st1 = 0 then Inr st1 else select_loop cl strategy live servers pairs st1) = Inr st'"
      using Cons.prems True p sv by (auto simp: Let_def st1_def)
    show ?thesis
    proof (cases "se_left st1 = 0")
      case True
      then show ?thesis using run wanted_one [of "se_left st"] by (intro exI [of _ 1]) (auto simp: st1_def)
    next
      case False
      then obtain k where "length (se_replicas st') = length (se_replicas st1) + k" "k \<le> wanted (se_left st1)"
          "se_left st' = se_left st1 - of_nat k"
        using Cons.IH run by auto
      then show ?thesis
        using wanted_step [of "se_left st"] False by (intro exI [of _ "Suc k"]) (auto simp: st1_def)
    qed
  qed
qed simp

lemma place_partitions_shape:
  assumes "place_partitions sortf cl strategy live servers counts rc ps = Inr (placed, counts')"
  shows "list_all2 same_but_replicas ps (map snd placed)"
    and "rc \<noteq> 0 \<Longrightarrow> \<forall>q \<in> set (map snd placed). length (pt_Replicas q) = unat rc"
proof -
  have "list_all2 same_but_replicas ps (map snd placed) \<and>
      (rc \<noteq> 0 \<longrightarrow> (\<forall>q \<in> set (map snd placed). length (pt_Replicas q) = unat rc))"
    using assms
  proof (induction ps arbitrary: counts placed)
    case (Cons p ps)
    then obtain addrs c' p' rest where one: "selectServersForPartition (sortf (length ps)) cl strategy (live (length ps)) servers counts rc p = Inr (addrs, c', p')"
        and rest: "place_partitions sortf cl strategy live servers c' rc ps = Inr (rest, counts')" "placed = (addrs, p') # rest"
      by (auto simp: res_simps)
    obtain st where st: "select_loop cl strategy (live (length ps)) servers (sortf (length ps) (\<lambda>x y. snd x < snd y) counts)
        \<lparr> se_counts = counts, se_zones = [], se_addrs = [], se_replicas = [], se_left = rc \<rparr> = Inr st"
        "se_left st = 0" "p' = p\<lparr>pt_Replicas := se_replicas st\<rparr>"
      using one by (auto simp: selectServersForPartition_def res_simps word_gt_0 split: if_splits)
    from select_loop_count [OF st(1)] obtain k where k: "length (se_replicas st) = k" "k \<le> wanted rc" "0 = rc - of_nat k"
      using st(2) by auto
    have "length (pt_Replicas p') = unat rc" if "rc \<noteq> 0"
    proof -
      have "k < 256" using k(2) that unat_bounds(1) [of rc] by (simp add: wanted_def)
      then have "unat (of_nat k :: 8 word) = k" by (simp add: unat_of_nat)
      then show ?thesis using k st(3) by simp
    qed
    then show ?case
      using Cons.IH [OF rest(1)] rest(2) st(3) by (auto simp: same_but_replicas_def)
  qed simp
  then show "list_all2 same_but_replicas ps (map snd placed)"
    and "rc \<noteq> 0 \<Longrightarrow> \<forall>q \<in> set (map snd placed). length (pt_Replicas q) = unat rc" by blast+
qed

lemma same_but_replicas_routes:
  assumes "list_all2 same_but_replicas ps qs"
  shows "length qs = length ps" and "slots_ok qs = slots_ok ps" and "owns qs slot i = owns ps slot i"
    and "i < length ps \<Longrightarrow> pt_Id (qs ! i) = pt_Id (ps ! i)"
proof -
  show len: "length qs = length ps" using assms by (simp add: list_all2_lengthD)
  have nth: "pt_Slot (qs ! j) = pt_Slot (ps ! j)" "pt_Id (qs ! j) = pt_Id (ps ! j)" if "j < length ps" for j
    using list_all2_nthD [OF assms that] by (auto simp: same_but_replicas_def)
  then have "map pt_Slot qs = map pt_Slot ps" by (intro nth_equalityI) (simp_all add: len)
  then show "slots_ok qs = slots_ok ps" using nth(1) [of 0] len
    by (cases ps; cases qs) (auto simp: slots_ok_def)
  show "owns qs slot i = owns ps slot i" using nth(1) len by (auto simp: owns_def)
  show "i < length ps \<Longrightarrow> pt_Id (qs ! i) = pt_Id (ps ! i)" by (rule nth(2))
qed

lemma UpdateSpaceData_Inr:
  assumes "UpdateSpaceData en space w = (Inr space', w')"
  shows "space' = saved_space space" and
    "\<exists>b. marshal (en_sc en) space' = Inr b \<and> map_of (kv w') (SpaceKey (en_ks en) (sp_DBId space) (sp_Id space)) = Some b"
  using assms
  by (auto simp: UpdateSpaceData_def Let_def bindA_eq_Inr Update_def update_conv' elim!: etcd_cases)

lemma deploy_space_Inr:
  assumes "deploy_space en servers counts space w = (Inr space', w')"
  obtains placed u where "choose_servers en servers counts (sp_ReplicaNum space) (sp_Partitions space) = Inr placed"
    and "UpdateSpaceData en (space\<lparr>sp_Partitions := map snd placed, sp_Enabled := Some True\<rparr>) u = (Inr space', w')"
  using assms by (auto simp: deploy_space_def Let_def bindA_eq_Inr caseA_Inr)

lemma CreateSpace_Inr:
  assumes "CreateSpace en dbName space isRestore w = (Inr space', w')"
  obtains dbId sid props indexes space2 servers counts u v u' v' where
    "make_partitionsA en (space\<lparr>sp_DBId := dbId, sp_Id := sid, sp_SpaceProperties := props, sp_Indexes := indexes\<rparr>) u = (Inr space2, v)"
    and "deploy_space en servers counts (space2\<lparr>sp_Enabled := Some False\<rparr>) u' = (Inr space', v')" and "kv w' = kv v'"
proof -
  from assms obtain dbId body u0 where body: "with_lock (LockSpaceKey (en_ks en) dbName ''space_name'') (body dbId) u0 = (Inr space', w')"
    and bd: "body = (\<lambda>dbId. let space1 = space\<lparr>sp_DBId := dbId\<rparr> in
       bindA (check_fresh_name en space1) (\<lambda>_.
       bindA (QueryServers (en_ks en) (en_vc en)) (\<lambda>servers.
       bindA (NewIDGenerate (SpaceIdSequence (en_ks en)) 1) (\<lambda>spaceID.
       bindA (lift (UnmarshalPropertyJSON (en_js en) (sp_Fields space1))) (\<lambda>props.
       bindA (lift (if \<not> isRestore \<or> length (sp_Indexes space1) = 0 then MergeFieldIndexes props (sp_Indexes space1)
                    else Inr (sp_Indexes space1))) (\<lambda>indexes.
       bindA (lift (bind_res (has_vector_index indexes) (\<lambda>has.
                guard (\<not> has) (param_err ''space vector field index should not be empty'')))) (\<lambda>_.
       bindA (make_partitionsA en
                (space1\<lparr>sp_Id := spaceID, sp_SpaceProperties := props, sp_Indexes := indexes\<rparr>)) (\<lambda>space2.
       bindA (filterAndSortServer (en_ks en) (en_nt en) (en_cl en) (en_dc en) (en_sc en) space2 servers) (\<lambda>counts.
       bindA (lift (guard (unat (sp_ReplicaNum space2) > length counts)
                (GoErr ''not enough partition servers''))) (\<lambda>_.
       let space3 = space2\<lparr>sp_Enabled := Some False\<rparr> in
       drop_unless_enabled en space3 (deploy_space en servers counts space3)))))))))))"
    unfolding CreateSpace_def by (auto simp: bindA_eq_Inr)
  from body obtain u1 v1 where run: "body dbId u1 = (Inr space', v1)" "kv u1 = kv u0" "kv w' = kv v1" by (rule with_lock_Inr)
  from run obtain sid props indexes space2 servers counts u v u' where
    "make_partitionsA en (space\<lparr>sp_DBId := dbId, sp_Id := sid, sp_SpaceProperties := props, sp_Indexes := indexes\<rparr>) u = (Inr space2, v)"
    "drop_unless_enabled en (space2\<lparr>sp_Enabled := Some False\<rparr>) (deploy_space en servers counts (space2\<lparr>sp_Enabled := Some False\<rparr>)) u' = (Inr space', v1)"
    unfolding bd Let_def bindA_eq_Inr by (elim exE conjE) (rule that)
  then show thesis
    using that run(3) by (auto simp: drop_unless_enabled_def caseA_Inr bindA_eq_Inr)
qed

section \<open>What is written\<close>

lemma keeps_queries [keep_rules]:
  "keeps I (QueryDBName2ID ks cl name)" "keeps I (QueryServers ks vc)" "keeps I (QueryServer ks vc i)"
  "keeps I (QueryPartition ks pc pid)" "keeps I (QuerySpacesByKey sc p)" "keeps I (QuerySpaceByName ks sc d name)"
  "keeps I (QueryDB ks nt cl dc name)"
  unfolding QueryDBName2ID_def QueryServers_def QueryServer_def QueryPartition_def QuerySpacesByKey_def
    QuerySpaceByName_def QuerySpaces_def QueryDB_def db_number_def
  by (intro keep_rules)+

text \<open>The partition servers keep \<open>I\<close>.\<close>

definition servers_keep :: "(kvs \<Rightarrow> bool) \<Rightarrow> space_env \<Rightarrow> bool" where
  "servers_keep I en \<longleftrightarrow>
     (\<forall>a sp pid. keeps I (en_create en a sp pid) \<and> keeps I (en_update en a sp pid) \<and> keeps I (en_delete en a pid)) \<and>
     (\<forall>w. I (kv w) \<longrightarrow> I (kv (en_sleep en w)))"

lemma keeps_servers [keep_rules]:
  "servers_keep I en \<Longrightarrow> keeps I (en_create en a sp pid)"
  "servers_keep I en \<Longrightarrow> keeps I (en_update en a sp pid)"
  "servers_keep I en \<Longrightarrow> keeps I (en_delete en a pid)"
  by (simp_all add: servers_keep_def)

lemma keeps_createPartitionOnServers [keep_rules]:
  "servers_keep I en \<Longrightarrow> keeps I (createPartitionOnServers en space addrs pid)"
  by (induction addrs) (auto intro!: keep_rules)

lemma keeps_wait_partition [keep_rules]: "servers_keep I en \<Longrightarrow> keeps I (wait_partition en c n pid)"
proof (induction n)
  case (Suc n)
  then have "keeps I (\<lambda>w. wait_partition en c n pid (en_sleep en w))"
    by (simp add: keeps_act servers_keep_def)
  then show ?case by (auto intro!: keep_rules)
qed (auto intro!: keep_rules)

lemma keeps_wait_partitions [keep_rules]: "servers_keep I en \<Longrightarrow> keeps I (wait_partitions en c n pids)"
  by (induction pids arbitrary: n) (auto intro!: keep_rules)

lemma keeps_waitForPartitionsReady [keep_rules]:
  "servers_keep I en \<Longrightarrow> keeps I (waitForPartitionsReady en space placed)"
  unfolding waitForPartitionsReady_def create_all_def by (intro keep_rules)

lemma keeps_delete_replicas [keep_rules]: "servers_keep I en \<Longrightarrow> keeps I (delete_replicas en p)"
  unfolding delete_replicas_def by (intro keep_rules)

lemma keeps_UpdateSpaceData [keep_rules]:
  "unaffected I (SpaceKey (en_ks en) (sp_DBId space) (sp_Id space)) \<Longrightarrow> keeps I (UpdateSpaceData en space)"
  unfolding UpdateSpaceData_def Let_def by (intro keep_rules)

lemma keeps_filterAndSortServer [keep_rules]: "keeps I (filterAndSortServer ks nt cl dc sc space servers)"
  unfolding filterAndSortServer_def by (intro keep_rules)

lemma keeps_make_partitionsA [keep_rules]:
  "unaffected I (PartitionIdSequence (en_ks en)) \<Longrightarrow> keeps I (make_partitionsA en space)"
  unfolding make_partitionsA_def slot_loopA_def by (intro keep_rules)

lemma keeps_deploy_space [keep_rules]:
  assumes "servers_keep I en" and "unaffected I (SpaceKey (en_ks en) (sp_DBId space) (sp_Id space))"
    and "\<And>pid. unaffected I (PartitionKey (en_ks en) pid)"
  shows "keeps I (drop_unless_enabled en space (deploy_space en servers counts space))"
  unfolding deploy_space_def drop_unless_enabled_def undo_partition_def Let_def
  by (intro keep_rules assms) (simp_all add: assms)

lemma triple_result:
  assumes "keeps I a" and "\<And>w x w'. a w = (Inr x, w') \<Longrightarrow> R x"
  shows "triple I a (\<lambda>x m. I m \<and> R x) I"
  using assms by (fastforce simp: triple_def split: prod.splits sum.splits)

lemma make_partitionsA_ids:
  assumes "make_partitionsA en space w = (Inr space2, w')"
  shows "sp_Id space2 = sp_Id space \<and> sp_DBId space2 = sp_DBId space"
proof -
  have loop: "sp_Id sp' = sp_Id sp \<and> sp_DBId sp' = sp_DBId sp" if "slot_loopA en sp n nm u = (Inr sp', u')" for sp n nm u sp' u'
    using that by (auto simp: slot_loopA_def bindA_eq_Inr split: if_splits)
  have val: "sp_Id sp' = sp_Id sp \<and> sp_DBId sp' = sp_DBId sp" if "PartitionRule_Validate cl r sp b = Inr sp'" for cl r sp b sp'
    using that by (auto simp: PartitionRule_Validate_def ValidateRange_def Let_def res_simps split: if_splits option.splits)
  show ?thesis
  proof (cases "sp_PartitionRule space")
    case None
    then show ?thesis using assms loop by (simp add: make_partitionsA_def)
  next
    case (Some rule)
    then obtain sp' n nm where "PartitionRule_Validate (en_cl en) rule space True = Inr sp'" "slot_loopA en sp' n nm w = (Inr space2, w')"
      using assms by (auto simp: make_partitionsA_def bindA_eq_Inr split: option.splits)
    then show ?thesis using loop val by metis
  qed
qed

text \<open>The records of spaces that exist in \<open>M\<close> are as there.\<close>

definition spaces_kept :: "key_space \<Rightarrow> (int \<Rightarrow> int \<Rightarrow> string option) \<Rightarrow> kvs \<Rightarrow> bool" where
  "spaces_kept ks M m \<longleftrightarrow> (\<forall>d s. M d s \<noteq> None \<longrightarrow> map_of m (SpaceKey ks d s) = M d s)"

lemma unaffected_spaces_kept:
  "(\<And>d s. M d s \<noteq> None \<Longrightarrow> k \<noteq> SpaceKey ks d s) \<Longrightarrow> unaffected (spaces_kept ks M) k"
  by (auto simp: unaffected_def spaces_kept_def update_conv' delete_conv')

lemma space_key_kinds:
  "SpaceKey (cluster_keys c) d s \<noteq> PartitionKey (cluster_keys c) pid"
  "SpaceKey (cluster_keys c) d s \<noteq> PartitionIdSequence (cluster_keys c)"
  "SpaceKey (cluster_keys c) d s \<noteq> SpaceIdSequence (cluster_keys c)"
  "SpaceKey (cluster_keys c) d s \<noteq> SpaceConfigKey (cluster_keys c) d' s'"
  by (auto simp: key_defs cluster_keys_defs Let_def)

lemma triple_space_id:
  assumes "- (2 ^ 63) \<le> c" and "c < 2 ^ 63 - 1" and "unaffected I key"
  shows "triple (\<lambda>m. counter key 1 c m \<and> I m) (NewIDGenerate key 1) (\<lambda>i m. I m \<and> i = c + 1) I"
  unfolding triple_def
proof (intro allI impI)
  fix w :: world
  assume w: "counter key 1 c (kv w) \<and> I (kv w)"
  obtain r w' where r: "NewIDGenerate key 1 w = (r, w')" by force
  have "I (kv w')" using keepsD [OF keeps_NewIDGenerate [OF assms(3), of 1], of w] w r by simp
  then show "case NewIDGenerate key 1 w of (Inr i, w') \<Rightarrow> I (kv w') \<and> i = c + 1 | (Inl _, w') \<Rightarrow> I (kv w')"
    using NewIDGenerate_counter [OF _ assms(1,2) r] w r by (auto split: sum.splits)
qed

section \<open>Properties\<close>

text \<open>
  C2: a space that has been created is stored, enabled and routable. Whatever the network and the
  partition servers do, if \<^verbatim>\<open>CreateSpace\<close> reports success for a space without a partition rule, the
  store holds the returned space under its key; it is enabled, its version went up by one, it has the
  wanted number of partitions with the wanted number of replicas each, and every hash is routed, to
  partition \<open>h div (MaxUint32 div n)\<close> or the last one.
\<close>

theorem created_space_is_routed:
  assumes "CreateSpace en dbName space isRestore w = (Inr space', w')"
    and "sp_PartitionRule space = None" and "sp_Partitions space = []"
    and "sp_PartitionNum space = int n" and "0 < n" and "n \<le> 4294967295" and "sp_ReplicaNum space \<noteq> 0"
  shows "(\<exists>b. marshal (en_sc en) space' = Inr b \<and>
      map_of (kv w') (SpaceKey (en_ks en) (sp_DBId space') (sp_Id space')) = Some b) \<and>
    sp_Enabled space' = Some True \<and> sp_Name space' = sp_Name space \<and> sp_Version space' = sp_Version space + 1 \<and>
    length (sp_Partitions space') = n \<and> slots_ok (sp_Partitions space') \<and>
    (\<forall>p \<in> set (sp_Partitions space'). length (pt_Replicas p) = unat (sp_ReplicaNum space)) \<and>
    (\<forall>h. PartitionId space' h = Inr (pt_Id (sp_Partitions space' ! min (n - 1) (nat (uint h div (4294967295 div int n))))))"
proof -
  obtain dbId sid props indexes space2 servers counts u v u' v' where
    mk: "make_partitionsA en (space\<lparr>sp_DBId := dbId, sp_Id := sid, sp_SpaceProperties := props, sp_Indexes := indexes\<rparr>) u = (Inr space2, v)"
    and dep: "deploy_space en servers counts (space2\<lparr>sp_Enabled := Some False\<rparr>) u' = (Inr space', v')" and kv: "kv w' = kv v'"
    using assms(1) by (rule CreateSpace_Inr)
  define sp1 where "sp1 = space\<lparr>sp_DBId := dbId, sp_Id := sid, sp_SpaceProperties := props, sp_Indexes := indexes\<rparr>"
  have "slot_loopA en sp1 (int n) (\<lambda>i. Inr []) u = (Inr space2, v)"
    using mk assms(2,4) by (simp add: make_partitionsA_def sp1_def)
  then obtain ids nm where ids: "length ids = n"
      and sp2: "space2 = sp1\<lparr>sp_Partitions := sp_Partitions sp1 @ make_partitions (sp_Id sp1) (sp_DBId sp1) (4294967295 div int (length ids)) nm ids\<rparr>"
    using assms(5) by (elim slot_loopA_Inr) auto
  let ?ps = "make_partitions (sp_Id sp1) (sp_DBId sp1) (4294967295 div int (length ids)) nm ids"
  have ps: "sp_Partitions space2 = ?ps" using sp2 assms(3) by (simp add: sp1_def)
  have "0 < length ids" "length ids \<le> 4294967295" using ids assms(5,6) by simp_all
  note routes = slots_ok_make_partitions [OF this] owns_make_partitions [OF this]
  obtain placed t where ch: "choose_servers en servers counts (sp_ReplicaNum space2) ?ps = Inr placed"
      and up: "UpdateSpaceData en (space2\<lparr>sp_Partitions := map snd placed, sp_Enabled := Some True\<rparr>) t = (Inr space', v')"
    using dep by (rule deploy_space_Inr) (simp add: ps)
  obtain c' where "place_partitions (en_sort en) (en_cl en) (en_strategy en) (en_live en) servers counts (sp_ReplicaNum space2) ?ps = Inr (placed, c')"
    using ch by (auto simp: choose_servers_def res_simps)
  note shape = place_partitions_shape [OF this]
  note same = same_but_replicas_routes [OF shape(1)]
  have sp': "space' = saved_space (space2\<lparr>sp_Partitions := map snd placed, sp_Enabled := Some True\<rparr>)"
    using UpdateSpaceData_Inr(1) [OF up] .
  then have parts: "sp_Partitions space' = map snd placed" by (simp add: saved_space_def)
  have len: "length (map snd placed) = n" using same(1) ids by (simp add: make_partitions_def)
  have ok: "slots_ok (sp_Partitions space')" using same(2) routes(1) parts by simp
  have "PartitionId space' h = Inr (pt_Id (sp_Partitions space' ! min (n - 1) (nat (uint h div (4294967295 div int n)))))" for h
    using PartitionId_owner_eq [OF ok] same(3) routes(2) parts ids by simp
  moreover have "\<forall>p \<in> set (sp_Partitions space'). length (pt_Replicas p) = unat (sp_ReplicaNum space)"
    using shape(2) assms(7) parts sp2 by (simp add: sp1_def)
  moreover have "\<exists>b. marshal (en_sc en) space' = Inr b \<and>
      map_of (kv w') (SpaceKey (en_ks en) (sp_DBId space') (sp_Id space')) = Some b"
    using UpdateSpaceData_Inr(2) [OF up] sp' kv by (simp add: saved_space_def)
  ultimately show ?thesis
    using ok len parts sp' sp2 by (simp add: saved_space_def sp1_def)
qed

text \<open>A cluster with one server, for examples: it registers a partition as soon as it is created.\<close>

definition demo_env :: space_env where
  "demo_env =
     \<lparr> en_ks = default_key_space, en_nt = (\<lambda>_. False), en_cl = demo_cast,
       en_dc = \<lparr> marshal = (\<lambda>_. Inr ''d''), unmarshal = (\<lambda>b _. Inr b) \<rparr>,
       en_sc = \<lparr> marshal = (\<lambda>_. Inr ''s''), unmarshal = (\<lambda>b _. Inr b) \<rparr>,
       en_vc = \<lparr> marshal = (\<lambda>_. Inr ''v''), unmarshal = (\<lambda>b _. Inr (b\<lparr>sv_ID := 7\<rparr>)) \<rparr>,
       en_pc = \<lparr> marshal = (\<lambda>_. Inr ''p''), unmarshal = (\<lambda>b _. Inr b) \<rparr>,
       en_js = \<lparr> js_index = (\<lambda>_. Inl (GoErr [])), js_params = (\<lambda>_. Inl (GoErr [])), js_fields = (\<lambda>_ _. Inr []) \<rparr>,
       en_schema = (\<lambda>_. Inr ()), en_sort = (\<lambda>_. insertion_sort), en_strategy = 0, en_live = (\<lambda>_ _. True),
       en_create = (\<lambda>_ _ pid. Put (PartitionKey default_key_space pid) ''p''),
       en_delete = (\<lambda>_ _. ret ()), en_update = (\<lambda>_ _ _. ret ()), en_sleep = (\<lambda>w. w), en_polls = 3 \<rparr>"

definition demo_world :: world where
  "demo_world =
     \<lparr> kv = [(DBKeyName default_key_space ''db'', ''1''), (DBKeyBody default_key_space 1, ''d''),
             (ServerKey default_key_space 7, ''v'')], faults = [] \<rparr>"

definition demo_space :: Space where
  "demo_space = empty_space\<lparr>sp_Name := ''s'', sp_PartitionNum := 2, sp_ReplicaNum := 1,
     sp_Indexes := [Some \<lparr> ix_Name = ''i'', ix_Type = ''FLAT'', ix_FieldName = ''f'', ix_FieldNames = [], ix_Params = [] \<rparr>]\<rparr>"

lemma demo_created: "\<not> isl (fst (CreateSpace demo_env ''db'' demo_space True demo_world))"
  by code_simp

theorem created_space_is_routed_witness:
  "\<exists>space' w'. CreateSpace demo_env ''db'' demo_space True demo_world = (Inr space', w') \<and>
     sp_Enabled space' = Some True \<and> length (sp_Partitions space') = 2 \<and> slots_ok (sp_Partitions space')"
proof -
  obtain space' w' where run: "CreateSpace demo_env ''db'' demo_space True demo_world = (Inr space', w')"
    using demo_created by (cases "CreateSpace demo_env ''db'' demo_space True demo_world"; cases "fst (CreateSpace demo_env ''db'' demo_space True demo_world)") auto
  show ?thesis
    using created_space_is_routed [OF run, of 2] run by (simp add: demo_space_def empty_space_def)
qed

text \<open>
  C9: creating a space never touches the record of another one. Whatever calls fail, as long as the
  counter of the space ids is ahead of all stored spaces and the partition servers leave the records
  of spaces alone, every record that was there before \<^verbatim>\<open>CreateSpace\<close> is there unchanged after it.
\<close>

theorem CreateSpace_keeps_other_spaces:
  assumes "en_ks en = cluster_keys c" and "counter (SpaceIdSequence (cluster_keys c)) 1 n (kv w)"
    and "- (2 ^ 63) \<le> n" and "n < 2 ^ 63 - 1"
    and "\<forall>d. map_of (kv w) (SpaceKey (cluster_keys c) d (n + 1)) = None"
    and "\<forall>M. servers_keep (spaces_kept (cluster_keys c) M) en"
    and "map_of (kv w) (SpaceKey (cluster_keys c) d s) = Some v"
  shows "map_of (kv (snd (CreateSpace en dbName space isRestore w))) (SpaceKey (cluster_keys c) d s) = Some v"
proof -
  define M where "M = (\<lambda>d s. map_of (kv w) (SpaceKey (cluster_keys c) d s))"
  let ?I = "spaces_kept (en_ks en) M" and ?C = "counter (SpaceIdSequence (en_ks en)) 1 n"
  have rpc: "servers_keep ?I en" using assms(1,6) by simp
  have free: "unaffected ?I k" if "\<And>d s. M d s \<noteq> None \<Longrightarrow> k \<noteq> SpaceKey (en_ks en) d s" for k
    using that by (rule unaffected_spaces_kept)
  have own: "unaffected ?I (SpaceKey (en_ks en) d' (n + 1))" for d'
    using assms(1,5) by (intro free) (auto simp: M_def)
  have keys: "unaffected ?I (PartitionKey (en_ks en) pid)" "unaffected ?I (PartitionIdSequence (en_ks en))"
      "unaffected ?I (SpaceIdSequence (en_ks en))" for pid
    by (rule free; metis space_key_kinds assms(1))+
  have reads: "triple (\<lambda>m. ?C m \<and> ?I m) a (\<lambda>_ m. ?C m \<and> ?I m) ?I" if "\<And>J. keeps J a" for a :: "(world, 'x) act"
    using that [of "\<lambda>m. ?C m \<and> ?I m"] by (rule triple_weaken) simp_all
  have tail: "triple (\<lambda>m. ?I m \<and> sp_Id sp2 = n + 1 \<and> sp_DBId sp2 = d')
      (bindA (filterAndSortServer (en_ks en) (en_nt en) (en_cl en) (en_dc en) (en_sc en) sp2 servers) (\<lambda>counts.
       bindA (lift (guard (unat (sp_ReplicaNum sp2) > length counts) (GoErr ''not enough partition servers''))) (\<lambda>_.
       let space3 = sp2\<lparr>sp_Enabled := Some False\<rparr> in
       drop_unless_enabled en space3 (deploy_space en servers counts space3)))) (\<lambda>_. ?I) ?I" for sp2 d' servers
    unfolding Let_def by (intro triple_pure keep_rules rpc keys) (use own in simp)
  have "triple (\<lambda>m. ?C m \<and> ?I m) (CreateSpace en dbName space isRestore) (\<lambda>_. ?I) ?I"
    unfolding CreateSpace_def Let_def
    apply (rule triple_bindA [OF reads], intro keep_rules)
    apply (rule triple_bindA [OF reads], intro keep_rules)
    apply (rule triple_with_lock)
     apply (rule triple_bindA [OF reads], unfold check_fresh_name_def Let_def, intro keep_rules)
     apply (rule triple_bindA [OF reads], intro keep_rules)
     apply (rule triple_bindA)
      apply (rule triple_space_id [OF assms(3,4) keys(3)])
     apply (rule triple_pure)
     apply (rule triple_bindA [OF keeps_pure(3)])+
     apply (rule triple_bindA [OF triple_result [OF keeps_make_partitionsA [OF keys(2)] make_partitionsA_ids]], assumption)
     apply (rule triple_weaken [OF tail [unfolded Let_def]])
    by simp_all
  from tripleD [OF this, of w] assms(1,2,7) show ?thesis
    by (cases "CreateSpace en dbName space isRestore w") (auto simp: spaces_kept_def M_def split: sum.splits)
qed

theorem CreateSpace_keeps_other_spaces_witness:
  "map_of (kv (snd (CreateSpace (demo_env\<lparr>en_ks := cluster_keys ''c'', en_create := \<lambda>_ _ _. ret ()\<rparr>) ''db'' demo_space True
      \<lparr> kv = [(SpaceKey (cluster_keys ''c'') 1 5, ''x''), (SpaceIdSequence (cluster_keys ''c''), FormatInt 7)], faults = [Lost (GoErr ''down'')] \<rparr>)))
     (SpaceKey (cluster_keys ''c'') 1 5) = Some ''x''"
  by (rule CreateSpace_keeps_other_spaces [where n = 7])
    (auto simp: demo_env_def counter_def servers_keep_def space_key_kinds space_key_kinds [symmetric] keeps_pure)

section \<open>Deleting without faults\<close>

definition quiet :: "(world, unit) act \<Rightarrow> bool" where
  "quiet a \<longleftrightarrow> (\<forall>w. calm w \<longrightarrow> (\<exists>w'. a w = (Inr (), w') \<and> calm w' \<and> kv w' = kv w))"

lemma quiet_eachA: "(\<And>x. quiet (f x)) \<Longrightarrow> quiet (eachA f xs)"
proof (induction xs)
  case (Cons x xs)
  then have "quiet (f x)" "quiet (eachA f xs)" by simp_all
  then show ?case unfolding quiet_def by (metis bindA_Inr eachA.simps(2))
qed (simp add: quiet_def)

lemma quiet_delete_replicas:
  assumes "\<And>a pid w. calm w \<Longrightarrow> calm (snd (en_delete en a pid w)) \<and> kv (snd (en_delete en a pid w)) = kv w"
  shows "quiet (delete_replicas en p)"
  unfolding delete_replicas_def
proof (rule quiet_eachA)
  fix i
  have "calm (snd (bindA (QueryServer (en_ks en) (en_vc en) i) (\<lambda>sv. en_delete en (RpcAddr (en_cl en) sv) (pt_Id p)) w)) \<and>
      kv (snd (bindA (QueryServer (en_ks en) (en_vc en) i) (\<lambda>sv. en_delete en (RpcAddr (en_cl en) sv) (pt_Id p)) w)) = kv w"
    if "calm w" for w
    using that assms by (auto simp: QueryServer_def bindA_def calm_simps split: option.splits sum.splits prod.splits)
  then show "quiet (ignoring (bindA (QueryServer (en_ks en) (en_vc en) i) (\<lambda>sv. en_delete en (RpcAddr (en_cl en) sv) (pt_Id p))))"
    by (simp add: quiet_def ignoring_def)
qed

lemma delete_partitions_calm:
  assumes "\<And>a pid w. calm w \<Longrightarrow> calm (snd (en_delete en a pid w)) \<and> kv (snd (en_delete en a pid w)) = kv w"
    and "calm w" and "distinct (map pt_Id ps)" and "\<forall>p \<in> set ps. map_of (kv w) (PartitionKey (en_ks en) (pt_Id p)) \<noteq> None"
  shows "\<exists>w'. eachA (\<lambda>p. bindA (delete_replicas en p) (\<lambda>_. Delete (PartitionKey (en_ks en) (pt_Id p)))) ps w = (Inr (), w') \<and>
    calm w' \<and> (\<forall>k. map_of (kv w') k = (if k \<in> (\<lambda>p. PartitionKey (en_ks en) (pt_Id p)) ` set ps then None else map_of (kv w) k))"
  using assms(2-4)
proof (induction ps arbitrary: w)
  case (Cons p ps)
  let ?k = "PartitionKey (en_ks en) (pt_Id p)"
  obtain w1 where w1: "delete_replicas en p w = (Inr (), w1)" "calm w1" "kv w1 = kv w"
    using quiet_delete_replicas [OF assms(1), where p = p] Cons.prems(1) unfolding quiet_def by blast
  obtain w2 where w2: "Delete ?k w1 = (Inr (), w2)" "calm w2" "kv w2 = AList.delete ?k (kv w)"
    using calm_Delete [OF w1(2), of ?k] w1(2,3) Cons.prems(3) by auto
  have m2: "map_of (kv w2) k = (if k = ?k then None else map_of (kv w) k)" for k by (simp add: w2(3) delete_conv')
  have "\<forall>q \<in> set ps. map_of (kv w2) (PartitionKey (en_ks en) (pt_Id q)) \<noteq> None"
    using Cons.prems(2,3) m2 by (auto dest: sym)
  from Cons.IH [OF w2(2) _ this] Cons.prems(2) obtain w' where
    "eachA (\<lambda>p. bindA (delete_replicas en p) (\<lambda>_. Delete (PartitionKey (en_ks en) (pt_Id p)))) ps w2 = (Inr (), w')" "calm w'"
    "\<forall>k. map_of (kv w') k = (if k \<in> (\<lambda>p. PartitionKey (en_ks en) (pt_Id p)) ` set ps then None else map_of (kv w2) k)"
    by auto
  then show ?case using w1(1) w2(1) m2 by auto
qed simp

text \<open>
  C17: deleting a space removes its record and everything filed with it. Without faults and with the
  partition keys in place, \<^verbatim>\<open>DeleteSpace\<close> removes exactly the keys of the space, of its partitions and of
  its configuration. It reports success exactly if there was a configuration to remove: otherwise the
  space is gone although the caller gets an error.
\<close>

theorem DeleteSpace_removes:
  assumes "calm w" and "en_ks en = cluster_keys c"
    and "fst (QueryDBName2ID (en_ks en) (en_cl en) dbName w) = Inr d"
    and "fst (QuerySpaceByName (en_ks en) (en_sc en) d spaceName (tick w)) = Inr space"
    and "map_of (kv w) (SpaceKey (en_ks en) d (sp_Id space)) \<noteq> None"
    and "distinct (map pt_Id (sp_Partitions space))"
    and "\<forall>p \<in> set (sp_Partitions space). map_of (kv w) (PartitionKey (en_ks en) (pt_Id p)) \<noteq> None"
    and "\<forall>a pid w. calm w \<longrightarrow> calm (snd (en_delete en a pid w)) \<and> kv (snd (en_delete en a pid w)) = kv w"
  shows "\<exists>r w'. DeleteSpace en dbName spaceName w = (r, w') \<and>
    (r = Inr () \<longleftrightarrow> map_of (kv w) (SpaceConfigKey (en_ks en) d (sp_Id space)) \<noteq> None) \<and>
    (\<forall>k. map_of (kv w') k =
       (if k \<in> {SpaceKey (en_ks en) d (sp_Id space), SpaceConfigKey (en_ks en) d (sp_Id space)} \<union>
              (\<lambda>p. PartitionKey (en_ks en) (pt_Id p)) ` set (sp_Partitions space) then None else map_of (kv w) k))"
proof -
  let ?sk = "SpaceKey (en_ks en) d (sp_Id space)" and ?ck = "SpaceConfigKey (en_ks en) d (sp_Id space)"
  let ?ps = "sp_Partitions space"
  have kinds: "?sk \<noteq> PartitionKey (en_ks en) pid" "?sk \<noteq> ?ck" "?ck \<noteq> PartitionKey (en_ks en) pid" for pid
    by (auto simp: assms(2) key_defs cluster_keys_defs Let_def)
  have q1: "QueryDBName2ID (en_ks en) (en_cl en) dbName w = (Inr d, tick w)"
    using assms(1,3) by (auto simp: QueryDBName2ID_def bindA_def calm_simps split: option.splits)
  have q2: "QuerySpaceByName (en_ks en) (en_sc en) d spaceName (tick w) = (Inr space, tick (tick w))"
    using assms(1,4)
    by (auto simp: QuerySpaceByName_def QuerySpaces_def QuerySpacesByKey_def bindA_def calm_simps split: option.splits)
  let ?w = "tick (tick (tick w))"
  have cw: "calm ?w" "kv ?w = kv w" using assms(1) by simp_all
  define w1 where "w1 = (tick ?w)\<lparr>kv := AList.delete ?sk (kv w)\<rparr>"
  have w1: "Delete ?sk ?w = (Inr (), w1)" "calm w1" using calm_Delete [OF cw(1), of ?sk] cw assms(5) by (simp_all add: w1_def)
  have m1: "map_of (kv w1) k = (if k = ?sk then None else map_of (kv w) k)" for k by (simp add: w1_def delete_conv')
  have "\<forall>p \<in> set ?ps. map_of (kv w1) (PartitionKey (en_ks en) (pt_Id p)) \<noteq> None" using assms(7) m1 kinds(1) by metis
  from delete_partitions_calm [OF _ w1(2) assms(6) this] assms(8) obtain w2 where w2:
    "eachA (\<lambda>p. bindA (delete_replicas en p) (\<lambda>_. Delete (PartitionKey (en_ks en) (pt_Id p)))) ?ps w1 = (Inr (), w2)" "calm w2"
    "\<forall>k. map_of (kv w2) k = (if k \<in> (\<lambda>p. PartitionKey (en_ks en) (pt_Id p)) ` set ?ps then None else map_of (kv w1) k)"
    by blast
  have ck: "map_of (kv w2) ?ck = map_of (kv w) ?ck" using w2(3) m1 kinds by auto
  let ?r = "if map_of (kv w) ?ck = None then Inl (GoErr ''key not exist error'') else Inr ()"
  let ?w3 = "(tick w2)\<lparr>kv := AList.delete ?ck (kv w2)\<rparr>"
  let ?body = "bindA (Delete ?sk) (\<lambda>_. bindA (eachA (\<lambda>p. bindA (delete_replicas en p) (\<lambda>_. Delete (PartitionKey (en_ks en) (pt_Id p)))) ?ps)
      (\<lambda>_. Delete ?ck))"
  have "?body ?w = (?r, ?w3)"
    using w1(1) w2(1,2) ck by (simp add: calm_Delete)
  from calm_with_lock [where w = "tick (tick w)" and body = ?body, OF _ this] have "DeleteSpace en dbName spaceName w = (?r, tick ?w3)"
    using q1 q2 assms(1) w2(2) by (simp add: DeleteSpace_def)
  moreover have "map_of (kv (tick ?w3)) k = (if k \<in> {?sk, ?ck} \<union> (\<lambda>p. PartitionKey (en_ks en) (pt_Id p)) ` set ?ps then None else map_of (kv w) k)" for k
    using w2(3) m1 by (simp add: delete_conv')
  ultimately show ?thesis by (intro exI [of _ ?r] exI [of _ "tick ?w3"]) simp
qed

theorem DeleteSpace_removes_witness:
  "\<exists>r w'. DeleteSpace (demo_env\<lparr>en_ks := cluster_keys ''c'', en_sc := demo_space_codec\<rparr>) ''db'' ''s''
      \<lparr> kv = [(DBKeyName (cluster_keys ''c'') ''db'', ''1''), (SpaceKey (cluster_keys ''c'') 1 0, ''ns'')], faults = [] \<rparr> = (r, w') \<and>
     r \<noteq> Inr () \<and> map_of (kv w') (SpaceKey (cluster_keys ''c'') 1 0) = None"
proof -
  define ks where "ks = cluster_keys ''c''"
  define en where "en = demo_env\<lparr>en_ks := ks, en_sc := demo_space_codec\<rparr>"
  define w where "w = \<lparr> kv = [(DBKeyName ks ''db'', ''1''), (SpaceKey ks 1 0, ''ns'')], faults = [] \<rparr>"
  have en: "en_ks en = ks" "en_cl en = demo_cast" "en_sc en = demo_space_codec" "en_delete en = (\<lambda>_ _. ret ())"
    by (simp_all add: en_def demo_env_def)
  have keys: "HasPrefix (SpaceKey ks 1 0) (PrefixSpace ks @ FormatInt 1 @ ''/'')" "SpaceKey ks 1 0 \<noteq> SpaceConfigKey ks 1 0"
    "\<not> HasPrefix (DBKeyName ks ''db'') (PrefixSpace ks @ FormatInt 1 @ ''/'')" "DBKeyName ks ''db'' \<noteq> SpaceConfigKey ks 1 0"
    "ToInt64E demo_cast ''1'' = Inr 1"
    unfolding ks_def by code_simp+
  let ?sp = "empty_space\<lparr>sp_Name := ''s''\<rparr>"
  have w: "calm w" by (simp add: w_def calm_def)
  have q: "fst (QueryDBName2ID (en_ks en) (en_cl en) ''db'' w) = Inr 1"
    "fst (QuerySpaceByName (en_ks en) (en_sc en) 1 ''s'' (tick w)) = Inr ?sp"
    using w keys by (simp_all add: en QueryDBName2ID_def QuerySpaceByName_def QuerySpaces_def QuerySpacesByKey_def calm_simps
        w_def scan_decode_def demo_space_codec_def)
  have hyps: "map_of (kv w) (SpaceKey (en_ks en) 1 (sp_Id ?sp)) \<noteq> None" "distinct (map pt_Id (sp_Partitions ?sp))"
    "\<forall>p \<in> set (sp_Partitions ?sp). map_of (kv w) (PartitionKey (en_ks en) (pt_Id p)) \<noteq> None"
    "\<forall>a pid w. calm w \<longrightarrow> calm (snd (en_delete en a pid w)) \<and> kv (snd (en_delete en a pid w)) = kv w"
    by (simp_all add: en w_def empty_space_def)
  obtain r w' where run: "DeleteSpace en ''db'' ''s'' w = (r, w')"
    "r = Inr () \<longleftrightarrow> map_of (kv w) (SpaceConfigKey (en_ks en) 1 (sp_Id ?sp)) \<noteq> None"
    "\<forall>k. map_of (kv w') k =
       (if k \<in> {SpaceKey (en_ks en) 1 (sp_Id ?sp), SpaceConfigKey (en_ks en) 1 (sp_Id ?sp)} \<union>
              (\<lambda>p. PartitionKey (en_ks en) (pt_Id p)) ` set (sp_Partitions ?sp) then None else map_of (kv w) k)"
    using DeleteSpace_removes [OF w _ q hyps, of "''c''"] unfolding en(1) ks_def by blast
  then have "r \<noteq> Inr ()" "map_of (kv w') (SpaceKey ks 1 0) = None"
    using keys by (simp_all add: en w_def empty_space_def)
  then show ?thesis using run(1) by (auto simp: en_def w_def ks_def)
qed

end
