(* ===== verification/SpaceUpdate.thy ===== *)
theory SpaceUpdate
  imports Complex_Main SpaceService
begin

text \<open>
  Changing a space: \<^verbatim>\<open>UpdateSpace\<close> of \<^verbatim>\<open>internal/master/services/space_service.go\<close> with the updates of
  name, state and fields, the expansion of partitions and the addition and removal of ranges, and
  \<^verbatim>\<open>MergeSchemaArray\<close> of \<^verbatim>\<open>internal/ps/engine/mapping/parse.go\<close>.

  A request is a \<open>Space\<close>; since its list of partitions may be absent, which is not the same as empty,
  the list is a separate argument. The JSON text of the fields is read in two ways: as typed fields
  (\<open>en_js\<close>), and by \<^verbatim>\<open>MergeSchemaArray\<close> as an array of objects (\<open>schema_arrays\<close>).

  The lemmas say what a successful update has stored, how an expanded space routes, which changes of
  the fields are accepted and what they do to the indexes, and that an update leaves other spaces alone.
\<close>

section \<open>Merging schemas\<close>

datatype json = JNull | JBool bool | JNum rat | JStr string | JArr "json list" | JObj "(string \<times> json) list"

type_synonym json_object = "(string, json) gomap"

record schema_arrays =
  sa_decode :: "string \<Rightarrow> (json_object list) res"
  sa_encode :: "json_object list \<Rightarrow> string res"

text \<open>Comparing two values of type \<^verbatim>\<open>any\<close> panics for arrays and for objects; a missing entry is nil.\<close>

fun any_eq :: "json \<Rightarrow> json \<Rightarrow> bool res" where
  "any_eq (JArr _) (JArr _) = Inl (GoPanic ''comparing uncomparable type'')"
| "any_eq (JObj _) (JObj _) = Inl (GoPanic ''comparing uncomparable type'')"
| "any_eq x y = Inr (x = y)"

definition any_entry :: "json_object \<Rightarrow> string \<Rightarrow> json" where
  "any_entry f k = (case map_of f k of None \<Rightarrow> JNull | Some v \<Rightarrow> v)"

fun entries_equal :: "json_object \<Rightarrow> json_object \<Rightarrow> string list \<Rightarrow> bool res" where
  "entries_equal f1 f2 [] = Inr True"
| "entries_equal f1 f2 (k # ks) =
     bind_res (any_eq (any_entry f1 k) (any_entry f2 k)) (\<lambda>eq. if eq then entries_equal f1 f2 ks else Inr False)"

definition areFieldsEqual :: "json_object \<Rightarrow> json_object \<Rightarrow> bool res" where
  "areFieldsEqual f1 f2 = entries_equal f1 f2 [''name'', ''type'', ''dimension'', ''store_type'', ''format'']"

fun by_name :: "json_object list \<Rightarrow> (string, json_object) gomap \<Rightarrow> (string, json_object) gomap" where
  "by_name [] m = m"
| "by_name (f # fs) m = by_name fs (case any_entry f ''name'' of JStr n \<Rightarrow> AList.update n f m | _ \<Rightarrow> m)"

fun merge_old :: "(string, json_object) gomap \<Rightarrow> (string, json_object) gomap \<Rightarrow> ((string, json_object) gomap) res" where
  "merge_old [] newFieldMap = Inr newFieldMap"
| "merge_old ((fieldName, oldField) # olds) newFieldMap =
     (case map_of newFieldMap fieldName of
        Some newField \<Rightarrow> bind_res (areFieldsEqual oldField newField) (\<lambda>eq.
          if eq then merge_old olds newFieldMap else Inl (param_err ''field conflict''))
      | None \<Rightarrow> merge_old olds (AList.update fieldName oldField newFieldMap))"

definition reworded :: "string \<Rightarrow> 'a res \<Rightarrow> 'a res" where
  "reworded m r = (case r of Inl _ \<Rightarrow> Inl (GoErr m) | Inr x \<Rightarrow> Inr x)"

definition MergeSchemaArray :: "schema_arrays \<Rightarrow> string \<Rightarrow> string \<Rightarrow> string res" where
  "MergeSchemaArray sa old new =
     bind_res (reworded ''failed to parse new schema as array'' (sa_decode sa new)) (\<lambda>newSchemaArray.
     bind_res (reworded ''failed to parse old schema as array'' (sa_decode sa old)) (\<lambda>oldSchemaArray.
     bind_res (merge_old (by_name oldSchemaArray []) (by_name newSchemaArray [])) (\<lambda>merged.
     sa_encode sa (map snd merged))))"

section \<open>Updates of the fields\<close>

definition indexed :: "SpaceProperties \<Rightarrow> bool" where
  "indexed p \<longleftrightarrow> fp_Option p \<noteq> FO_Null"

definition detectIndexChangesWithProperties ::
  "schema_json \<Rightarrow> Space \<Rightarrow> (string, SpaceProperties) gomap \<Rightarrow> (string list) res" where
  "detectIndexChangesWithProperties js space newProps =
     bind_res (UnmarshalPropertyJSON js (sp_Fields space)) (\<lambda>oldProps. Inr (
       concat (map (\<lambda>(fieldName, oldProperty). case map_of newProps fieldName of
           None \<Rightarrow> []
         | Some newProperty \<Rightarrow>
             if indexed oldProperty \<noteq> indexed newProperty
             then [''field:['' @ fieldName @ (if indexed newProperty then ''] index enabled'' else ''] index disabled'')]
             else []) oldProps) @
       concat (map (\<lambda>(fieldName, newProperty).
           if map_of oldProps fieldName = None \<and> indexed newProperty
           then [''new indexed field:['' @ fieldName @ ''] added''] else []) newProps)))"

definition arePropertiesEqual :: "SpaceProperties \<Rightarrow> SpaceProperties \<Rightarrow> bool" where
  "arePropertiesEqual oldProperty newProperty \<longleftrightarrow>
     fp_FieldType oldProperty = fp_FieldType newProperty \<and> fp_Type oldProperty = fp_Type newProperty \<and>
     fp_Dimension oldProperty = fp_Dimension newProperty \<and>
     fp_Format oldProperty = fp_Format newProperty \<and> fp_StoreType oldProperty = fp_StoreType newProperty"

definition isOnlyIndexOptionChangeWithProperties :: "SpaceProperties \<Rightarrow> SpaceProperties \<Rightarrow> bool" where
  "isOnlyIndexOptionChangeWithProperties oldProperty newProperty \<longleftrightarrow>
     arePropertiesEqual oldProperty newProperty \<and> indexed oldProperty \<noteq> indexed newProperty"

definition check_compatible ::
  "(string, SpaceProperties) gomap \<Rightarrow> string \<times> SpaceProperties \<Rightarrow> unit res" where
  "check_compatible newProps = (\<lambda>(fieldName, oldProperty). case map_of newProps fieldName of
       None \<Rightarrow> Inr ()
     | Some newProperty \<Rightarrow>
         guard (\<not> isOnlyIndexOptionChangeWithProperties oldProperty newProperty \<and>
                \<not> arePropertiesEqual oldProperty newProperty)
           (param_err ''field can only change index option, other properties cannot be modified''))"

definition updateSpaceFields :: "schema_json \<Rightarrow> schema_arrays \<Rightarrow> Space \<Rightarrow> string \<Rightarrow> Space res" where
  "updateSpaceFields js sa space newFields =
     bind_res (UnmarshalPropertyJSON js (sp_Fields space)) (\<lambda>oldProps.
     bind_res (UnmarshalPropertyJSON js newFields) (\<lambda>newProps.
     bind_res (each_res (check_compatible newProps) oldProps) (\<lambda>_.
     let newFieldCount = length (filter (\<lambda>(n, _). map_of oldProps n = None) newProps) in
     if newFieldCount > 0 then
       bind_res (MergeSchemaArray sa (sp_Fields space) newFields) (\<lambda>schema.
       bind_res (UnmarshalPropertyJSON js schema) (\<lambda>updated.
       bind_res (MergeFieldIndexes updated []) (\<lambda>indexes.
         Inr (space\<lparr>sp_Fields := schema, sp_Indexes := indexes, sp_SpaceProperties := updated\<rparr>))))
     else Inr space)))"

section \<open>Updates of the configuration\<close>

definition updateSinglePartition :: "space_env \<Rightarrow> Space \<Rightarrow> Partition \<Rightarrow> (world, unit) act" where
  "updateSinglePartition en space p =
     bindA (QueryPartition (en_ks en) (en_pc en) (pt_Id p)) (\<lambda>info.
     bindA (QueryServer (en_ks en) (en_vc en) (pt_LeaderID info)) (\<lambda>server.
     bindA (lift (guard (\<not> en_live en 0 (RpcAddr (en_cl en) server))
              (NewError PARTITION_IS_CLOSED (Some (GoErr ''partition is shutdown''))))) (\<lambda>_.
     en_update en (RpcAddr (en_cl en) server) space (pt_Id p))))"

definition notifyPartitionsConfigUpdate :: "space_env \<Rightarrow> Space \<Rightarrow> (world, unit) act" where
  "notifyPartitionsConfigUpdate en space = parallelA (updateSinglePartition en space) (sp_Partitions space)"

definition immutable_changes :: "Space \<Rightarrow> Space \<Rightarrow> string" where
  "immutable_changes space temp =
     (if sp_DBId temp \<noteq> 0 \<and> sp_DBId temp \<noteq> sp_DBId space then ''db_id not same '' else []) @
     (if sp_PartitionNum temp \<noteq> 0 \<and> sp_PartitionNum temp \<noteq> sp_PartitionNum space
      then ''partition_num can not change '' else []) @
     (if sp_ReplicaNum temp \<noteq> 0 \<and> sp_ReplicaNum temp \<noteq> sp_ReplicaNum space
      then ''replica_num can not change '' else [])"

definition handleConfigurationUpdate ::
  "space_env \<Rightarrow> schema_arrays \<Rightarrow> Space \<Rightarrow> Space \<Rightarrow> Partition list option \<Rightarrow> (world, Space) act" where
  "handleConfigurationUpdate en sa space temp tempPartitions =
     bindA (lift (guard (immutable_changes space temp \<noteq> []) (param_err (immutable_changes space temp)))) (\<lambda>_.
     let space1 = space\<lparr>sp_Name := (if sp_Name temp \<noteq> [] then sp_Name temp else sp_Name space),
                   sp_Enabled := (if sp_Enabled temp \<noteq> None then sp_Enabled temp else sp_Enabled space)\<rparr> in
     bindA (lift (Space_Validate (en_nt en) space1)) (\<lambda>_.
     let space2 = space1\<lparr>sp_Version := sp_Version space1 + 1,
                    sp_Partitions := (case tempPartitions of None \<Rightarrow> sp_Partitions space1 | Some ps \<Rightarrow> ps)\<rparr> in
     bindA (lift (UnmarshalPropertyJSON (en_js en) (sp_Fields temp))) (\<lambda>props.
     bindA (lift (if length (sp_Fields temp) > 0 then
         bind_res (detectIndexChangesWithProperties (en_js en) space2 props) (\<lambda>changes.
         bind_res (guard (length changes > 0) (param_err ''index changes are not supported via space update'')) (\<lambda>_.
         updateSpaceFields (en_js en) sa space2 (sp_Fields temp)))
       else Inr space2)) (\<lambda>space3.
     bindA (notifyPartitionsConfigUpdate en space3) (\<lambda>_.
     UpdateSpaceData en (space3\<lparr>sp_Version := sp_Version space3 - 1\<rparr>))))))"

section \<open>More partitions\<close>

text \<open>The loop that sets the slots of the first \<open>n\<close> partitions.\<close>

definition assign_slots :: "nat \<Rightarrow> (nat \<Rightarrow> 32 word) \<Rightarrow> Partition list \<Rightarrow> (Partition list) res" where
  "assign_slots n slot ps =
     (if n \<le> length ps
      then Inr (map (\<lambda>(i, p). p\<lparr>pt_Slot := slot i\<rparr>) (enumerate 0 (take n ps)) @ drop n ps)
      else Inl (GoPanic ''index out of range''))"

definition new_partitions :: "space_env \<Rightarrow> Space \<Rightarrow> string \<Rightarrow> int \<Rightarrow> (world, Partition list) act" where
  "new_partitions en space name n =
     mapA (\<lambda>_. bindA (NewIDGenerate (PartitionIdSequence (en_ks en)) 1) (\<lambda>pid.
       ret (new_partition (word_of_int pid) name (sp_Id space) (sp_DBId space) 0))) [0..<nat n]"

definition pick_servers ::
  "space_env \<Rightarrow> Space \<Rightarrow> (world, Server list \<times> (int, int) gomap) act" where
  "pick_servers en space =
     bindA (QueryServers (en_ks en) (en_vc en)) (\<lambda>servers.
     bindA (filterAndSortServer (en_ks en) (en_nt en) (en_cl en) (en_dc en) (en_sc en) space servers) (\<lambda>counts.
     bindA (lift (guard (unat (sp_ReplicaNum space) > length counts) (GoErr ''not enough PS''))) (\<lambda>_.
     ret (servers, counts))))"

definition expandPartitions :: "space_env \<Rightarrow> Space \<Rightarrow> 32 word \<Rightarrow> (world, Space) act" where
  "expandPartitions en space newPartitionCount =
     (let more = int64 (uint newPartitionCount - sp_PartitionNum space) in
      bindA (lift (guard (more < 0 \<or> more > 2 ^ 45) (GoPanic ''makeslice: cap out of range''))) (\<lambda>_.
      bindA (new_partitions en space [] more) (\<lambda>newPartitions.
      bindA (pick_servers en space) (\<lambda>(servers, counts).
      bindA (lift (choose_servers en servers counts (sp_ReplicaNum space) newPartitions)) (\<lambda>placed.
      let space1 = space\<lparr>sp_PartitionNum := uint newPartitionCount,
                     sp_Partitions := sp_Partitions space @ map snd placed\<rparr> in
      bindA (waitForPartitionsReady en space1 placed) (\<lambda>_.
      bindA (lift (bind_res (guard (newPartitionCount = 0) (GoPanic ''integer divide by zero'')) (\<lambda>_.
               assign_slots (unat newPartitionCount)
                 (\<lambda>i. of_nat i * (4294967295 div newPartitionCount)) (sp_Partitions space1)))) (\<lambda>ps.
      UpdateSpaceData en (space1\<lparr>sp_Partitions := ps\<rparr>))))))))"

section \<open>Ranges\<close>

definition drop_range :: "space_env \<Rightarrow> Space \<Rightarrow> PartitionRule \<Rightarrow> string option \<Rightarrow> (world, Space) act" where
  "drop_range en space rule partitionName =
     (case partitionName of
        None \<Rightarrow> fail (param_err ''partition name is empty'')
      | Some name \<Rightarrow>
          bindA (lift (guard (name = []) (param_err ''partition name is empty''))) (\<lambda>_.
          bindA (lift (guard (name \<notin> rg_Name ` set (pr_Ranges rule)) (param_err ''partition name not exist''))) (\<lambda>_.
          bindA (eachA (\<lambda>p. if pt_Name p \<noteq> name then ret ()
              else bindA (delete_replicas en p) (\<lambda>_. Delete (PartitionKey (en_ks en) (pt_Id p)))) (sp_Partitions space)) (\<lambda>_.
          ret (space\<lparr>sp_Partitions := filter (\<lambda>p. pt_Name p \<noteq> name) (sp_Partitions space),
                 sp_PartitionRule := Some (rule\<lparr>pr_Ranges := filter (\<lambda>r. rg_Name r \<noteq> name) (pr_Ranges rule)\<rparr>)\<rparr>)))))"

text \<open>
  Unlike \<^verbatim>\<open>createPartitionOnServers\<close>, the goroutine of \<^verbatim>\<open>updateSpacePartitonRule\<close> goes on after an error. The
  model reports every error; the code does not read one that arrives when all partitions have appeared.
\<close>

definition create_everywhere :: "space_env \<Rightarrow> Space \<Rightarrow> (string list \<times> Partition) list \<Rightarrow> (world, unit) act" where
  "create_everywhere en space = parallelA (\<lambda>(addrs, p).
     parallelA (\<lambda>a. caseA (en_create en a space (pt_Id p)) (\<lambda>e. fail (create_err e)) ret) addrs)"

definition add_ranges :: "space_env \<Rightarrow> Space \<Rightarrow> PartitionRule \<Rightarrow> PartitionRule option \<Rightarrow> (world, Space) act" where
  "add_ranges en space rule partitionRule =
     (case partitionRule of
        None \<Rightarrow> fail (param_err ''partition rule is empty'')
      | Some added \<Rightarrow>
          bindA (lift (RangeIsSame rule (pr_Ranges added))) (\<lambda>_.
          bindA (pick_servers en space) (\<lambda>(servers, counts).
          bindA (mapA (\<lambda>r. bindA (lift (guard (rg_Name r = []) (param_err ''partition name is empty''))) (\<lambda>_.
              new_partitions en space (rg_Name r) (sp_PartitionNum space))) (pr_Ranges added)) (\<lambda>parts.
          bindA (lift (AddRanges (en_cl en) (pr_Ranges rule) (pr_Ranges added))) (\<lambda>ranges.
          bindA (lift (choose_servers en servers counts (sp_ReplicaNum space) (concat parts))) (\<lambda>placed.
          let space1 = space\<lparr>sp_PartitionRule := Some (rule\<lparr>pr_Ranges := ranges\<rparr>),
                         sp_Partitions := sp_Partitions space @ map snd placed\<rparr> in
          bindA (create_everywhere en space1 placed) (\<lambda>_.
          bindA (wait_partitions en (NewError INTERNAL_ERROR (Some (GoErr ''update space has error'')))
                   (en_polls en) (map (pt_Id \<circ> snd) placed)) (\<lambda>_.
          ret space1))))))))"

definition respread :: "Space \<Rightarrow> Space res" where
  "respread space =
     (case sp_PartitionRule space of
        None \<Rightarrow> Inl (GoPanic ''nil pointer dereference'')
      | Some rule \<Rightarrow>
          let rule' = rule\<lparr>pr_Partitions := int (length (pr_Ranges rule))\<rparr>;
              n = int64 (sp_PartitionNum space * pr_Partitions rule')
          in if n = 0 then Inl (GoPanic ''integer divide by zero'')
             else bind_res (assign_slots (nat n) (\<lambda>i. word_of_int (int i * (4294967295 sdiv n))) (sp_Partitions space)) (\<lambda>ps.
               Inr (space\<lparr>sp_PartitionRule := Some rule', sp_Partitions := ps\<rparr>)))"

definition updateSpacePartitonRule ::
  "space_env \<Rightarrow> string option \<Rightarrow> string \<Rightarrow> PartitionRule option \<Rightarrow> Space \<Rightarrow> (world, Space) act" where
  "updateSpacePartitonRule en partitionName opType partitionRule space =
     (case sp_PartitionRule space of
        None \<Rightarrow> fail (GoPanic ''nil pointer dereference'')
      | Some rule \<Rightarrow>
          bindA (if opType = ''DROP'' then drop_range en space rule partitionName
                 else if opType = ''ADD'' then add_ranges en space rule partitionRule
                 else ret space) (\<lambda>space1.
          bindA (lift (respread space1)) (\<lambda>space2. UpdateSpaceData en space2)))"

section \<open>The update\<close>

definition handleResourceUpdate :: "space_env \<Rightarrow> Space \<Rightarrow> Space \<Rightarrow> (world, Space) act" where
  "handleResourceUpdate en space request =
     (case sp_PartitionOperatorType request of
        Some op \<Rightarrow>
          if op \<noteq> ''ADD'' \<and> op \<noteq> ''DROP'' then fail (param_err ''partition operator type should be ADD or DROP'')
          else if (case sp_PartitionRule space of None \<Rightarrow> True | Some rule \<Rightarrow> pr_Ranges rule = [])
          then fail (param_err ''space partition rule is empty'')
          else updateSpacePartitonRule en (sp_PartitionName request) op (sp_PartitionRule request) space
      | None \<Rightarrow>
          if sp_PartitionNum request > 0 then
            if sp_PartitionNum space \<ge> sp_PartitionNum request
            then fail (param_err ''partition_num should be greater than current'')
            else expandPartitions en space (word_of_int (sp_PartitionNum request))
          else fail (param_err ''no valid resource update operation specified''))"

definition UpdateSpace ::
  "space_env \<Rightarrow> schema_arrays \<Rightarrow> string \<Rightarrow> string \<Rightarrow> Space \<Rightarrow> Partition list option \<Rightarrow> string \<Rightarrow> (world, Space) act" where
  "UpdateSpace en sa dbName spaceName request requestPartitions op =
     with_lock (LockSpaceKey (en_ks en) dbName spaceName) (
       caseA (QueryDBName2ID (en_ks en) (en_cl en) dbName)
         (\<lambda>e. fail (param_err ''failed to find database id''))
         (\<lambda>databaseID.
       caseA (QuerySpaceByName (en_ks en) (en_sc en) databaseID spaceName)
         (\<lambda>e. fail (param_err ''failed to find space''))
         (\<lambda>space.
       if op = ''config'' then handleConfigurationUpdate en sa space request requestPartitions
       else if sp_PartitionName request \<noteq> None \<or> sp_PartitionOperatorType request \<noteq> None \<or>
               sp_PartitionRule request \<noteq> None \<or> sp_PartitionNum request > 0
       then handleResourceUpdate en space request
       else handleConfigurationUpdate en sa space request requestPartitions)))"

section \<open>What a successful update has stored\<close>

definition saves :: "space_env \<Rightarrow> Space \<Rightarrow> (world, Space) act \<Rightarrow> bool" where
  "saves en space a \<longleftrightarrow> (\<forall>w space' w'. a w = (Inr space', w') \<longrightarrow>
     sp_Id space' = sp_Id space \<and> sp_DBId space' = sp_DBId space \<and> sp_ReplicaNum space' = sp_ReplicaNum space \<and>
     sp_Version space' = sp_Version space + 1 \<and>
     (\<exists>b. marshal (en_sc en) space' = Inr b \<and>
        map_of (kv w') (SpaceKey (en_ks en) (sp_DBId space) (sp_Id space)) = Some b))"

lemma caseA_fail_Inr:
  "caseA a (\<lambda>e. fail (g e)) f s = (Inr y, t) \<longleftrightarrow> (\<exists>x s'. a s = (Inr x, s') \<and> f x s' = (Inr y, t))"
  by (simp add: caseA_Inr)

named_theorems save_rules

lemma saves_fail [save_rules]: "saves en space (fail e)"
  by (simp add: saves_def)

lemma saves_bindA [save_rules]:
  "(\<And>w x w'. a w = (Inr x, w') \<Longrightarrow> saves en space (f x)) \<Longrightarrow> saves en space (bindA a f)"
proof -
  assume f: "\<And>w x w'. a w = (Inr x, w') \<Longrightarrow> saves en space (f x)"
  show ?thesis
    unfolding saves_def
  proof (intro allI impI)
    fix w space' w' assume "bindA a f w = (Inr space', w')"
    then obtain x u where "a w = (Inr x, u)" and run: "f x u = (Inr space', w')" by (auto simp: bindA_eq_Inr)
    then show "sp_Id space' = sp_Id space \<and> sp_DBId space' = sp_DBId space \<and> sp_ReplicaNum space' = sp_ReplicaNum space \<and>
     sp_Version space' = sp_Version space + 1 \<and>
     (\<exists>b. marshal (en_sc en) space' = Inr b \<and> map_of (kv w') (SpaceKey (en_ks en) (sp_DBId space) (sp_Id space)) = Some b)"
      using f unfolding saves_def by fast
  qed
qed

lemma saves_if [save_rules]:
  "(c \<Longrightarrow> saves en space a) \<Longrightarrow> (\<not> c \<Longrightarrow> saves en space b) \<Longrightarrow> saves en space (if c then a else b)"
  by simp

lemma saves_option [save_rules]:
  "(v = None \<Longrightarrow> saves en space a) \<Longrightarrow> (\<And>x. v = Some x \<Longrightarrow> saves en space (f x)) \<Longrightarrow>
   saves en space (case v of None \<Rightarrow> a | Some x \<Rightarrow> f x)"
  by (cases v) simp_all

lemma saves_prod [save_rules]: "(\<And>x y. saves en space (f x y)) \<Longrightarrow> saves en space (case p of (x, y) \<Rightarrow> f x y)"
  by (cases p) simp

lemma saves_UpdateSpaceData:
  assumes "sp_Id space2 = sp_Id space" and "sp_DBId space2 = sp_DBId space"
    and "sp_ReplicaNum space2 = sp_ReplicaNum space" and "sp_Version space2 = sp_Version space"
  shows "saves en space (UpdateSpaceData en space2)"
  unfolding saves_def
proof (intro allI impI)
  fix w space' w' assume run: "UpdateSpaceData en space2 w = (Inr space', w')"
  show "sp_Id space' = sp_Id space \<and> sp_DBId space' = sp_DBId space \<and> sp_ReplicaNum space' = sp_ReplicaNum space \<and>
     sp_Version space' = sp_Version space + 1 \<and>
     (\<exists>b. marshal (en_sc en) space' = Inr b \<and> map_of (kv w') (SpaceKey (en_ks en) (sp_DBId space) (sp_Id space)) = Some b)"
    using UpdateSpaceData_Inr [OF run] assms by (simp add: saved_space_def)
qed

lemma updateSpaceFields_same:
  assumes "updateSpaceFields js sa space f = Inr space'"
  shows "sp_Id space' = sp_Id space" "sp_DBId space' = sp_DBId space" "sp_ReplicaNum space' = sp_ReplicaNum space"
    "sp_Version space' = sp_Version space" "sp_Partitions space' = sp_Partitions space" "sp_PartitionRule space' = sp_PartitionRule space"
    "sp_Name space' = sp_Name space" "sp_Enabled space' = sp_Enabled space"
proof -
  have "space' = space \<or> (\<exists>f i p. space' = space\<lparr>sp_Fields := f, sp_Indexes := i, sp_SpaceProperties := p\<rparr>)"
    using assms unfolding updateSpaceFields_def Let_def bind_res_Inr_iff by (elim exE conjE) (auto simp: bind_res_Inr_iff split: if_splits)
  then show "sp_Id space' = sp_Id space" "sp_DBId space' = sp_DBId space" "sp_ReplicaNum space' = sp_ReplicaNum space"
    "sp_Version space' = sp_Version space" "sp_Partitions space' = sp_Partitions space" "sp_PartitionRule space' = sp_PartitionRule space"
    "sp_Name space' = sp_Name space" "sp_Enabled space' = sp_Enabled space" by auto
qed

lemma saves_handleConfigurationUpdate [save_rules]: "saves en space (handleConfigurationUpdate en sa space temp parts)"
  unfolding handleConfigurationUpdate_def Let_def
  by (intro save_rules saves_UpdateSpaceData) (auto simp: res_simps dest: updateSpaceFields_same split: if_splits)

lemma saves_expandPartitions [save_rules]: "saves en space (expandPartitions en space c)"
  unfolding expandPartitions_def Let_def by (intro save_rules saves_UpdateSpaceData) simp_all

definition same_head :: "Space \<Rightarrow> Space \<Rightarrow> bool" where
  "same_head s t \<longleftrightarrow> sp_Id s = sp_Id t \<and> sp_DBId s = sp_DBId t \<and> sp_ReplicaNum s = sp_ReplicaNum t \<and> sp_Version s = sp_Version t"

lemma ranges_same_head:
  "drop_range en space rule n w = (Inr s1, w') \<Longrightarrow> same_head s1 space"
  "add_ranges en space rule r w = (Inr s1, w') \<Longrightarrow> same_head s1 space"
  "respread s1 = Inr s2 \<Longrightarrow> same_head s2 s1"
  by (auto simp: drop_range_def add_ranges_def respread_def same_head_def Let_def bindA_eq_Inr res_simps
      split: option.splits prod.splits if_splits)

lemma saves_updateSpacePartitonRule [save_rules]: "saves en space (updateSpacePartitonRule en n op r space)"
proof -
  have save: "saves en space (UpdateSpaceData en s2)" if "same_head s2 space" for s2
    using that by (intro saves_UpdateSpaceData) (simp_all add: same_head_def)
  have trans: "same_head s2 space" if "same_head s2 s1" "same_head s1 space" for s1 s2
    using that by (simp add: same_head_def)
  show ?thesis
    unfolding updateSpacePartitonRule_def
    by (intro save_rules save)
      (auto split: if_splits intro: trans dest!: ranges_same_head)
qed

lemma saves_handleResourceUpdate [save_rules]: "saves en space (handleResourceUpdate en space request)"
  unfolding handleResourceUpdate_def by (intro save_rules)

section \<open>Slots\<close>

lemma slots_only:
  assumes "map pt_Slot ps = map pt_Slot qs"
  shows "slots_ok ps = slots_ok qs" and "owns ps slot i = owns qs slot i"
proof -
  have len: "length ps = length qs" using assms by (rule map_eq_imp_length_eq)
  have nth: "pt_Slot (ps ! j) = pt_Slot (qs ! j)" if "j < length qs" for j
    using assms len that by (metis nth_map)
  show "slots_ok ps = slots_ok qs" using assms len nth [of 0] by (cases ps; cases qs) (auto simp: slots_ok_def)
  show "owns ps slot i = owns qs slot i" using nth len by (auto simp: owns_def)
qed

lemma assign_slots_Inr:
  assumes "assign_slots n slot ps = Inr qs"
  shows "length qs = length ps" and "map pt_Id qs = map pt_Id ps" and "map pt_Replicas qs = map pt_Replicas ps"
    and "n = length ps \<Longrightarrow> map pt_Slot qs = map slot [0..<n]"
proof -
  have n: "n \<le> length ps" and qs: "qs = map (\<lambda>(i, p). p\<lparr>pt_Slot := slot i\<rparr>) (enumerate 0 (take n ps)) @ drop n ps"
    using assms by (auto simp: assign_slots_def split: if_splits)
  show len: "length qs = length ps" using n qs by simp
  have nth: "qs ! i = (if i < n then (ps ! i)\<lparr>pt_Slot := slot i\<rparr> else ps ! i)" if "i < length ps" for i
    using n qs that by (auto simp: nth_append nth_enumerate_eq)
  show "map pt_Id qs = map pt_Id ps" "map pt_Replicas qs = map pt_Replicas ps"
    using nth len by (auto intro!: nth_equalityI)
  show "map pt_Slot qs = map slot [0..<n]" if "n = length ps"
    using nth len that by (auto intro!: nth_equalityI)
qed

lemma even_slots_route:
  assumes "map pt_Slot (sp_Partitions s) = map (\<lambda>i. word_of_int (int i * (4294967295 div int n))) [0..<n]"
    and "0 < n" and "n \<le> 4294967295"
  shows "slots_ok (sp_Partitions s)"
    and "PartitionId s h = Inr (pt_Id (sp_Partitions s ! min (n - 1) (nat (uint h div (4294967295 div int n)))))"
proof -
  let ?qs = "make_partitions 0 0 (4294967295 div int n) (\<lambda>_. []) (replicate n 0)"
  have same: "map pt_Slot (sp_Partitions s) = map pt_Slot ?qs"
    unfolding assms(1) by (intro nth_equalityI) (simp_all add: make_partitions_nth new_partition_def make_partitions_def)
  have n: "0 < length (replicate n (0 :: int))" "length (replicate n (0 :: int)) \<le> 4294967295" using assms by simp_all
  show ok: "slots_ok (sp_Partitions s)" using slots_only(1) [OF same] slots_ok_make_partitions [OF n] by simp
  have "owns (sp_Partitions s) h (min (n - 1) (nat (uint h div (4294967295 div int n))))"
    using slots_only(2) [OF same] owns_make_partitions [OF n] by simp
  then show "PartitionId s h = Inr (pt_Id (sp_Partitions s ! min (n - 1) (nat (uint h div (4294967295 div int n)))))"
    by (rule PartitionId_owner_eq [OF ok])
qed

lemma slot_word:
  fixes c :: "32 word"
  assumes "i < unat c"
  shows "of_nat i * (4294967295 div c) = (word_of_int (int i * (4294967295 div int (unat c))) :: 32 word)"
proof -
  have "4294967295 div c = word_of_int (4294967295 div uint c)" by (simp add: word_div_def)
  then show ?thesis by simp
qed

lemma int64_diff32:
  fixes a b :: int
  assumes "0 \<le> a" "a < 4294967296" "0 \<le> b" "b < 4294967296"
  shows "int64 (a - b) = a - b"
  using assms by simp

lemma new_partitions_length:
  "new_partitions en space name n w = (Inr ps, w') \<Longrightarrow> length ps = nat n"
  unfolding new_partitions_def by (drule mapA_Inr) simp

lemma expandPartitions_Inr:
  assumes "expandPartitions en space c w = (Inr space', w')"
  obtains servers counts newPs placed ps u where
    "0 \<le> int64 (uint c - sp_PartitionNum space)"
    and "length newPs = nat (int64 (uint c - sp_PartitionNum space))" and "c \<noteq> 0"
    and "choose_servers en servers counts (sp_ReplicaNum space) newPs = Inr placed"
    and "assign_slots (unat c) (\<lambda>i. of_nat i * (4294967295 div c)) (sp_Partitions space @ map snd placed) = Inr ps"
    and "UpdateSpaceData en (space\<lparr>sp_PartitionNum := uint c, sp_Partitions := ps\<rparr>) u = (Inr space', w')"
  using assms unfolding expandPartitions_def Let_def bindA_eq_Inr
  by (elim exE conjE)
    (auto simp: bindA_eq_Inr bind_res_Inr_iff guard_def split: prod.splits if_splits dest!: new_partitions_length)

section \<open>Properties\<close>


text \<open>
  C7: a space that has been expanded routes every hash. If \<^verbatim>\<open>expandPartitions\<close> succeeds on a space
  without a partition rule, whatever the network and the servers do, the space has the wanted number
  \<open>n\<close> of partitions; the old ones come first with their ids and replicas, each new one has as many
  replicas as the space wants, the slots are spread anew and a hash \<open>h\<close> goes to partition
  \<open>h div (MaxUint32 div n)\<close>, or to the last one.
\<close>

theorem expandPartitions_routes:
  assumes "expandPartitions en space c w = (Inr space', w')"
    and "sp_PartitionRule space = None" and "sp_PartitionNum space = int (length (sp_Partitions space))"
    and "length (sp_Partitions space) < 2 ^ 32" and "sp_ReplicaNum space \<noteq> 0"
  shows "length (sp_Partitions space') = unat c \<and> sp_PartitionNum space' = uint c \<and>
    map pt_Id (take (length (sp_Partitions space)) (sp_Partitions space')) = map pt_Id (sp_Partitions space) \<and>
    map pt_Replicas (take (length (sp_Partitions space)) (sp_Partitions space')) = map pt_Replicas (sp_Partitions space) \<and>
    (\<forall>p \<in> set (drop (length (sp_Partitions space)) (sp_Partitions space')). length (pt_Replicas p) = unat (sp_ReplicaNum space)) \<and>
    slots_ok (sp_Partitions space') \<and>
    (\<forall>h. PartitionId space' h =
       Inr (pt_Id (sp_Partitions space' ! min (unat c - 1) (nat (uint h div (4294967295 div uint c))))))"
proof -
  let ?old = "sp_Partitions space" and ?more = "int64 (uint c - sp_PartitionNum space)"
  obtain servers counts newPs placed ps u where more: "0 \<le> ?more" "length newPs = nat ?more" and c: "c \<noteq> 0"
    and ch: "choose_servers en servers counts (sp_ReplicaNum space) newPs = Inr placed"
    and as: "assign_slots (unat c) (\<lambda>i. of_nat i * (4294967295 div c)) (?old @ map snd placed) = Inr ps"
    and up: "UpdateSpaceData en (space\<lparr>sp_PartitionNum := uint c, sp_Partitions := ps\<rparr>) u = (Inr space', w')"
    using assms(1) by (rule expandPartitions_Inr)
  have sp': "space' = saved_space (space\<lparr>sp_PartitionNum := uint c, sp_Partitions := ps\<rparr>)"
    using UpdateSpaceData_Inr(1) [OF up] .
  then have parts: "sp_Partitions space' = ps" by (simp add: saved_space_def)
  obtain c' where "place_partitions (en_sort en) (en_cl en) (en_strategy en) (en_live en) servers counts (sp_ReplicaNum space) newPs = Inr (placed, c')"
    using ch by (auto simp: choose_servers_def res_simps)
  note shape = place_partitions_shape [OF this]
  have b: "int (length ?old) < 2 ^ 32" "uint c < 2 ^ 32" "0 \<le> uint c"
    using assms(4) uint_bounded [of c] by simp_all
  have "?more = uint c - int (length ?old)"
    unfolding assms(3) by (rule int64_diff32) (use b in simp_all)
  then have "int (length ?old) + int (length placed) = int (unat c)"
    using more list_all2_lengthD [OF shape(1)] by simp
  then have len: "length ?old + length placed = unat c" by linarith
  have c_le: "unat c \<le> 4294967295" using unat_bounds(2) [of c] by simp
  note ps = assign_slots_Inr [OF as]
  have "map pt_Slot ps = map (\<lambda>i. word_of_int (int i * (4294967295 div int (unat c)))) [0..<unat c]"
    using ps(4) len by (simp add: slot_word)
  note routes = even_slots_route [where s = space', unfolded parts, OF this _ c_le]
  have "map pt_Replicas (drop (length ?old) ps) = map pt_Replicas (map snd placed)"
    using ps(3) by (simp add: drop_map [symmetric])
  then have "pt_Replicas ` set (drop (length ?old) ps) = pt_Replicas ` set (map snd placed)"
    unfolding set_map [symmetric] by simp
  then have reps: "length (pt_Replicas p) = unat (sp_ReplicaNum space)" if "p \<in> set (drop (length ?old) ps)" for p
    using shape(2) [OF assms(5)] imageI [OF that, of pt_Replicas] by auto
  have old: "map pt_Id (take (length ?old) ps) = map pt_Id ?old" "map pt_Replicas (take (length ?old) ps) = map pt_Replicas ?old"
    using ps(2,3) by (simp_all add: take_map [symmetric])
  have n: "0 < unat c" "uint c = int (unat c)" using c by (simp_all add: unat_gt_0)
  show ?thesis
    unfolding parts n(2)
  proof (intro conjI allI ballI)
    show "length ps = unat c" using ps(1) len by simp
    then show "sp_PartitionNum space' = int (unat c)" using sp' assms(2) by (simp add: saved_space_def)
  qed (use reps old routes n(1) in \<open>simp_all only:\<close>)
qed

lemma handleConfigurationUpdate_Inr:
  assumes "handleConfigurationUpdate en sa space temp parts w = (Inr space', w')"
  obtains space2 space3 props u where "UnmarshalPropertyJSON (en_js en) (sp_Fields temp) = Inr props"
    and "sp_Fields space2 = sp_Fields space" and "sp_Indexes space2 = sp_Indexes space"
    and "sp_Fields temp \<noteq> [] \<Longrightarrow> detectIndexChangesWithProperties (en_js en) space2 props = Inr []"
    and "sp_Fields temp \<noteq> [] \<Longrightarrow> updateSpaceFields (en_js en) sa space2 (sp_Fields temp) = Inr space3"
    and "UpdateSpaceData en (space3\<lparr>sp_Version := sp_Version space3 - 1\<rparr>) u = (Inr space', w')"
proof -
  let ?space1 = "space\<lparr>sp_Name := (if sp_Name temp \<noteq> [] then sp_Name temp else sp_Name space),
                   sp_Enabled := (if sp_Enabled temp \<noteq> None then sp_Enabled temp else sp_Enabled space)\<rparr>"
  define space2 where "space2 = ?space1\<lparr>sp_Version := sp_Version ?space1 + 1,
                    sp_Partitions := (case parts of None \<Rightarrow> sp_Partitions ?space1 | Some ps \<Rightarrow> ps)\<rparr>"
  obtain props space3 u where "UnmarshalPropertyJSON (en_js en) (sp_Fields temp) = Inr props"
    and upd: "(if length (sp_Fields temp) > 0 then
         bind_res (detectIndexChangesWithProperties (en_js en) space2 props) (\<lambda>changes.
         bind_res (guard (length changes > 0) (param_err ''index changes are not supported via space update'')) (\<lambda>_.
         updateSpaceFields (en_js en) sa space2 (sp_Fields temp)))
       else Inr space2) = Inr space3"
    and "UpdateSpaceData en (space3\<lparr>sp_Version := sp_Version space3 - 1\<rparr>) u = (Inr space', w')"
    using assms unfolding handleConfigurationUpdate_def Let_def space2_def [symmetric] bindA_eq_Inr
    by (elim exE conjE) (simp only: lift_def prod.inject)
  moreover have "detectIndexChangesWithProperties (en_js en) space2 props = Inr []"
      "updateSpaceFields (en_js en) sa space2 (sp_Fields temp) = Inr space3" if "sp_Fields temp \<noteq> []"
    using upd that by (auto simp: bind_res_Inr_iff guard_def split: if_splits)
  ultimately show thesis using that [of props space2 space3 u] by (simp add: space2_def)
qed

lemma UnmarshalPropertyJSON_ok: "UnmarshalPropertyJSON js f = Inr props \<Longrightarrow> gomap_ok props"
  by (auto simp: UnmarshalPropertyJSON_def res_simps dest: property_loop_props)

lemma detect_none:
  assumes "detectIndexChangesWithProperties js space newProps = Inr []"
    and "UnmarshalPropertyJSON js (sp_Fields space) = Inr oldProps" and "map_of newProps n = Some p"
  shows "case map_of oldProps n of None \<Rightarrow> \<not> indexed p | Some q \<Rightarrow> indexed q = indexed p"
proof -
  have old: "\<forall>(n, q) \<in> set oldProps. case map_of newProps n of None \<Rightarrow> True | Some p \<Rightarrow> indexed q = indexed p"
    and new: "\<forall>(n, p) \<in> set newProps. map_of oldProps n = None \<longrightarrow> \<not> indexed p"
    using assms(1,2) by (auto simp: detectIndexChangesWithProperties_def split: option.splits if_splits)
  show ?thesis
  proof (cases "map_of oldProps n")
    case None
    then show ?thesis using new map_of_SomeD [OF assms(3)] by auto
  next
    case (Some q)
    then show ?thesis using old map_of_SomeD [OF Some] assms(3) by fastforce
  qed
qed

lemma updateSpaceFields_Inr:
  assumes "updateSpaceFields js sa space f = Inr space'"
    and "UnmarshalPropertyJSON js (sp_Fields space) = Inr oldProps" and "UnmarshalPropertyJSON js f = Inr newProps"
  shows "\<forall>n p q. map_of newProps n = Some p \<and> map_of oldProps n = Some q \<longrightarrow> arePropertiesEqual q p"
    and "if \<exists>n. map_of newProps n \<noteq> None \<and> map_of oldProps n = None
       then MergeSchemaArray sa (sp_Fields space) f = Inr (sp_Fields space') \<and>
         UnmarshalPropertyJSON js (sp_Fields space') = Inr (sp_SpaceProperties space') \<and>
         sp_Indexes space' = map Some (field_indexes (sp_SpaceProperties space'))
       else space' = space"
proof -
  let ?fresh = "filter (\<lambda>(n, _). map_of oldProps n = None) newProps"
  have chk: "\<forall>x \<in> set oldProps. check_compatible newProps x = Inr ()"
    and run: "(if length ?fresh > 0 then
       bind_res (MergeSchemaArray sa (sp_Fields space) f) (\<lambda>schema.
       bind_res (UnmarshalPropertyJSON js schema) (\<lambda>updated.
       bind_res (MergeFieldIndexes updated []) (\<lambda>indexes.
         Inr (space\<lparr>sp_Fields := schema, sp_Indexes := indexes, sp_SpaceProperties := updated\<rparr>))))
     else Inr space) = Inr space'"
    using assms unfolding updateSpaceFields_def Let_def by (auto simp: bind_res_Inr_iff each_res_Inr_iff)
  show "\<forall>n p q. map_of newProps n = Some p \<and> map_of oldProps n = Some q \<longrightarrow> arePropertiesEqual q p"
  proof (intro allI impI)
    fix n p q assume "map_of newProps n = Some p \<and> map_of oldProps n = Some q"
    then show "arePropertiesEqual q p"
      using bspec [OF chk, of "(n, q)"] map_of_SomeD [of oldProps n q]
      by (auto simp: check_compatible_def guard_def isOnlyIndexOptionChangeWithProperties_def split: if_splits)
  qed
  have fresh: "length ?fresh > 0 \<longleftrightarrow> (\<exists>n. map_of newProps n \<noteq> None \<and> map_of oldProps n = None)"
    by (force simp: filter_empty_conv map_of_eq_None_iff)
  show "if \<exists>n. map_of newProps n \<noteq> None \<and> map_of oldProps n = None
       then MergeSchemaArray sa (sp_Fields space) f = Inr (sp_Fields space') \<and>
         UnmarshalPropertyJSON js (sp_Fields space') = Inr (sp_SpaceProperties space') \<and>
         sp_Indexes space' = map Some (field_indexes (sp_SpaceProperties space'))
       else space' = space"
    unfolding fresh [symmetric]
  proof (cases "length ?fresh > 0")
    case True
    then obtain schema updated indexes where r: "MergeSchemaArray sa (sp_Fields space) f = Inr schema"
        "UnmarshalPropertyJSON js schema = Inr updated" "MergeFieldIndexes updated [] = Inr indexes"
        "space' = space\<lparr>sp_Fields := schema, sp_Indexes := indexes, sp_SpaceProperties := updated\<rparr>"
      using run by (auto simp: bind_res_Inr_iff)
    then have "indexes = map Some (field_indexes updated)"
      using MergeFieldIndexes_Inr_iff [OF UnmarshalPropertyJSON_ok [OF r(2)], of "[]" indexes] by auto
    then show "if length ?fresh > 0 then MergeSchemaArray sa (sp_Fields space) f = Inr (sp_Fields space') \<and>
         UnmarshalPropertyJSON js (sp_Fields space') = Inr (sp_SpaceProperties space') \<and>
         sp_Indexes space' = map Some (field_indexes (sp_SpaceProperties space')) else space' = space"
      using True r by simp
  qed (use run in auto)
qed


lemma eachA_cong: "(\<And>x. x \<in> set xs \<Longrightarrow> f x = g x) \<Longrightarrow> eachA f xs = eachA g xs"
  by (induction xs) simp_all

text \<open>
  C23: dropping the last range of a space panics after its data is gone. If all partitions of the space
  belong to the range, the partitions are removed from the servers and from the store, and then the
  spread of the slots over no partition divides by zero: the record of the space still lists the
  partitions that do not exist anymore.
\<close>

theorem dropping_last_range_panics:
  assumes "calm w" and "en_ks en = cluster_keys c" and "sp_PartitionRule space = Some rule"
    and "pr_Ranges rule \<noteq> []" and "\<forall>r \<in> set (pr_Ranges rule). rg_Name r = name" and "name \<noteq> []"
    and "\<forall>p \<in> set (sp_Partitions space). pt_Name p = name"
    and "distinct (map pt_Id (sp_Partitions space))"
    and "\<forall>p \<in> set (sp_Partitions space). map_of (kv w) (PartitionKey (en_ks en) (pt_Id p)) \<noteq> None"
    and "\<forall>a pid w. calm w \<longrightarrow> calm (snd (en_delete en a pid w)) \<and> kv (snd (en_delete en a pid w)) = kv w"
  shows "\<exists>w'. updateSpacePartitonRule en (Some name) ''DROP'' r space w = (Inl (GoPanic ''integer divide by zero''), w') \<and>
    (\<forall>p \<in> set (sp_Partitions space). map_of (kv w') (PartitionKey (en_ks en) (pt_Id p)) = None) \<and>
    (\<forall>d s. map_of (kv w') (SpaceKey (en_ks en) d s) = map_of (kv w) (SpaceKey (en_ks en) d s))"
proof -
  let ?del = "\<lambda>p. bindA (delete_replicas en p) (\<lambda>_. Delete (PartitionKey (en_ks en) (pt_Id p)))"
  have "eachA (\<lambda>p. if pt_Name p \<noteq> name then ret () else ?del p) (sp_Partitions space) = eachA ?del (sp_Partitions space)"
    using assms(7) by (intro eachA_cong) simp
  moreover obtain w' where w': "eachA ?del (sp_Partitions space) w = (Inr (), w')"
    "\<forall>k. map_of (kv w') k = (if k \<in> (\<lambda>p. PartitionKey (en_ks en) (pt_Id p)) ` set (sp_Partitions space) then None else map_of (kv w) k)"
    using delete_partitions_calm [OF _ assms(1,8,9)] assms(10) by blast
  moreover have "name \<in> rg_Name ` set (pr_Ranges rule)"
    using assms(4,5) by (cases "pr_Ranges rule") auto
  moreover have none: "filter (\<lambda>r. rg_Name r \<noteq> name) (pr_Ranges rule) = []" using assms(5) by (simp add: filter_empty_conv)
  ultimately have "updateSpacePartitonRule en (Some name) ''DROP'' r space w = (Inl (GoPanic ''integer divide by zero''), w')"
    using assms(3,6) unfolding updateSpacePartitonRule_def drop_range_def bindA_def
    by (simp add: respread_def Let_def int64_def)
  moreover have "SpaceKey (en_ks en) d s \<notin> (\<lambda>p. PartitionKey (en_ks en) (pt_Id p)) ` set (sp_Partitions space)" for d s
    using space_key_kinds(1) [of c d s] by (auto simp: assms(2))
  ultimately show ?thesis using w'(2) by auto
qed

text \<open>
  A space cannot be renamed, enabled or disabled without sending its fields again. The code decodes
  the fields of the request before it checks whether there are any, and the JSON decoder refuses an empty
  text, so an update of the configuration without fields always fails and leaves the store as it was.
\<close>

theorem update_without_fields_fails:
  assumes "\<forall>f. \<exists>e. js_fields (en_js en) f [] = Inl e" and "sp_Fields request = []"
    and "op = ''config'' \<or> sp_PartitionName request = None \<and> sp_PartitionOperatorType request = None \<and>
       sp_PartitionRule request = None \<and> sp_PartitionNum request \<le> 0"
  shows "\<exists>e w'. UpdateSpace en sa dbName spaceName request parts op w = (Inl e, w') \<and> kv w' = kv w"
proof -
  obtain e where "js_fields (en_js en) (Index_UnmarshalJSON (en_js en)) [] = Inl e" using assms(1) by blast
  then have e: "UnmarshalPropertyJSON (en_js en) (sp_Fields request) = Inl e"
    using assms(2) by (simp add: UnmarshalPropertyJSON_def)
  define I where "I m \<longleftrightarrow> m = kv w" for m
  have branch: "(if op = ''config'' then handleConfigurationUpdate en sa space request parts
       else if sp_PartitionName request \<noteq> None \<or> sp_PartitionOperatorType request \<noteq> None \<or>
               sp_PartitionRule request \<noteq> None \<or> sp_PartitionNum request > 0
       then handleResourceUpdate en space request
       else handleConfigurationUpdate en sa space request parts) = handleConfigurationUpdate en sa space request parts" for space
    using assms(3) by auto
  have act: "UpdateSpace en sa dbName spaceName request parts op =
      with_lock (LockSpaceKey (en_ks en) dbName spaceName) (
       caseA (QueryDBName2ID (en_ks en) (en_cl en) dbName) (\<lambda>e. fail (param_err ''failed to find database id'')) (\<lambda>databaseID.
       caseA (QuerySpaceByName (en_ks en) (en_sc en) databaseID spaceName) (\<lambda>e. fail (param_err ''failed to find space'')) (\<lambda>space.
       handleConfigurationUpdate en sa space request parts)))" (is "_ = with_lock ?k ?body")
    unfolding UpdateSpace_def branch by (rule refl)
  have conf: "handleConfigurationUpdate en sa space request parts =
      bindA (lift (guard (immutable_changes space request \<noteq> []) (param_err (immutable_changes space request)))) (\<lambda>_.
      bindA (lift (Space_Validate (en_nt en) (space\<lparr>sp_Name := (if sp_Name request \<noteq> [] then sp_Name request else sp_Name space),
          sp_Enabled := (if sp_Enabled request \<noteq> None then sp_Enabled request else sp_Enabled space)\<rparr>))) (\<lambda>_. fail e))" for space
    unfolding handleConfigurationUpdate_def Let_def e by (intro ext) (simp add: bindA_def lift_def split: sum.splits)
  have "keeps I (handleConfigurationUpdate en sa space request parts)" for space unfolding conf by (intro keep_rules)
  then have kv: "keeps I (UpdateSpace en sa dbName spaceName request parts op)" unfolding act by (intro keep_rules)
  have "fst (UpdateSpace en sa dbName spaceName request parts op w) \<noteq> Inr x" for x
  proof
    assume "fst (UpdateSpace en sa dbName spaceName request parts op w) = Inr x"
    then obtain w' where "with_lock ?k ?body w = (Inr x, w')" unfolding act by (metis prod.collapse)
    then obtain u v where "?body u = (Inr x, v)" by (rule with_lock_Inr)
    then show False by (auto simp: caseA_fail_Inr conf bindA_eq_Inr)
  qed
  moreover have "kv (snd (UpdateSpace en sa dbName spaceName request parts op w)) = kv w"
    using kv by (simp add: keeps_act I_def)
  ultimately show ?thesis
    by (cases "UpdateSpace en sa dbName spaceName request parts op w"; cases "fst (UpdateSpace en sa dbName spaceName request parts op w)") auto
qed

section \<open>Examples\<close>

definition demo_arrays :: schema_arrays where
  "demo_arrays = \<lparr> sa_decode = (\<lambda>_. Inr []), sa_encode = (\<lambda>_. Inr []) \<rparr>"

lemma demo_updated:
  "\<not> isl (fst (UpdateSpace (demo_env\<lparr>en_sc := demo_space_codec\<rparr>) demo_arrays
     ''db'' ''s'' (empty_space\<lparr>sp_Name := ''t''\<rparr>) None ''config''
     \<lparr> kv = [(DBKeyName default_key_space ''db'', ''1''), (SpaceKey default_key_space 1 0, ''ns'')], faults = [] \<rparr>))"
  by code_simp

lemma demo_expanded:
  "\<not> isl (fst (expandPartitions demo_env (empty_space\<lparr>sp_DBId := 1, sp_ReplicaNum := 1\<rparr>) 2 demo_world))"
  by code_simp

text \<open>A decoder that finds no field in the text of the space and one in the text of the request.\<close>

definition demo_js2 :: schema_json where
  "demo_js2 = demo_js\<lparr>js_fields := (\<lambda>_ f. Inr (if f = ''old'' then [] else [demo_field ''k'' ''keyword'' 0 None]))\<rparr>"

definition demo_composite :: Index where
  "demo_composite = \<lparr> ix_Name = ''ab'', ix_Type = CompositeIndexType, ix_FieldName = [], ix_FieldNames = [''a'', ''b''], ix_Params = [] \<rparr>"

lemma demo_configured:
  "\<not> isl (fst (handleConfigurationUpdate (demo_env\<lparr>en_js := demo_js2\<rparr>) demo_arrays
     (empty_space\<lparr>sp_Fields := ''old'', sp_Indexes := [Some demo_composite]\<rparr>)
     (empty_space\<lparr>sp_Name := ''t'', sp_Fields := ''new''\<rparr>) None demo_world))"
  by code_simp

lemma demo_unmarshal_old: "UnmarshalPropertyJSON demo_js2 ''old'' = Inr []"
  by (simp add: UnmarshalPropertyJSON_def demo_js2_def)

definition demo_props2 :: "(string, SpaceProperties) gomap" where
  "demo_props2 = [(''k'', \<lparr> fp_FieldType = FieldType_STRING, fp_Type = ''keyword'', fp_Index = None, fp_Format = None, fp_Dimension = 0,
             fp_StoreType = None, fp_StoreParam = [], fp_Option = FO_Null \<rparr>)]"

lemma demo_unmarshal_new: "f \<noteq> ''old'' \<Longrightarrow> UnmarshalPropertyJSON demo_js2 f = Inr demo_props2"
  by (simp add: UnmarshalPropertyJSON_def demo_js2_def demo_schema_defs demo_props2_def)

lemma not_isl_run: "\<not> isl (fst r) \<Longrightarrow> \<exists>x w'. r = (Inr x, w')"
  by (cases r; cases "fst r") auto


theorem expandPartitions_routes_witness:
  "\<exists>space' w'. expandPartitions demo_env (empty_space\<lparr>sp_DBId := 1, sp_ReplicaNum := 1\<rparr>) 2 demo_world = (Inr space', w') \<and>
    length (sp_Partitions space') = 2 \<and> slots_ok (sp_Partitions space') \<and>
    PartitionId space' 4000000000 = Inr (pt_Id (sp_Partitions space' ! 1))"
proof -
  obtain space' w' where run: "expandPartitions demo_env (empty_space\<lparr>sp_DBId := 1, sp_ReplicaNum := 1\<rparr>) 2 demo_world = (Inr space', w')"
    using not_isl_run [OF demo_expanded] by blast
  have "length (sp_Partitions space') = unat (2 :: 32 word) \<and> slots_ok (sp_Partitions space') \<and>
    (\<forall>h. PartitionId space' h = Inr (pt_Id (sp_Partitions space' ! min (unat (2 :: 32 word) - 1) (nat (uint h div (4294967295 div uint (2 :: 32 word)))))))"
    using expandPartitions_routes [OF run] by (simp add: empty_space_def)
  then show ?thesis using run by simp
qed


theorem dropping_last_range_panics_witness:
  "\<exists>w'. updateSpacePartitonRule (demo_env\<lparr>en_ks := cluster_keys ''c''\<rparr>) (Some ''r'') ''DROP'' None
     (empty_space\<lparr>sp_PartitionRule := Some \<lparr> pr_Type = ''RANGE'', pr_Field = ''f'', pr_Partitions = 1, pr_Ranges = [\<lparr> rg_Name = ''r'', rg_Value = ''1'' \<rparr>] \<rparr>,
        sp_Partitions := [new_partition 5 ''r'' 0 0 0]\<rparr>)
     \<lparr> kv = [(PartitionKey (cluster_keys ''c'') 5, ''p'')], faults = [] \<rparr> = (Inl (GoPanic ''integer divide by zero''), w') \<and>
    map_of (kv w') (PartitionKey (cluster_keys ''c'') 5) = None"
proof -
  let ?en = "demo_env\<lparr>en_ks := cluster_keys ''c''\<rparr>" and ?w = "\<lparr> kv = [(PartitionKey (cluster_keys ''c'') 5, ''p'')], faults = [] \<rparr>"
  let ?space = "empty_space\<lparr>sp_PartitionRule := Some \<lparr> pr_Type = ''RANGE'', pr_Field = ''f'', pr_Partitions = 1, pr_Ranges = [\<lparr> rg_Name = ''r'', rg_Value = ''1'' \<rparr>] \<rparr>,
        sp_Partitions := [new_partition 5 ''r'' 0 0 0]\<rparr>"
  have en: "en_ks ?en = cluster_keys ''c''" by simp
  have rule: "sp_PartitionRule ?space = Some \<lparr> pr_Type = ''RANGE'', pr_Field = ''f'', pr_Partitions = 1, pr_Ranges = [\<lparr> rg_Name = ''r'', rg_Value = ''1'' \<rparr>] \<rparr>"
    by simp
  have "\<exists>w'. updateSpacePartitonRule ?en (Some ''r'') ''DROP'' None ?space ?w = (Inl (GoPanic ''integer divide by zero''), w') \<and>
    (\<forall>p \<in> set (sp_Partitions ?space). map_of (kv w') (PartitionKey (en_ks ?en) (pt_Id p)) = None) \<and>
    (\<forall>d s. map_of (kv w') (SpaceKey (en_ks ?en) d s) = map_of (kv ?w) (SpaceKey (en_ks ?en) d s))"
    by (rule dropping_last_range_panics [OF _ en rule]) (simp_all add: calm_def demo_env_def new_partition_def)
  then show ?thesis by (auto simp: new_partition_def)
qed

theorem update_without_fields_fails_witness:
  "\<exists>e w'. UpdateSpace (demo_env\<lparr>en_js := demo_js\<lparr>js_fields := (\<lambda>_ _. Inl (GoErr ''unexpected end of JSON input''))\<rparr>\<rparr>) demo_arrays
     ''db'' ''s'' (empty_space\<lparr>sp_Name := ''t''\<rparr>) None [] demo_world = (Inl e, w') \<and> kv w' = kv demo_world"
  by (rule update_without_fields_fails) (simp_all add: demo_js_def empty_space_def)

end
