(* ===== verification/IndexService.thy ===== *)
theory IndexService
  imports SpaceUpdate
begin

text \<open>
  Adding and removing indexes of a space: \<^verbatim>\<open>AddIndexes\<close>, \<^verbatim>\<open>RemoveIndex\<close> and what they call
  in \<^verbatim>\<open>internal/master/services/space_service.go\<close>.

  These operations change two things that can come apart: the record of the space in the store, and the
  indexes that the partition servers hold. The state is therefore a pair of the \<open>world\<close> and the state
  \<open>'e\<close> of the partition servers, which the calls \<open>ie_change\<close> (\<^verbatim>\<open>client.PartitionIndexChange\<close>) change in an
  unknown way.

  A change is sent to all partitions by one goroutine each. The code returns at the first error it
  receives, while other goroutines may still be on their way: \<open>ie_late\<close> says how many of them, and they do
  their work when the operation is over. When there is no error the code waits for all of them.
\<close>

section \<open>The state\<close>

type_synonym 'e sys = "world \<times> 'e"

definition onW :: "(world, 'a) act \<Rightarrow> ('e sys, 'a) act" where
  "onW a s = (case a (fst s) of (r, w) \<Rightarrow> (r, (w, snd s)))"

datatype IndexChange = ADD_INDEX string | REMOVE_INDEX string

record 'e index_env =
  ie_env :: space_env
  ie_marshal :: "Index option list \<Rightarrow> string res"
  ie_fields :: "string \<Rightarrow> (Field list) res"
  ie_encode :: "Field list \<Rightarrow> string res"
  ie_change :: "string \<Rightarrow> 32 word \<Rightarrow> IndexChange \<Rightarrow> ('e sys, unit) act"
  ie_late :: "IndexChange \<Rightarrow> nat"

definition lockedS :: "('e sys, 'a) act \<Rightarrow> ('e sys, 'a) act" where
  "lockedS body s =
     (case onW lock_call s of
        (Inl e, s') \<Rightarrow> (Inl e, s')
      | (Inr _, s') \<Rightarrow> (case body s' of (r, s'') \<Rightarrow> (r, snd (onW noop s''))))"

text \<open>The part of \<^verbatim>\<open>loadLockedSpace\<close> that runs under the lock.\<close>

definition load_space :: "space_env \<Rightarrow> string \<Rightarrow> string \<Rightarrow> (world, Space) act" where
  "load_space en dbName spaceName =
     caseA (QueryDBName2ID (en_ks en) (en_cl en) dbName)
       (\<lambda>e. fail (param_err ''failed to find database id''))
       (\<lambda>databaseID.
     caseA (QuerySpaceByName (en_ks en) (en_sc en) databaseID spaceName)
       (\<lambda>e. fail (param_err ''failed to find space'')) ret)"

definition loadLockedSpace :: "'e index_env \<Rightarrow> string \<Rightarrow> string \<Rightarrow> (Space \<Rightarrow> ('e sys, 'a) act) \<Rightarrow> ('e sys, 'a) act" where
  "loadLockedSpace ie dbName spaceName body =
     lockedS (bindA (onW (load_space (ie_env ie) dbName spaceName)) body)"

section \<open>Telling the partitions\<close>

definition change_on :: "'e index_env \<Rightarrow> IndexChange \<Rightarrow> Partition \<Rightarrow> ('e sys, unit) act" where
  "change_on ie ic p =
     (let en = ie_env ie in
      bindA (onW (QueryPartition (en_ks en) (en_pc en) (pt_Id p))) (\<lambda>info.
      bindA (onW (QueryServer (en_ks en) (en_vc en) (pt_LeaderID info))) (\<lambda>server.
      bindA (lift (guard (\<not> en_live en 0 (RpcAddr (en_cl en) server))
               (NewError PARTITION_IS_CLOSED (Some (GoErr ''partition is shutdown''))))) (\<lambda>_.
      ie_change ie (RpcAddr (en_cl en) server) (pt_Id p) ic))))"

text \<open>The result, the partitions whose goroutine is still running, and the state.\<close>

definition notifyPartitionsIndexChange ::
  "'e index_env \<Rightarrow> Space \<Rightarrow> IndexChange \<Rightarrow> 'e sys \<Rightarrow> unit res \<times> Partition list \<times> 'e sys" where
  "notifyPartitionsIndexChange ie space ic s =
     (let ps = sp_Partitions space; n = length ps - ie_late ie ic in
      case parallelA (change_on ie ic) (take n ps) s of
        (Inl e, s') \<Rightarrow> (Inl e, drop n ps, s')
      | (Inr _, s') \<Rightarrow> (case parallelA (change_on ie ic) (drop n ps) s' of (r, s'') \<Rightarrow> (r, [], s'')))"

definition stragglers :: "'e index_env \<Rightarrow> IndexChange \<Rightarrow> Partition list \<Rightarrow> 'e sys \<Rightarrow> 'e sys" where
  "stragglers ie ic ps s = snd (parallelA (change_on ie ic) ps s)"

definition compensateIndexChange :: "'e index_env \<Rightarrow> Space \<Rightarrow> IndexChange \<Rightarrow> 'e sys \<Rightarrow> 'e sys" where
  "compensateIndexChange ie space reverse s =
     (case notifyPartitionsIndexChange ie space reverse s of (_, late, s') \<Rightarrow> stragglers ie reverse late s')"

section \<open>Adding indexes\<close>

fun compositeFieldKey :: "string list \<Rightarrow> string" where
  "compositeFieldKey [] = []"
| "compositeFieldKey [f] = f"
| "compositeFieldKey (f # g # fs) = f @ CHR 0x00 # compositeFieldKey (g # fs)"

text \<open>What is known of the indexes met so far: names, fields with an index of their own, composites.\<close>

record known =
  kn_names :: "string list"
  kn_fields :: "string list"
  kn_composites :: "string list"

fun known_indexes :: "Index option list \<Rightarrow> known \<Rightarrow> known res" where
  "known_indexes [] k = Inr k"
| "known_indexes (None # ixs) k = Inl (GoPanic ''nil pointer dereference'')"
| "known_indexes (Some idx # ixs) k =
     known_indexes ixs
       (let k' = k\<lparr>kn_names := ix_Name idx # kn_names k\<rparr> in
        if ix_Type idx = CompositeIndexType
        then k'\<lparr>kn_composites := compositeFieldKey (ix_FieldNames idx) # kn_composites k\<rparr>
        else k'\<lparr>kn_fields := ix_FieldName idx # kn_fields k\<rparr>)"

fun check_new :: "Index option list \<Rightarrow> known \<Rightarrow> unit res" where
  "check_new [] k = Inr ()"
| "check_new (None # ixs) k = Inl (param_err ''index entry cannot be nil'')"
| "check_new (Some idx # ixs) k =
     bind_res (guard (ix_Name idx = []) (param_err ''index name cannot be empty'')) (\<lambda>_.
     bind_res (guard (ix_Name idx \<in> set (kn_names k)) (param_err ''index name already exists'')) (\<lambda>_.
     let k' = k\<lparr>kn_names := ix_Name idx # kn_names k\<rparr> in
     if ix_Type idx = CompositeIndexType then
       if length (ix_FieldNames idx) > 0 then
         let key = compositeFieldKey (ix_FieldNames idx) in
         bind_res (guard (key \<in> set (kn_composites k)) (param_err ''fields are already indexed by composite index'')) (\<lambda>_.
         check_new ixs (k'\<lparr>kn_composites := key # kn_composites k\<rparr>))
       else check_new ixs k'
     else if ix_FieldName idx \<noteq> [] then
       bind_res (guard (ix_FieldName idx \<in> set (kn_fields k)) (param_err ''field is already indexed'')) (\<lambda>_.
       check_new ixs (k'\<lparr>kn_fields := ix_FieldName idx # kn_fields k\<rparr>))
     else check_new ixs k'))"

definition merged_indexes :: "schema_json \<Rightarrow> Space \<Rightarrow> Index option list \<Rightarrow> (Index option list) res" where
  "merged_indexes js space newIndexes =
     bind_res (known_indexes (sp_Indexes space) \<lparr> kn_names = [], kn_fields = [], kn_composites = [] \<rparr>) (\<lambda>k.
     bind_res (check_new newIndexes k) (\<lambda>_.
     bind_res (UnmarshalPropertyJSON js (sp_Fields space)) (\<lambda>props.
     let merged = sp_Indexes space @ newIndexes in
     bind_res (ValidateIndexes merged props) (\<lambda>_. Inr merged))))"

definition compensateAdd :: "'e index_env \<Rightarrow> Space \<Rightarrow> Index option list \<Rightarrow> 'e sys \<Rightarrow> 'e sys" where
  "compensateAdd ie space newIndexes =
     fold (\<lambda>idx s. case idx of
         None \<Rightarrow> s
       | Some i \<Rightarrow> if ix_Name i = [] then s else compensateIndexChange ie space (REMOVE_INDEX (ix_Name i)) s) newIndexes"

definition ship_add :: "'e index_env \<Rightarrow> Space \<Rightarrow> Index option list \<Rightarrow> string \<Rightarrow> Space \<Rightarrow> ('e sys, Space) act" where
  "ship_add ie space newIndexes addBytes space1 s =
     (case notifyPartitionsIndexChange ie space1 (ADD_INDEX addBytes) s of
        (Inl e, late, s') \<Rightarrow> (Inl e, stragglers ie (ADD_INDEX addBytes) late (compensateAdd ie space newIndexes s'))
      | (Inr _, _, s') \<Rightarrow>
          (case onW (UpdateSpaceData (ie_env ie) space1) s' of
             (Inl e, s'') \<Rightarrow> (Inl e, compensateAdd ie space newIndexes s'')
           | (Inr space2, s'') \<Rightarrow> (Inr space2, s'')))"

definition AddIndexes :: "'e index_env \<Rightarrow> string \<Rightarrow> string \<Rightarrow> Index option list \<Rightarrow> ('e sys, Space) act" where
  "AddIndexes ie dbName spaceName newIndexes =
     (if length newIndexes = 0 then fail (param_err ''indexes cannot be empty'')
      else loadLockedSpace ie dbName spaceName (\<lambda>space.
        bindA (lift (merged_indexes (en_js (ie_env ie)) space newIndexes)) (\<lambda>merged.
        bindA (lift (ie_marshal ie newIndexes)) (\<lambda>addBytes.
        ship_add ie space newIndexes addBytes (space\<lparr>sp_Indexes := merged\<rparr>)))))"

section \<open>Removing an index\<close>

definition inlineIndexMatches :: "Index option \<Rightarrow> Index option \<Rightarrow> bool" where
  "inlineIndexMatches inline removed =
     (case (inline, removed) of
        (Some i, Some r) \<Rightarrow> if ix_Name i \<noteq> [] \<and> ix_Name r \<noteq> [] then ix_Name i = ix_Name r else ix_Type i = ix_Type r
      | _ \<Rightarrow> False)"

definition clear_inline :: "Index \<Rightarrow> Field \<Rightarrow> Field" where
  "clear_inline removed f =
     (if fl_Name f = ix_FieldName removed \<and> inlineIndexMatches (fl_Index f) (Some removed) then f\<lparr>fl_Index := None\<rparr> else f)"

definition clearFieldInlineIndex :: "'e index_env \<Rightarrow> string \<Rightarrow> Index option \<Rightarrow> string \<times> bool" where
  "clearFieldInlineIndex ie bs removed =
     (case removed of
        None \<Rightarrow> (bs, False)
      | Some r \<Rightarrow>
          if length bs = 0 then (bs, False)
          else case ie_fields ie bs of
            Inl _ \<Rightarrow> (bs, False)
          | Inr parsed \<Rightarrow>
              if \<exists>f \<in> set parsed. fl_Name f = ix_FieldName r \<and> inlineIndexMatches (fl_Index f) (Some r)
              then (case ie_encode ie (map (clear_inline r) parsed) of Inl _ \<Rightarrow> (bs, False) | Inr out \<Rightarrow> (out, True))
              else (bs, False))"

fun find_index :: "string \<Rightarrow> Index option list \<Rightarrow> nat option" where
  "find_index name [] = None"
| "find_index name (ix # ixs) =
     (case ix of
        Some i \<Rightarrow> if ix_Name i = name then Some 0 else map_option Suc (find_index name ixs)
      | None \<Rightarrow> map_option Suc (find_index name ixs))"

definition clear_property :: "Index \<Rightarrow> (string, SpaceProperties) gomap \<Rightarrow> (string, SpaceProperties) gomap" where
  "clear_property removed props =
     (case map_of props (ix_FieldName removed) of
        None \<Rightarrow> props
      | Some prop \<Rightarrow> if inlineIndexMatches (fp_Index prop) (Some removed)
          then AList.update (ix_FieldName removed) (prop\<lparr>fp_Index := None, fp_Option := FO_Null\<rparr>) props else props)"

definition without_index :: "'e index_env \<Rightarrow> Space \<Rightarrow> nat \<Rightarrow> Space" where
  "without_index ie space found =
     (let removed = sp_Indexes space ! found;
          space1 = space\<lparr>sp_Indexes := take found (sp_Indexes space) @ drop (Suc found) (sp_Indexes space)\<rparr> in
      case removed of
        None \<Rightarrow> space1
      | Some r \<Rightarrow>
          if ix_Type r \<noteq> CompositeIndexType \<and> ix_FieldName r \<noteq> [] then
            space1\<lparr>sp_Fields := fst (clearFieldInlineIndex ie (sp_Fields space) removed),
              sp_SpaceProperties := clear_property r (sp_SpaceProperties space)\<rparr>
          else space1)"

definition compensateRemove :: "'e index_env \<Rightarrow> Space \<Rightarrow> Index option \<Rightarrow> 'e sys \<Rightarrow> 'e sys" where
  "compensateRemove ie space removed s =
     (case ie_marshal ie [removed] of
        Inl _ \<Rightarrow> s
      | Inr addBytes \<Rightarrow> compensateIndexChange ie space (ADD_INDEX addBytes) s)"

definition ship_remove :: "'e index_env \<Rightarrow> Space \<Rightarrow> nat \<Rightarrow> string \<Rightarrow> ('e sys, Space) act" where
  "ship_remove ie space found indexName s =
     (let space1 = without_index ie space found; removed = sp_Indexes space ! found in
      case notifyPartitionsIndexChange ie space1 (REMOVE_INDEX indexName) s of
        (Inl e, late, s') \<Rightarrow> (Inl e, stragglers ie (REMOVE_INDEX indexName) late (compensateRemove ie space removed s'))
      | (Inr _, _, s') \<Rightarrow>
          (case onW (UpdateSpaceData (ie_env ie) space1) s' of
             (Inl e, s'') \<Rightarrow> (Inl e, compensateRemove ie space removed s'')
           | (Inr space2, s'') \<Rightarrow> (Inr space2, s'')))"

definition RemoveIndex :: "'e index_env \<Rightarrow> string \<Rightarrow> string \<Rightarrow> string \<Rightarrow> ('e sys, Space) act" where
  "RemoveIndex ie dbName spaceName indexName =
     (if indexName = [] then fail (param_err ''index name cannot be empty'')
      else loadLockedSpace ie dbName spaceName (\<lambda>space.
        case find_index indexName (sp_Indexes space) of
          None \<Rightarrow> fail (param_err ''index not found in space'')
        | Some found \<Rightarrow> ship_remove ie space found indexName))"

section \<open>The rules of an index list\<close>

definition index_names :: "Index list \<Rightarrow> string list" where
  "index_names us = map ix_Name us"

definition single_fields :: "Index list \<Rightarrow> string list" where
  "single_fields us = map ix_FieldName (filter (\<lambda>i. ix_Type i \<noteq> CompositeIndexType) us)"

definition composite_keys :: "Index list \<Rightarrow> string list" where
  "composite_keys us = map (\<lambda>i. compositeFieldKey (ix_FieldNames i)) (filter (\<lambda>i. ix_Type i = CompositeIndexType) us)"

lemmas index_list_defs = index_names_def single_fields_def composite_keys_def

definition indexes_ok :: "Index option list \<Rightarrow> bool" where
  "indexes_ok ixs \<longleftrightarrow> (\<exists>us. ixs = map Some us \<and> distinct (index_names us) \<and> distinct (single_fields us) \<and> distinct (composite_keys us))"

lemma known_indexes_Inr:
  assumes "known_indexes ixs k = Inr k'"
  shows "\<exists>us. ixs = map Some us \<and> set (kn_names k') = set (index_names us) \<union> set (kn_names k) \<and>
    set (kn_fields k') = set (single_fields us) \<union> set (kn_fields k) \<and>
    set (kn_composites k') = set (composite_keys us) \<union> set (kn_composites k)"
  using assms
proof (induction ixs k rule: known_indexes.induct)
  case (1 k)
  then show ?case by (simp add: index_list_defs)
next
  case (3 idx ixs k)
  from 3 obtain us where us: "ixs = map Some us"
    "set (kn_names k') = set (index_names us) \<union> insert (ix_Name idx) (set (kn_names k))"
    "set (kn_fields k') = set (single_fields us) \<union> (if ix_Type idx = CompositeIndexType then {} else {ix_FieldName idx}) \<union> set (kn_fields k)"
    "set (kn_composites k') = set (composite_keys us) \<union>
       (if ix_Type idx = CompositeIndexType then {compositeFieldKey (ix_FieldNames idx)} else {}) \<union> set (kn_composites k)"
    by (auto simp: Let_def split: if_splits)
  then show ?case by (intro exI [of _ "idx # us"]) (auto simp: index_list_defs)
qed simp

lemma check_new_Inr:
  assumes "check_new (map Some us) k = Inr ()" and "list_all (index_ok props) us"
  shows "distinct (index_names us) \<and> set (index_names us) \<inter> set (kn_names k) = {} \<and>
    distinct (single_fields us) \<and> set (single_fields us) \<inter> set (kn_fields k) = {} \<and>
    distinct (composite_keys us) \<and> set (composite_keys us) \<inter> set (kn_composites k) = {}"
  using assms
proof (induction us arbitrary: k)
  case (Cons u us)
  let ?k = "k\<lparr>kn_names := ix_Name u # kn_names k\<rparr>"
  have u: "index_ok props u" and us: "list_all (index_ok props) us" using Cons.prems(2) by simp_all
  show ?case
  proof (cases "ix_Type u = CompositeIndexType")
    case True
    then have "length (ix_FieldNames u) > 0" using u by (auto simp: index_ok_def)
    then have "check_new (map Some us) (?k\<lparr>kn_composites := compositeFieldKey (ix_FieldNames u) # kn_composites k\<rparr>) = Inr ()"
      "ix_Name u \<notin> set (kn_names k)" "compositeFieldKey (ix_FieldNames u) \<notin> set (kn_composites k)"
      using Cons.prems(1) True by (auto simp: Let_def bind_res_Inr_iff guard_def split: if_splits)
    with Cons.IH [OF this(1) us] True show ?thesis by (auto simp: index_list_defs)
  next
    case False
    then have "ix_FieldName u \<noteq> []" using u by (auto simp: index_ok_def)
    then have "check_new (map Some us) (?k\<lparr>kn_fields := ix_FieldName u # kn_fields k\<rparr>) = Inr ()"
      "ix_Name u \<notin> set (kn_names k)" "ix_FieldName u \<notin> set (kn_fields k)"
      using Cons.prems(1) False by (auto simp: Let_def bind_res_Inr_iff guard_def split: if_splits)
    with Cons.IH [OF this(1) us] False show ?thesis by (auto simp: index_list_defs)
  qed
qed (simp add: index_list_defs)

lemma merged_indexes_Inr:
  assumes "merged_indexes js space newIndexes = Inr merged"
  shows "merged = sp_Indexes space @ newIndexes" and "\<exists>us. newIndexes = map Some us \<and> (\<forall>u \<in> set us. ix_Name u \<noteq> [])"
    and "indexes_ok (sp_Indexes space) \<Longrightarrow> indexes_ok merged"
proof -
  obtain k props where k: "known_indexes (sp_Indexes space) \<lparr> kn_names = [], kn_fields = [], kn_composites = [] \<rparr> = Inr k"
      "check_new newIndexes k = Inr ()" "ValidateIndexes (sp_Indexes space @ newIndexes) props = Inr ()" "merged = sp_Indexes space @ newIndexes"
    using assms by (auto simp: merged_indexes_def Let_def bind_res_Inr_iff)
  then show "merged = sp_Indexes space @ newIndexes" by simp
  obtain ws where ws: "sp_Indexes space @ newIndexes = map Some ws" "list_all (index_ok props) ws"
    using k(3) by (auto simp: ValidateIndexes_def validate_indexes_loop_Inr_iff)
  define us where "us = drop (length (sp_Indexes space)) ws"
  define vs where "vs = take (length (sp_Indexes space)) ws"
  have us: "newIndexes = map Some us" "sp_Indexes space = map Some vs" "list_all (index_ok props) us"
    using ws by (auto simp: us_def vs_def append_eq_conv_conj take_map drop_map list_all_iff dest: in_set_dropD)
  then show "\<exists>us. newIndexes = map Some us \<and> (\<forall>u \<in> set us. ix_Name u \<noteq> [])"
    by (intro exI [of _ us]) (auto simp: list_all_iff index_ok_def)
  assume "indexes_ok (sp_Indexes space)"
  then have vs: "distinct (index_names vs)" "distinct (single_fields vs)" "distinct (composite_keys vs)"
    using us(2) by (auto simp: indexes_ok_def inj_map_eq_map)
  have kn: "set (kn_names k) = set (index_names vs)" "set (kn_fields k) = set (single_fields vs)" "set (kn_composites k) = set (composite_keys vs)"
    using known_indexes_Inr [OF k(1)] us(2) by (auto simp: inj_map_eq_map)
  note new = check_new_Inr [OF k(2) [unfolded us(1)] us(3)]
  have "distinct (index_names (vs @ us)) \<and> distinct (single_fields (vs @ us)) \<and> distinct (composite_keys (vs @ us))"
    using vs new kn by (auto simp: index_list_defs)
  then show "indexes_ok merged" using k(4) us(1,2) unfolding indexes_ok_def by (intro exI [of _ "vs @ us"]) simp
qed

section \<open>Successful runs\<close>

lemma onW_Inr: "onW a s = (Inr x, s') \<longleftrightarrow> (\<exists>w. a (fst s) = (Inr x, w) \<and> s' = (w, snd s))"
  by (auto simp: onW_def split: prod.splits)

lemma lockedS_run:
  assumes "lockedS body s = (r, s')"
  obtains e w where "r = Inl e" and "lock_call (fst s) = (Inl e, w)" and "s' = (w, snd s)"
  | u v where "lock_call (fst s) = (Inr (), fst u)" and "snd u = snd s" and "body u = (r, v)" and "s' = (snd (noop (fst v)), snd v)"
proof (cases "lock_call (fst s)")
  case (Pair x w)
  show thesis
  proof (cases x)
    case (Inl e)
    then show ?thesis using assms Pair that(1) [of e w] by (simp add: lockedS_def onW_def)
  next
    case (Inr y)
    obtain v where "body (w, snd s) = (r, v)" "s' = (snd (noop (fst v)), snd v)"
      using assms Pair Inr by (auto simp: lockedS_def onW_def split: prod.splits)
    then show ?thesis using Pair Inr that(2) [of "(w, snd s)" v] by simp
  qed
qed

lemma loadLockedSpace_Inr:
  assumes "loadLockedSpace ie dbName spaceName body s = (Inr x, s')"
  obtains space u u' v where "load_space (ie_env ie) dbName spaceName u = (Inr space, u')" and "kv u = kv (fst s)"
    and "body space (u', snd s) = (Inr x, v)" and "kv (fst s') = kv (fst v)"
  using assms unfolding loadLockedSpace_def
proof (cases rule: lockedS_run)
  case (2 u v)
  then obtain space u' where "load_space (ie_env ie) dbName spaceName (fst u) = (Inr space, u')" "body space (u', snd u) = (Inr x, v)"
    by (auto simp: bindA_eq_Inr onW_Inr)
  moreover have "kv (fst u) = kv (fst s)" using kv_lock_call [of "fst s"] 2(1) by simp
  ultimately show thesis using that 2(2,4) by simp
qed simp

lemma parallelA_Inr:
  "parallelA f xs s = (Inr (), s') \<Longrightarrow> \<forall>x \<in> set xs. \<exists>u u'. f x u = (Inr (), u')"
proof (induction xs arbitrary: s)
  case (Cons x xs)
  then obtain u where "f x s = (Inr (), u)" "parallelA f xs u = (Inr (), s')"
    by (auto split: prod.splits sum.splits)
  then show ?case using Cons.IH by auto
qed simp

lemma notify_Inr:
  assumes "notifyPartitionsIndexChange ie space ic s = (Inr (), late, s')"
  shows "\<forall>p \<in> set (sp_Partitions space). \<exists>u u'. change_on ie ic p u = (Inr (), u')"
proof -
  let ?n = "length (sp_Partitions space) - ie_late ie ic"
  obtain u where "parallelA (change_on ie ic) (take ?n (sp_Partitions space)) s = (Inr (), u)"
      "parallelA (change_on ie ic) (drop ?n (sp_Partitions space)) u = (Inr (), s')"
    using assms by (auto simp: notifyPartitionsIndexChange_def Let_def split: prod.splits sum.splits)
  then show ?thesis using parallelA_Inr append_take_drop_id [of ?n "sp_Partitions space"] by (metis Un_iff set_append)
qed

definition stored_as :: "space_env \<Rightarrow> Space \<Rightarrow> kvs \<Rightarrow> bool" where
  "stored_as en space m \<longleftrightarrow>
     (\<exists>b. marshal (en_sc en) space = Inr b \<and> map_of m (SpaceKey (en_ks en) (sp_DBId space) (sp_Id space)) = Some b)"

lemma shipped:
  assumes "(case notifyPartitionsIndexChange ie space1 ic s of
        (Inl e, late, s') \<Rightarrow> (Inl e, f late s')
      | (Inr _, _, s') \<Rightarrow>
          (case onW (UpdateSpaceData (ie_env ie) space1) s' of
             (Inl e, s'') \<Rightarrow> (Inl e, g s'')
           | (Inr space2, s'') \<Rightarrow> (Inr space2, s''))) = (Inr space', t)"
  shows "space' = saved_space space1" and "stored_as (ie_env ie) space' (kv (fst t))"
    and "\<forall>p \<in> set (sp_Partitions space1). \<exists>u u'. change_on ie ic p u = (Inr (), u')"
proof -
  obtain late s1 w where n: "notifyPartitionsIndexChange ie space1 ic s = (Inr (), late, s1)"
      "UpdateSpaceData (ie_env ie) space1 (fst s1) = (Inr space', w)" "t = (w, snd s1)"
    using assms by (auto simp: onW_Inr split: prod.splits sum.splits)
  then show "\<forall>p \<in> set (sp_Partitions space1). \<exists>u u'. change_on ie ic p u = (Inr (), u')" by (intro notify_Inr)
  show "space' = saved_space space1" by (rule UpdateSpaceData_Inr(1) [OF n(2)])
  then show "stored_as (ie_env ie) space' (kv (fst t))"
    using UpdateSpaceData_Inr(2) [OF n(2)] n(3) by (simp add: stored_as_def saved_space_def)
qed

lemma find_index_Some:
  "find_index name ixs = Some n \<Longrightarrow> n < length ixs \<and> (\<exists>i. ixs ! n = Some i \<and> ix_Name i = name)"
proof (induction ixs arbitrary: n)
  case (Cons ix ixs)
  then show ?case by (cases n) (fastforce split: option.splits if_splits)+
qed simp

section \<open>Properties\<close>

text \<open>
  C29: adding indexes keeps the rules of the index list. If \<^verbatim>\<open>AddIndexes\<close> reports success, whatever calls
  fail, every partition has confirmed the change, and the stored space lists the old indexes followed by
  the new ones. If the old list had distinct names, at most one single-field index per field and no two
  composite indexes over the same columns in the same order, so has the new one.
\<close>

theorem AddIndexes_keeps_rules:
  assumes "AddIndexes ie dbName spaceName newIndexes s = (Inr space', s')"
  shows "\<exists>space u u' bytes. load_space (ie_env ie) dbName spaceName u = (Inr space, u') \<and> kv u = kv (fst s) \<and>
    sp_Indexes space' = sp_Indexes space @ newIndexes \<and> sp_Version space' = sp_Version space + 1 \<and>
    (indexes_ok (sp_Indexes space) \<longrightarrow> indexes_ok (sp_Indexes space')) \<and>
    stored_as (ie_env ie) space' (kv (fst s')) \<and> ie_marshal ie newIndexes = Inr bytes \<and>
    (\<forall>p \<in> set (sp_Partitions space). \<exists>u u'. change_on ie (ADD_INDEX bytes) p u = (Inr (), u'))"
proof -
  obtain space u u' v where load: "load_space (ie_env ie) dbName spaceName u = (Inr space, u')" "kv u = kv (fst s)"
    and body: "bindA (lift (merged_indexes (en_js (ie_env ie)) space newIndexes)) (\<lambda>merged.
        bindA (lift (ie_marshal ie newIndexes)) (\<lambda>addBytes.
        ship_add ie space newIndexes addBytes (space\<lparr>sp_Indexes := merged\<rparr>))) (u', snd s) = (Inr space', v)"
    and kv: "kv (fst s') = kv (fst v)"
    using assms by (auto simp: AddIndexes_def split: if_splits elim!: loadLockedSpace_Inr)
  obtain merged bytes where m: "merged_indexes (en_js (ie_env ie)) space newIndexes = Inr merged"
      and b: "ie_marshal ie newIndexes = Inr bytes"
      and ship: "ship_add ie space newIndexes bytes (space\<lparr>sp_Indexes := merged\<rparr>) (u', snd s) = (Inr space', v)"
    using body by (auto simp: bindA_eq_Inr)
  note fin = shipped [OF ship [unfolded ship_add_def]]
  show ?thesis
    by (rule exI [of _ space], rule exI [of _ u], rule exI [of _ u'], rule exI [of _ bytes])
      (use load b fin merged_indexes_Inr [OF m] kv in \<open>auto simp: saved_space_def\<close>)
qed

lemma indexes_ok_remove:
  assumes "indexes_ok ixs" and "n < length ixs" and "ixs ! n = Some r"
  shows "indexes_ok (take n ixs @ drop (Suc n) ixs)"
    and "Some i \<in> set (take n ixs @ drop (Suc n) ixs) \<Longrightarrow> ix_Name i \<noteq> ix_Name r"
proof -
  obtain us where us: "ixs = map Some us" "distinct (index_names us)" "distinct (single_fields us)" "distinct (composite_keys us)"
    using assms(1) by (auto simp: indexes_ok_def)
  define vs ws where "vs = take n us" and "ws = drop (Suc n) us"
  have split: "us = vs @ r # ws" using assms(2,3) us(1) id_take_nth_drop [of n us] by (simp add: vs_def ws_def)
  have eq: "take n ixs @ drop (Suc n) ixs = map Some (vs @ ws)" by (simp add: us(1) vs_def ws_def take_map drop_map)
  have "distinct (index_names (vs @ ws)) \<and> distinct (single_fields (vs @ ws)) \<and> distinct (composite_keys (vs @ ws))"
    using us(2-4) unfolding split by (auto simp: index_list_defs split: if_splits)
  then show "indexes_ok (take n ixs @ drop (Suc n) ixs)" unfolding eq indexes_ok_def by blast
  show "ix_Name i \<noteq> ix_Name r" if "Some i \<in> set (take n ixs @ drop (Suc n) ixs)"
  proof -
    have "ix_Name r \<notin> ix_Name ` set (vs @ ws)" using us(2) unfolding split by (simp add: index_list_defs image_Un)
    moreover have "i \<in> set (vs @ ws)" using that unfolding eq by auto
    ultimately show ?thesis by (metis imageI)
  qed
qed

lemma inlineIndexMatches_None [simp]: "\<not> inlineIndexMatches None r"
  by (simp add: inlineIndexMatches_def)

lemma cleared_fields:
  assumes "\<forall>bs parsed. ie_fields ie bs = Inr parsed \<longrightarrow> (\<exists>b. ie_encode ie (map (clear_inline r) parsed) = Inr b \<and>
       ie_fields ie b = Inr (map (clear_inline r) parsed))"
    and "bs \<noteq> []" and "ie_fields ie (fst (clearFieldInlineIndex ie bs (Some r))) = Inr fs" and "f \<in> set fs" and "fl_Name f = ix_FieldName r"
  shows "\<not> inlineIndexMatches (fl_Index f) (Some r)"
proof (cases "ie_fields ie bs")
  case (Inl e)
  then show ?thesis using assms(2,3) by (simp add: clearFieldInlineIndex_def)
next
  case (Inr parsed)
  obtain b where b: "ie_encode ie (map (clear_inline r) parsed) = Inr b" "ie_fields ie b = Inr (map (clear_inline r) parsed)"
    using assms(1) Inr by blast
  show ?thesis
  proof (cases "\<exists>f \<in> set parsed. fl_Name f = ix_FieldName r \<and> inlineIndexMatches (fl_Index f) (Some r)")
    case True
    then have "fs = map (clear_inline r) parsed" using assms(2,3) Inr b by (simp add: clearFieldInlineIndex_def)
    then show ?thesis using assms(4,5) by (auto simp: clear_inline_def split: if_splits)
  next
    case False
    then have "fst (clearFieldInlineIndex ie bs (Some r)) = bs" using Inr by (auto simp: clearFieldInlineIndex_def)
    then show ?thesis using False assms(3-5) Inr by auto
  qed
qed

lemma cleared_property:
  "map_of (clear_property r props) (ix_FieldName r) = Some p \<Longrightarrow> \<not> inlineIndexMatches (fp_Index p) (Some r)"
  by (auto simp: clear_property_def update_conv' split: option.splits if_splits)

text \<open>
  C30: a removed index stays removed. If \<^verbatim>\<open>RemoveIndex\<close> reports success, every partition has confirmed the
  removal, and the stored space lists the other indexes in their order, under the same rules; no index
  of that name is left. A single-field index is also gone from the field it was declared in and from the
  property of that field, so that a rebuild from either does not bring it back (when the JSON encoder
  of the fields works and its text decodes to what was encoded).
\<close>

theorem RemoveIndex_stays_removed:
  assumes "RemoveIndex ie dbName spaceName name s = (Inr space', s')"
    and "\<forall>r bs parsed. ie_fields ie bs = Inr parsed \<longrightarrow> (\<exists>b. ie_encode ie (map (clear_inline r) parsed) = Inr b \<and>
       ie_fields ie b = Inr (map (clear_inline r) parsed))"
  shows "\<exists>space u u' n r. load_space (ie_env ie) dbName spaceName u = (Inr space, u') \<and> kv u = kv (fst s) \<and>
    n < length (sp_Indexes space) \<and> sp_Indexes space ! n = Some r \<and> ix_Name r = name \<and>
    sp_Indexes space' = take n (sp_Indexes space) @ drop (Suc n) (sp_Indexes space) \<and>
    (indexes_ok (sp_Indexes space) \<longrightarrow> indexes_ok (sp_Indexes space') \<and> (\<forall>i. Some i \<in> set (sp_Indexes space') \<longrightarrow> ix_Name i \<noteq> name)) \<and>
    stored_as (ie_env ie) space' (kv (fst s')) \<and>
    (\<forall>p \<in> set (sp_Partitions space). \<exists>u u'. change_on ie (REMOVE_INDEX name) p u = (Inr (), u')) \<and>
    (\<forall>fs f. sp_Fields space \<noteq> [] \<and> ix_Type r \<noteq> CompositeIndexType \<and> ix_FieldName r \<noteq> [] \<and>
       ie_fields ie (sp_Fields space') = Inr fs \<and> f \<in> set fs \<and> fl_Name f = ix_FieldName r \<longrightarrow>
       \<not> inlineIndexMatches (fl_Index f) (Some r)) \<and>
    (\<forall>p. ix_Type r \<noteq> CompositeIndexType \<and> ix_FieldName r \<noteq> [] \<and> map_of (sp_SpaceProperties space') (ix_FieldName r) = Some p \<longrightarrow>
       \<not> inlineIndexMatches (fp_Index p) (Some r))"
proof -
  obtain space u u' v where load: "load_space (ie_env ie) dbName spaceName u = (Inr space, u')" "kv u = kv (fst s)"
    and body: "(case find_index name (sp_Indexes space) of
          None \<Rightarrow> fail (param_err ''index not found in space'')
        | Some found \<Rightarrow> ship_remove ie space found name) (u', snd s) = (Inr space', v)"
    and kv: "kv (fst s') = kv (fst v)"
    using assms(1) by (auto simp: RemoveIndex_def split: if_splits elim!: loadLockedSpace_Inr)
  obtain n where n: "find_index name (sp_Indexes space) = Some n" and ship: "ship_remove ie space n name (u', snd s) = (Inr space', v)"
    using body by (auto split: option.splits)
  obtain r where r: "n < length (sp_Indexes space)" "sp_Indexes space ! n = Some r" "ix_Name r = name" using find_index_Some [OF n] by blast
  note fin = shipped [OF ship [unfolded ship_remove_def Let_def]]
  have same: "sp_Partitions (without_index ie space n) = sp_Partitions space"
    "sp_Indexes (without_index ie space n) = take n (sp_Indexes space) @ drop (Suc n) (sp_Indexes space)"
    by (simp_all add: without_index_def Let_def split: option.splits)
  have ixs: "sp_Indexes space' = take n (sp_Indexes space) @ drop (Suc n) (sp_Indexes space)" using fin(1) same by (simp add: saved_space_def)
  have "\<not> inlineIndexMatches (fl_Index f) (Some r)"
    if "sp_Fields space \<noteq> []" "ix_Type r \<noteq> CompositeIndexType" "ix_FieldName r \<noteq> []"
      "ie_fields ie (sp_Fields space') = Inr fs" "f \<in> set fs" "fl_Name f = ix_FieldName r" for fs f
  proof -
    have "sp_Fields space' = fst (clearFieldInlineIndex ie (sp_Fields space) (Some r))"
      using fin(1) r(2) that(2,3) by (simp add: saved_space_def without_index_def)
    then show ?thesis using cleared_fields [OF spec [OF assms(2), of r] that(1) _ that(5,6)] that(4) by simp
  qed
  moreover have "\<not> inlineIndexMatches (fp_Index p) (Some r)"
    if "ix_Type r \<noteq> CompositeIndexType" "ix_FieldName r \<noteq> []" "map_of (sp_SpaceProperties space') (ix_FieldName r) = Some p" for p
  proof -
    have "sp_SpaceProperties space' = clear_property r (sp_SpaceProperties space)"
      using fin(1) r(2) that(1,2) by (simp add: saved_space_def without_index_def)
    then show ?thesis using cleared_property that(3) by simp
  qed
  ultimately show ?thesis
    by (intro exI [of _ space] exI [of _ u] exI [of _ u'] exI [of _ n] exI [of _ r])
      (use load r ixs fin(2,3) same(1) kv indexes_ok_remove [OF _ r(1,2)] in auto)
qed

section \<open>Failed changes\<close>

lemma parallelA_append:
  "parallelA f (xs @ ys) s = (case parallelA f xs s of (r, s') \<Rightarrow> (case parallelA f ys s' of
     (r', s'') \<Rightarrow> ((case r of Inl e \<Rightarrow> Inl e | Inr _ \<Rightarrow> r'), s'')))"
  by (induction xs arbitrary: s) (auto split: prod.splits sum.splits)

text \<open>All goroutines of a compensation get to do their work.\<close>

lemma compensate_all: "compensateIndexChange ie space ic s = snd (parallelA (change_on ie ic) (sp_Partitions space) s)"
proof -
  let ?n = "length (sp_Partitions space) - ie_late ie ic"
  have "snd (parallelA (change_on ie ic) (take ?n (sp_Partitions space) @ drop ?n (sp_Partitions space)) s) = compensateIndexChange ie space ic s"
    unfolding parallelA_append compensateIndexChange_def notifyPartitionsIndexChange_def Let_def stragglers_def
    by (auto split: prod.splits sum.splits)
  then show ?thesis by simp
qed

lemma notify_prompt:
  "ie_late ie ic = 0 \<Longrightarrow> notifyPartitionsIndexChange ie space ic s =
    (case parallelA (change_on ie ic) (sp_Partitions space) s of (r, s') \<Rightarrow> (r, [], s'))"
  by (auto simp: notifyPartitionsIndexChange_def Let_def split: prod.splits sum.splits)

text \<open>The address of the leader of a partition, as the store knows it, when it answers.\<close>

definition leader_addr :: "space_env \<Rightarrow> kvs \<Rightarrow> Partition \<Rightarrow> string option" where
  "leader_addr en m p =
     (case map_of m (PartitionKey (en_ks en) (pt_Id p)) of None \<Rightarrow> None | Some b \<Rightarrow>
      (case unmarshal (en_pc en) zero_partition b of Inl _ \<Rightarrow> None | Inr info \<Rightarrow>
       (case map_of m (ServerKey (en_ks en) (pt_LeaderID info)) of None \<Rightarrow> None | Some c \<Rightarrow>
        (case unmarshal (en_vc en) new_server c of Inl _ \<Rightarrow> None | Inr server \<Rightarrow>
          if en_live en 0 (RpcAddr (en_cl en) server) then Some (RpcAddr (en_cl en) server) else None))))"

lemma change_on_leader:
  assumes "calm w" and "leader_addr (ie_env ie) (kv w) p = Some a"
  shows "change_on ie ic p (w, e) = ie_change ie a (pt_Id p) ic (tick (tick w), e)"
  using assms
  by (auto simp: leader_addr_def change_on_def Let_def bindA_def onW_def QueryPartition_def QueryServer_def calm_simps guard_def
      split: option.splits sum.splits if_splits)

text \<open>
  What the comments of the code say of the partition servers: adding is all or nothing and can be
  repeated, removing works and may be sent to a partition that does not hold the index.
  \<open>held e pid\<close> are the names of the indexes of a partition, \<open>names b\<close> those in the bytes of a change.
\<close>

definition tidy_servers :: "'e index_env \<Rightarrow> ('e \<Rightarrow> 32 word \<Rightarrow> string set) \<Rightarrow> (string \<Rightarrow> string set) \<Rightarrow> bool" where
  "tidy_servers ie held names \<longleftrightarrow>
     (\<forall>a pid b w e. \<exists>r e'. ie_change ie a pid (ADD_INDEX b) (w, e) = (r, (w, e')) \<and>
        (held e' = held e \<or> held e' = (held e)(pid := held e pid \<union> names b))) \<and>
     (\<forall>a pid n w e. \<exists>e'. ie_change ie a pid (REMOVE_INDEX n) (w, e) = (Inr (), (w, e')) \<and>
        held e' = (held e)(pid := held e pid - {n}))"

lemma remove_everywhere:
  assumes "tidy_servers ie held names"
  shows "calm w \<Longrightarrow> \<forall>p \<in> set ps. leader_addr (ie_env ie) (kv w) p \<noteq> None \<Longrightarrow>
    \<exists>w' e'. parallelA (change_on ie (REMOVE_INDEX n)) ps (w, e) = (Inr (), (w', e')) \<and> calm w' \<and> kv w' = kv w \<and>
      (\<forall>q. held e' q = held e q - (if q \<in> pt_Id ` set ps then {n} else {}))"
proof (induction ps arbitrary: w e)
  case (Cons p ps)
  obtain a where a: "leader_addr (ie_env ie) (kv w) p = Some a" using Cons.prems(2) by auto
  obtain e1 where e1: "ie_change ie a (pt_Id p) (REMOVE_INDEX n) (tick (tick w), e) = (Inr (), (tick (tick w), e1))"
      "held e1 = (held e)(pt_Id p := held e (pt_Id p) - {n})"
    using assms unfolding tidy_servers_def by blast
  have "change_on ie (REMOVE_INDEX n) p (w, e) = (Inr (), (tick (tick w), e1))"
    using change_on_leader [OF Cons.prems(1) a] e1(1) by simp
  moreover obtain w' e' where "parallelA (change_on ie (REMOVE_INDEX n)) ps (tick (tick w), e1) = (Inr (), (w', e'))" "calm w'" "kv w' = kv w"
      "\<forall>q. held e' q = held e1 q - (if q \<in> pt_Id ` set ps then {n} else {})"
    using Cons.IH [of "tick (tick w)" e1] Cons.prems by auto
  ultimately show ?case using e1(2) by auto
qed simp

lemma add_everywhere:
  assumes "tidy_servers ie held names"
  shows "calm w \<Longrightarrow> \<forall>p \<in> set ps. leader_addr (ie_env ie) (kv w) p \<noteq> None \<Longrightarrow>
    \<exists>r w' e'. parallelA (change_on ie (ADD_INDEX b)) ps (w, e) = (r, (w', e')) \<and> calm w' \<and> kv w' = kv w \<and>
      (\<forall>q. held e q \<subseteq> held e' q \<and> held e' q \<subseteq> held e q \<union> (if q \<in> pt_Id ` set ps then names b else {}))"
proof (induction ps arbitrary: w e)
  case (Cons p ps)
  obtain a where a: "leader_addr (ie_env ie) (kv w) p = Some a" using Cons.prems(2) by auto
  obtain r1 e1 where e1: "ie_change ie a (pt_Id p) (ADD_INDEX b) (tick (tick w), e) = (r1, (tick (tick w), e1))"
      "held e1 = held e \<or> held e1 = (held e)(pt_Id p := held e (pt_Id p) \<union> names b)"
    using assms unfolding tidy_servers_def by blast
  have run: "change_on ie (ADD_INDEX b) p (w, e) = (r1, (tick (tick w), e1))"
    using change_on_leader [OF Cons.prems(1) a] e1(1) by simp
  obtain r w' e' where "parallelA (change_on ie (ADD_INDEX b)) ps (tick (tick w), e1) = (r, (w', e'))" "calm w'" "kv w' = kv w"
      and held: "\<forall>q. held e1 q \<subseteq> held e' q \<and> held e' q \<subseteq> held e1 q \<union> (if q \<in> pt_Id ` set ps then names b else {})"
    using Cons.IH [of "tick (tick w)" e1] Cons.prems by auto
  moreover have "held e q \<subseteq> held e' q \<and> held e' q \<subseteq> held e q \<union> (if q \<in> pt_Id ` set (p # ps) then names b else {})" for q
    using e1(2) held [rule_format, of q] by (auto split: if_splits)
  ultimately show ?case using run by (cases r1) auto
qed simp

lemma compensateAdd_removes:
  assumes "tidy_servers ie held names" and "\<forall>u \<in> set us. ix_Name u \<noteq> []"
  shows "calm w \<Longrightarrow> \<forall>p \<in> set (sp_Partitions space). leader_addr (ie_env ie) (kv w) p \<noteq> None \<Longrightarrow>
    \<exists>w' e'. compensateAdd ie space (map Some us) (w, e) = (w', e') \<and> calm w' \<and> kv w' = kv w \<and>
      (\<forall>q. held e' q = held e q - (if q \<in> pt_Id ` set (sp_Partitions space) then ix_Name ` set us else {}))"
  using assms(2)
proof (induction us arbitrary: w e)
  case (Cons u us)
  obtain w1 e1 where w1: "parallelA (change_on ie (REMOVE_INDEX (ix_Name u))) (sp_Partitions space) (w, e) = (Inr (), (w1, e1))" "calm w1" "kv w1 = kv w"
      "\<forall>q. held e1 q = held e q - (if q \<in> pt_Id ` set (sp_Partitions space) then {ix_Name u} else {})"
    using remove_everywhere [OF assms(1) Cons.prems(1,2)] by blast
  obtain w' e' where w': "compensateAdd ie space (map Some us) (w1, e1) = (w', e')" "calm w'" "kv w' = kv w1"
      "\<forall>q. held e' q = held e1 q - (if q \<in> pt_Id ` set (sp_Partitions space) then ix_Name ` set us else {})"
    using Cons.IH [OF w1(2), of e1] Cons.prems(2,3) w1(3) by auto
  have "compensateAdd ie space (map Some (u # us)) (w, e) = (w', e')"
    using w'(1) w1(1) Cons.prems(3) by (simp add: compensateAdd_def compensate_all)
  then show ?case using w' w1(3,4) by auto
qed (simp add: compensateAdd_def)

lemma load_space_calm: "calm w \<Longrightarrow> \<exists>r. load_space en dbName spaceName w = (r, tick w) \<or> load_space en dbName spaceName w = (r, tick (tick w))"
  by (auto simp: load_space_def caseA_def QueryDBName2ID_def QuerySpaceByName_def QuerySpaces_def QuerySpacesByKey_def bindA_def calm_simps
      split: option.splits sum.splits prod.splits)

lemma ship_add_undone:
  assumes "tidy_servers ie held names" and "ie_late ie (ADD_INDEX b) = 0" and "\<forall>u \<in> set us. ix_Name u \<noteq> []"
    and "names b = ix_Name ` set us" and "calm w" and "sp_Partitions space1 = sp_Partitions space"
    and "\<forall>p \<in> set (sp_Partitions space). leader_addr (ie_env ie) (kv w) p \<noteq> None \<and> held e (pt_Id p) \<inter> names b = {}"
    and "ship_add ie space (map Some us) b space1 (w, e) = (Inl err, (w', e'))"
  shows "held e' = held e \<and> kv w' = kv w \<and> calm w'"
proof -
  obtain r w1 e1 where add: "parallelA (change_on ie (ADD_INDEX b)) (sp_Partitions space) (w, e) = (r, (w1, e1))" "calm w1" "kv w1 = kv w"
      "\<forall>q. held e q \<subseteq> held e1 q \<and> held e1 q \<subseteq> held e q \<union> (if q \<in> pt_Id ` set (sp_Partitions space) then names b else {})"
    using add_everywhere [OF assms(1,5)] assms(7) by blast
  have undone: "held e3 = held e \<and> kv w3 = kv w \<and> calm w3"
    if w2: "calm w2" "kv w2 = kv w" and comp: "compensateAdd ie space (map Some us) (w2, e1) = (w3, e3)" for w2 w3 e3
  proof -
    have r: "calm w3" "kv w3 = kv w2" "\<forall>q. held e3 q = held e1 q - (if q \<in> pt_Id ` set (sp_Partitions space) then ix_Name ` set us else {})"
      using compensateAdd_removes [OF assms(1,3) w2(1), of space e1] assms(7) w2(2) comp by auto
    have "held e3 q = held e q" for q
      using r(3) [rule_format, of q] add(4) [rule_format, of q] assms(4,7) by (auto split: if_splits)
    then show ?thesis using r w2(2) by auto
  qed
  note n = notify_prompt [OF assms(2), of space1 "(w, e)", unfolded assms(6) add(1)]
  show ?thesis
  proof (cases r)
    case (Inl err)
    then have "compensateAdd ie space (map Some us) (w1, e1) = (w', e')"
      using assms(8) n by (simp add: ship_add_def stragglers_def)
    then show ?thesis using undone add(2,3) by blast
  next
    case (Inr u)
    obtain r2 w2 where up: "UpdateSpaceData (ie_env ie) space1 w1 = (r2, w2)" by force
    then have "\<exists>err. r2 = Inl err" and comp: "compensateAdd ie space (map Some us) (w2, e1) = (w', e')"
      using assms(8) n Inr by (auto simp: ship_add_def onW_def split: sum.splits)
    then have "calm w2 \<and> kv w2 = kv w"
      using up add(2,3) by (auto simp: UpdateSpaceData_def Let_def bindA_def Update_def etcd_calm split: sum.splits)
    then show ?thesis using undone comp by blast
  qed
qed


section \<open>Two partitions, one of which refuses\<close>

definition demo_new_index :: Index where
  "demo_new_index = \<lparr> ix_Name = ''i'', ix_Type = ''SCALAR'', ix_FieldName = ''k'', ix_FieldNames = [], ix_Params = [] \<rparr>"

text \<open>The text of the space tells only whether the index is there.\<close>

definition demo_p :: "32 word \<Rightarrow> Partition" where
  "demo_p i = new_partition i [] 0 1 0"

definition demo_two :: "string \<Rightarrow> Space" where
  "demo_two v = empty_space\<lparr>sp_Name := ''s'', sp_DBId := 1, sp_Partitions := [demo_p 1, demo_p 2],
     sp_Indexes := (if v = ''s'' then [] else [Some demo_new_index]), sp_Fields := (if v = ''s'' then ''plain'' else ''idx'')\<rparr>"

definition demo_two_codec :: "Space codec" where
  "demo_two_codec =
     \<lparr> marshal = (\<lambda>s. Inr (if sp_Indexes s = [] then ''s'' else ''t'')), unmarshal = (\<lambda>_ v. Inr (demo_two v)) \<rparr>"

definition demo_k :: "Index option \<Rightarrow> Field" where
  "demo_k ix = demo_field ''k'' ''keyword'' 0 ix"

definition demo_ie :: "32 word set \<Rightarrow> nat \<Rightarrow> fault list \<Rightarrow> (32 word \<times> string) list index_env" where
  "demo_ie refusing late weather =
     \<lparr> ie_env = demo_env\<lparr>en_js := demo_js2, en_sc := demo_two_codec\<rparr>,
       ie_marshal = (\<lambda>ixs. case ixs of [Some i] \<Rightarrow> Inr (ix_Name i) | _ \<Rightarrow> Inl (GoErr [])),
       ie_fields = (\<lambda>bs. Inr [demo_k (if bs = ''idx'' then Some demo_new_index else None)]),
       ie_encode = (\<lambda>fs. Inr (if \<exists>f \<in> set fs. fl_Index f \<noteq> None then ''idx'' else ''plain'')),
       ie_change = (\<lambda>a pid ic (w, e). case ic of
           ADD_INDEX b \<Rightarrow> if pid \<in> refusing then (Inl (GoErr ''refused''), (w, e))
             else (Inr (), (if pid = 2 \<and> weather \<noteq> [] then w\<lparr>faults := weather\<rparr> else w, (pid, b) # e))
         | REMOVE_INDEX n \<Rightarrow> (Inr (), (w, filter (\<lambda>x. x \<noteq> (pid, n)) e))),
       ie_late = (\<lambda>ic. case ic of ADD_INDEX _ \<Rightarrow> late | _ \<Rightarrow> 0) \<rparr>"

definition demo_kv :: "string \<Rightarrow> kvs" where
  "demo_kv v = [(DBKeyName default_key_space ''db'', ''1''), (SpaceKey default_key_space 1 0, v),
     (PartitionKey default_key_space 1, ''p''), (PartitionKey default_key_space 2, ''p''), (ServerKey default_key_space 0, ''v'')]"

lemma demo_merged: "merged_indexes demo_js2 (demo_two ''s'') [Some demo_new_index] = Inr [Some demo_new_index]"
  by (simp add: merged_indexes_def demo_two_def empty_space_def demo_unmarshal_new demo_props2_def demo_new_index_def
      index_type_defs ValidateIndexes_def check_index_fields_def IsScalarIndexType_def)

lemma demo_leaders:
  "en_ks en = default_key_space \<Longrightarrow> en_pc en = en_pc demo_env \<Longrightarrow> en_vc en = en_vc demo_env \<Longrightarrow>
   en_live en = en_live demo_env \<Longrightarrow> en_cl en = demo_cast \<Longrightarrow> i \<in> {1, 2} \<Longrightarrow>
   \<exists>a. leader_addr en (demo_kv v) (demo_p i) = Some a"
proof -
  have keys: "PartitionKey default_key_space 1 \<noteq> DBKeyName default_key_space ''db''" "PartitionKey default_key_space 2 \<noteq> DBKeyName default_key_space ''db''"
    "PartitionKey default_key_space 1 \<noteq> SpaceKey default_key_space 1 0" "PartitionKey default_key_space 2 \<noteq> SpaceKey default_key_space 1 0"
    "PartitionKey default_key_space 2 \<noteq> PartitionKey default_key_space 1"
    "ServerKey default_key_space 0 \<noteq> DBKeyName default_key_space ''db''" "ServerKey default_key_space 0 \<noteq> SpaceKey default_key_space 1 0"
    "ServerKey default_key_space 0 \<noteq> PartitionKey default_key_space 1" "ServerKey default_key_space 0 \<noteq> PartitionKey default_key_space 2"
    by code_simp+
  assume "en_ks en = default_key_space" "en_pc en = en_pc demo_env" "en_vc en = en_vc demo_env"
    "en_live en = en_live demo_env" "en_cl en = demo_cast" "i \<in> {1, 2}"
  then show ?thesis using keys
    by (auto simp: leader_addr_def demo_kv_def demo_p_def new_partition_def demo_env_def zero_partition_def)
qed

lemma demo_load:
  assumes "calm w" and "kv w = demo_kv v"
  shows "load_space (demo_env\<lparr>en_js := demo_js2, en_sc := demo_two_codec\<rparr>) ''db'' ''s'' w = (Inr (demo_two v), tick (tick w))"
proof -
  have keys: "HasPrefix (SpaceKey default_key_space 1 0) (PrefixSpace default_key_space @ FormatInt 1 @ ''/'')"
    "\<not> HasPrefix (DBKeyName default_key_space ''db'') (PrefixSpace default_key_space @ FormatInt 1 @ ''/'')"
    "\<not> HasPrefix (PartitionKey default_key_space 1) (PrefixSpace default_key_space @ FormatInt 1 @ ''/'')"
    "\<not> HasPrefix (PartitionKey default_key_space 2) (PrefixSpace default_key_space @ FormatInt 1 @ ''/'')"
    "\<not> HasPrefix (ServerKey default_key_space 0) (PrefixSpace default_key_space @ FormatInt 1 @ ''/'')"
    "ToInt64E demo_cast ''1'' = Inr 1"
    by code_simp+
  have en: "en_ks demo_env = default_key_space" "en_cl demo_env = demo_cast" by (simp_all add: demo_env_def)
  show ?thesis
    using assms keys
    by (simp add: load_space_def caseA_def en QueryDBName2ID_def QuerySpaceByName_def QuerySpaces_def QuerySpacesByKey_def calm_simps
        demo_kv_def scan_decode_def demo_two_codec_def demo_two_def demo_p_def empty_space_def)
qed

lemma demo_change:
  assumes "calm w" and "kv w = demo_kv v" and "i \<in> {1, 2}"
  shows "change_on (demo_ie refusing late weather) (ADD_INDEX b) (demo_p i) (w, e) =
      (if i \<in> refusing then (Inl (GoErr ''refused''), (tick (tick w), e))
       else (Inr (), (if i = 2 \<and> weather \<noteq> [] then (tick (tick w))\<lparr>faults := weather\<rparr> else tick (tick w), (i, b) # e)))"
    and "change_on (demo_ie refusing late weather) (REMOVE_INDEX n) (demo_p i) (w, e) =
      (Inr (), (tick (tick w), filter (\<lambda>x. x \<noteq> (i, n)) e))"
proof -
  obtain a where a: "leader_addr (ie_env (demo_ie refusing late weather)) (kv w) (demo_p i) = Some a"
    using demo_leaders [of "demo_env\<lparr>en_js := demo_js2, en_sc := demo_two_codec\<rparr>" i v] assms(2,3)
    by (auto simp: demo_ie_def demo_env_def)
  have i: "pt_Id (demo_p i) = i" by (simp add: demo_p_def new_partition_def)
  show "change_on (demo_ie refusing late weather) (ADD_INDEX b) (demo_p i) (w, e) =
      (if i \<in> refusing then (Inl (GoErr ''refused''), (tick (tick w), e))
       else (Inr (), (if i = 2 \<and> weather \<noteq> [] then (tick (tick w))\<lparr>faults := weather\<rparr> else tick (tick w), (i, b) # e)))"
    "change_on (demo_ie refusing late weather) (REMOVE_INDEX n) (demo_p i) (w, e) =
      (Inr (), (tick (tick w), filter (\<lambda>x. x \<noteq> (i, n)) e))"
    using change_on_leader [OF assms(1) a, of _ e] by (simp_all add: demo_ie_def i)
qed

lemma demo_add:
  assumes "calm w" and "kv w = demo_kv ''s''"
  shows "AddIndexes (demo_ie refusing late weather) ''db'' ''s'' [Some demo_new_index] (w, e) =
    (case ship_add (demo_ie refusing late weather) (demo_two ''s'') [Some demo_new_index] ''i''
       ((demo_two ''s'')\<lparr>sp_Indexes := [Some demo_new_index]\<rparr>) (tick (tick (tick w)), e)
     of (r, s) \<Rightarrow> (r, (snd (noop (fst s)), snd s)))"
proof -
  let ?ie = "demo_ie refusing late weather"
  have env: "ie_env ?ie = demo_env\<lparr>en_js := demo_js2, en_sc := demo_two_codec\<rparr>" by (simp add: demo_ie_def)
  have load: "load_space (ie_env ?ie) ''db'' ''s'' (tick w) = (Inr (demo_two ''s''), tick (tick (tick w)))"
    unfolding env using demo_load [of "tick w"] assms(1,2) by simp
  have m: "ie_marshal ?ie [Some demo_new_index] = Inr ''i''" by (simp add: demo_ie_def demo_new_index_def)
  show ?thesis
    unfolding AddIndexes_def loadLockedSpace_def lockedS_def
    using assms(1) load m demo_merged
    by (simp add: onW_def calm_simps bindA_def env split: prod.splits)
qed


text \<open>
  The store and the partitions can come apart. The comment of \<^verbatim>\<open>compensateIndexChange\<close> says that the store
  was not updated when the change is taken back; when the write took effect but its confirmation was lost,
  it was: the index is removed from all partitions, and the store lists it.
\<close>

theorem unconfirmed_write_diverges:
  "\<exists>err w'. AddIndexes (demo_ie {} 0 [Unconfirmed (GoErr ''timeout'')]) ''db'' ''s'' [Some demo_new_index]
       (\<lparr> kv = demo_kv ''s'', faults = [] \<rparr>, []) = (Inl err, (w', [])) \<and>
     map_of (kv w') (SpaceKey default_key_space 1 0) = Some ''t'' \<and>
     (\<exists>space. unmarshal demo_two_codec empty_space ''t'' = Inr space \<and> sp_Indexes space = [Some demo_new_index])"
proof -
  let ?f = "Unconfirmed (GoErr ''timeout'')"
  let ?w = "\<lparr> kv = demo_kv ''s'', faults = [] \<rparr>" and ?w1 = "\<lparr> kv = demo_kv ''t'', faults = [] \<rparr>"
  have w: "calm ?w" "tick ?w = ?w" "calm ?w1" "tick ?w1 = ?w1" by (simp_all add: calm_def tick_def)
  have late: "ie_late (demo_ie r l f) (ADD_INDEX b) = l" for r l f b by (simp add: demo_ie_def)
  have nm: "ix_Name demo_new_index = ''i''" by (simp add: demo_new_index_def)
  have ps: "sp_Partitions ((demo_two v)\<lparr>sp_Indexes := ixs\<rparr>) = [demo_p 1, demo_p 2]" "sp_Partitions (demo_two v) = [demo_p 1, demo_p 2]" for ixs v
    by (simp_all add: demo_two_def)
  have key: "SpaceKey default_key_space 1 0 \<noteq> DBKeyName default_key_space ''db''" by code_simp
  have upd: "UpdateSpaceData (ie_env (demo_ie {} 0 [?f])) ((demo_two ''s'')\<lparr>sp_Indexes := [Some demo_new_index]\<rparr>) (?w\<lparr>faults := [?f]\<rparr>) =
      (Inl (GoErr ''timeout''), ?w1)"
    using key by (simp add: UpdateSpaceData_def Let_def Update_def etcd_def demo_ie_def demo_two_codec_def saved_space_def demo_two_def
        empty_space_def demo_env_def demo_kv_def bindA_def)
  note change = demo_change [OF w(1), of "''s''", simplified w] and change1 = demo_change [OF w(3), of "''t''", simplified w]
  have "AddIndexes (demo_ie {} 0 [?f]) ''db'' ''s'' [Some demo_new_index] (?w, []) = (Inl (GoErr ''timeout''), (?w1, []))"
    using demo_add [OF w(1), of "{}" 0 "[?f]" "[]"] w upd
    by (simp add: ship_add_def notifyPartitionsIndexChange_def Let_def late ps change change1 compensateAdd_def compensate_all onW_def
        nm calm_simps)
  moreover have "map_of (demo_kv ''t'') (SpaceKey default_key_space 1 0) = Some ''t''" using key by (simp add: demo_kv_def)
  ultimately show ?thesis
    by (simp add: demo_two_codec_def demo_two_def demo_p_def)
qed

section \<open>Examples\<close>

lemma demo_ps: "sp_Partitions ((demo_two v)\<lparr>sp_Indexes := ixs\<rparr>) = [demo_p 1, demo_p 2]" "sp_Partitions (demo_two v) = [demo_p 1, demo_p 2]"
  by (simp_all add: demo_two_def)

lemma demo_late: "ie_late (demo_ie r l f) (ADD_INDEX b) = l" "ie_late (demo_ie r l f) (REMOVE_INDEX n) = 0"
  by (simp_all add: demo_ie_def)

lemma demo_saves:
  "calm w \<Longrightarrow> \<exists>space' w'. UpdateSpaceData (ie_env (demo_ie r l f)) space w = (Inr space', w')"
  by (simp add: UpdateSpaceData_def Let_def demo_ie_def demo_two_codec_def Update_def etcd_calm bindA_def)

theorem AddIndexes_keeps_rules_witness:
  "\<exists>space' s'. AddIndexes (demo_ie {} 0 []) ''db'' ''s'' [Some demo_new_index] (\<lparr> kv = demo_kv ''s'', faults = [] \<rparr>, []) = (Inr space', s') \<and>
     (\<exists>old. sp_Indexes space' = old @ [Some demo_new_index])"
proof -
  let ?w = "\<lparr> kv = demo_kv ''s'', faults = [] \<rparr>" and ?ie = "demo_ie {} 0 []"
  have w: "calm ?w" "tick ?w = ?w" "?w\<lparr>faults := []\<rparr> = ?w" by (simp_all add: calm_def tick_def)
  note change = demo_change [OF w(1), of "''s''", simplified w]
  obtain space' w' where "UpdateSpaceData (ie_env ?ie) ((demo_two ''s'')\<lparr>sp_Indexes := [Some demo_new_index]\<rparr>) ?w = (Inr space', w')"
    using demo_saves [OF w(1)] by blast
  then have run: "AddIndexes ?ie ''db'' ''s'' [Some demo_new_index] (?w, []) = (Inr space', (snd (noop w'), [(2, ''i''), (1, ''i'')]))"
    using demo_add [OF w(1), of "{}" 0 "[]" "[]"] w
    by (simp add: ship_add_def notifyPartitionsIndexChange_def Let_def demo_late demo_ps change onW_def)
  then show ?thesis using AddIndexes_keeps_rules [OF run] by blast
qed

theorem RemoveIndex_stays_removed_witness:
  "\<exists>space' s'. RemoveIndex (demo_ie {} 0 []) ''db'' ''s'' ''i'' (\<lparr> kv = demo_kv ''t'', faults = [] \<rparr>, [(1, ''i''), (2, ''i'')]) = (Inr space', s') \<and>
     (\<exists>(space :: Space) n. sp_Indexes space' = take n (sp_Indexes space) @ drop (Suc n) (sp_Indexes space))"
proof -
  let ?w = "\<lparr> kv = demo_kv ''t'', faults = [] \<rparr>" and ?ie = "demo_ie {} 0 []"
  have w: "calm ?w" "tick ?w = ?w" by (simp_all add: calm_def tick_def)
  note change = demo_change [OF w(1), of "''t''", simplified w]
  have env: "ie_env ?ie = demo_env\<lparr>en_js := demo_js2, en_sc := demo_two_codec\<rparr>" by (simp add: demo_ie_def)
  have load: "load_space (ie_env ?ie) ''db'' ''s'' ?w = (Inr (demo_two ''t''), ?w)"
    unfolding env using demo_load [OF w(1), of "''t''"] w by simp
  have found: "find_index ''i'' (sp_Indexes (demo_two ''t'')) = Some 0" by (simp add: demo_two_def demo_new_index_def)
  have ps: "sp_Partitions (without_index ?ie (demo_two ''t'') 0) = [demo_p 1, demo_p 2]"
    by (simp add: without_index_def Let_def demo_two_def split: option.splits)
  obtain space' w' where "UpdateSpaceData (ie_env ?ie) (without_index ?ie (demo_two ''t'') 0) ?w = (Inr space', w')"
    using demo_saves [OF w(1)] by blast
  moreover obtain x w2 where "noop w' = (x, w2)" by force
  ultimately have run: "RemoveIndex ?ie ''db'' ''s'' ''i'' (?w, [(1, ''i''), (2, ''i'')]) = (Inr space', (w2, []))"
    using w load found
    by (simp add: RemoveIndex_def loadLockedSpace_def lockedS_def onW_def calm_simps bindA_def ship_remove_def
        notifyPartitionsIndexChange_def Let_def demo_late ps change)
  have "\<forall>r bs parsed. ie_fields ?ie bs = Inr parsed \<longrightarrow> (\<exists>b. ie_encode ?ie (map (clear_inline r) parsed) = Inr b \<and>
       ie_fields ?ie b = Inr (map (clear_inline r) parsed))"
  proof (intro allI impI)
    fix r bs parsed assume "ie_fields ?ie bs = Inr parsed"
    then obtain ix where "parsed = [demo_k ix]" "ix \<in> {None, Some demo_new_index}" by (auto simp: demo_ie_def split: if_splits)
    then obtain iy where "map (clear_inline r) parsed = [demo_k iy]" "iy = None \<or> iy = Some demo_new_index"
      by (cases "clear_inline r (demo_k ix) = demo_k ix") (auto simp: clear_inline_def demo_k_def demo_field_def split: if_splits)
    then show "\<exists>b. ie_encode ?ie (map (clear_inline r) parsed) = Inr b \<and> ie_fields ?ie b = Inr (map (clear_inline r) parsed)"
      by (elim disjE) (simp_all add: demo_ie_def demo_k_def demo_field_def)
  qed
  from RemoveIndex_stays_removed [OF run this]
  obtain n and space :: Space where "sp_Indexes space' = take n (sp_Indexes space) @ drop (Suc n) (sp_Indexes space)"
    by (elim exE conjE) (rule that)
  then show ?thesis using run by blast
qed


end
