(* ===== verification/BufAlloc.thy ===== *)
theory BufAlloc
  imports Store
begin

text \<open>
  The byte buffers of \<^verbatim>\<open>internal/pkg/bufalloc\<close>: \<^verbatim>\<open>ibuffer.go\<close>, \<^verbatim>\<open>buffer.go\<close> and \<^verbatim>\<open>buffer_pool.go\<close>.

  A slice that starts at the beginning of its array is the array (its length is the capacity) and a
  length; \<open>None\<close> is the nil slice. The unread bytes lie between \<open>bf_off\<close> and \<open>bf_len\<close>. Sizes are natural
  numbers, since slices fit into memory; running out of memory is not modelled.

  The buffer is shown to implement a plain queue of bytes, for every operation and with the errors and
  panics included (\<open>spec_op\<close>), and the pool to hand out empty buffers of the wanted capacity.
\<close>

type_synonym byte = "8 word"

record ibuffer =
  bf_off :: nat
  bf_len :: nat
  bf_arr :: "byte list option"

definition eof :: go_error where
  "eof = GoErr ''EOF''"

definition bf_mem :: "ibuffer \<Rightarrow> byte list" where
  "bf_mem b = (case bf_arr b of None \<Rightarrow> [] | Some a \<Rightarrow> a)"

definition Cap :: "ibuffer \<Rightarrow> nat" where
  "Cap b = length (bf_mem b)"

definition Len :: "ibuffer \<Rightarrow> nat" where
  "Len b = bf_len b - bf_off b"

definition Bytes :: "ibuffer \<Rightarrow> byte list" where
  "Bytes b = drop (bf_off b) (take (bf_len b) (bf_mem b))"

definition makeSlice :: "nat \<Rightarrow> byte list" where
  "makeSlice n = replicate n 0"

text \<open>\<^verbatim>\<open>String\<close> is also called on nil pointers.\<close>

definition buffer_String :: "ibuffer option \<Rightarrow> byte list" where
  "buffer_String b = (case b of None \<Rightarrow> [] | Some b \<Rightarrow> Bytes b)"

definition Truncate :: "int \<Rightarrow> (ibuffer, unit) act" where
  "Truncate n b =
     (if n < 0 \<or> n > int (Len b) then (Inl (GoPanic ''bufalloc.Buffer: truncation out of range''), b)
      else let off = (if n = 0 then 0 else bf_off b) in (Inr (), b\<lparr>bf_off := off, bf_len := off + nat n\<rparr>))"

definition Reset :: "(ibuffer, unit) act" where
  "Reset = Truncate 0"

text \<open>\<^verbatim>\<open>copy(dst, src)\<close> to the front of \<open>dst\<close>.\<close>

definition copy_front :: "byte list \<Rightarrow> byte list \<Rightarrow> byte list" where
  "copy_front dst src = take (length dst) src @ drop (length src) dst"

definition room :: "nat \<Rightarrow> ibuffer \<Rightarrow> ibuffer" where
  "room n b =
     (let m = Len b in
      if bf_len b + n > Cap b then
        if m + n \<le> Cap b div 2
        then b\<lparr>bf_arr := Some (copy_front (bf_mem b) (Bytes b)), bf_len := m, bf_off := 0\<rparr>
        else b\<lparr>bf_arr := Some (copy_front (makeSlice (2 * Cap b + n)) (Bytes b)), bf_len := 2 * Cap b + n, bf_off := 0\<rparr>
      else b)"

definition grow :: "nat \<Rightarrow> (ibuffer, nat) act" where
  "grow n b =
     (if bf_arr b = None then (Inr 0, b\<lparr>bf_arr := Some (makeSlice n), bf_len := n\<rparr>)
      else
        let m = Len b in
        bindA (if m = 0 \<and> bf_off b \<noteq> 0 then Truncate 0 else ret ()) (\<lambda>_ b1.
          let b2 = room n b1 in (Inr (bf_off b2 + m), b2\<lparr>bf_len := bf_off b2 + m + n\<rparr>)) b)"

definition Alloc :: "int \<Rightarrow> (ibuffer, byte list) act" where
  "Alloc n =
     (if n < 0 then fail (GoPanic ''bufalloc.Buffer: negative count'')
      else bindA (grow (nat n)) (\<lambda>m b. (Inr (drop m (take (bf_len b) (bf_mem b))), b)))"

definition Grow :: "int \<Rightarrow> (ibuffer, unit) act" where
  "Grow n =
     (if n < 0 then fail (GoPanic ''bufalloc.Buffer: negative count'')
      else bindA (grow (nat n)) (\<lambda>m b. (Inr (), b\<lparr>bf_len := m\<rparr>)))"

definition put_at :: "nat \<Rightarrow> byte list \<Rightarrow> ibuffer \<Rightarrow> ibuffer" where
  "put_at m p b = b\<lparr>bf_arr := Some (take m (bf_mem b) @ p @ drop (m + length p) (bf_mem b))\<rparr>"

text \<open>\<^verbatim>\<open>WriteString\<close> is the same for the bytes of a string.\<close>

definition Write :: "byte list \<Rightarrow> (ibuffer, nat) act" where
  "Write p = bindA (grow (length p)) (\<lambda>m b. (Inr (length p), put_at m p b))"

definition WriteByte :: "byte \<Rightarrow> (ibuffer, unit) act" where
  "WriteByte c = bindA (grow 1) (\<lambda>m b. (Inr (), put_at m [c] b))"

definition Read :: "nat \<Rightarrow> (ibuffer, byte list) act" where
  "Read k b =
     (if bf_off b \<ge> bf_len b then
        bindA (Truncate 0) (\<lambda>_. if k = 0 then ret [] else fail eof) b
      else let p = take k (Bytes b) in (Inr p, b\<lparr>bf_off := bf_off b + length p\<rparr>))"

definition Next :: "int \<Rightarrow> (ibuffer, byte list) act" where
  "Next n b =
     (let k = (if n > int (Len b) then int (Len b) else n) in
      if k < 0 then (Inl (GoPanic ''slice bounds out of range''), b)
      else (Inr (take (nat k) (Bytes b)), b\<lparr>bf_off := bf_off b + nat k\<rparr>))"

definition ReadByte :: "(ibuffer, byte) act" where
  "ReadByte b =
     (if bf_off b \<ge> bf_len b then bindA (Truncate 0) (\<lambda>_. fail eof) b
      else (Inr (hd (Bytes b)), b\<lparr>bf_off := bf_off b + 1\<rparr>))"

text \<open>The line, and whether the end came before the delimiter.\<close>

definition IndexByte :: "byte list \<Rightarrow> byte \<Rightarrow> nat option" where
  "IndexByte s c = (if c \<in> set s then Some (length (takeWhile (\<lambda>x. x \<noteq> c) s)) else None)"

definition readSlice :: "byte \<Rightarrow> (ibuffer, byte list \<times> bool) act" where
  "readSlice delim b =
     (let (e, err) = (case IndexByte (Bytes b) delim of
            None \<Rightarrow> (bf_len b, True)
          | Some i \<Rightarrow> (bf_off b + i + 1, False))
      in (Inr (drop (bf_off b) (take e (bf_mem b)), err), b\<lparr>bf_off := e\<rparr>))"

definition ReadBytes :: "byte \<Rightarrow> (ibuffer, byte list \<times> bool) act" where
  "ReadBytes delim = bindA (readSlice delim) (\<lambda>(slice, err). ret ([] @ slice, err))"

text \<open>
  The answer of the writer is an argument: the number of bytes it took, which \<^verbatim>\<open>io.Writer\<close> promises not to
  be negative, and its error.
\<close>

definition WriteTo :: "nat \<Rightarrow> go_error option \<Rightarrow> (ibuffer, nat \<times> go_error option) act" where
  "WriteTo m e b =
     (if bf_off b < bf_len b then
        let nBytes = Len b in
        if m > nBytes then (Inl (GoPanic ''bufalloc.Buffer: invalid Write count''), b)
        else
          let b1 = b\<lparr>bf_off := bf_off b + m\<rparr> in
          case e of
            Some err \<Rightarrow> (Inr (m, Some err), b1)
          | None \<Rightarrow>
              if m \<noteq> nBytes then (Inr (m, Some (GoErr ''short write'')), b1)
              else bindA (Truncate 0) (\<lambda>_. ret (m, None)) b1
      else bindA (Truncate 0) (\<lambda>_. ret (0, None)) b)"

section \<open>Reading from a stream\<close>

text \<open>
  The answers of the reader: bytes with no error, with the end of the stream, or with an error. A
  reader that returns more than the space it was given breaks its contract, and the slice expression
  panics. When the answers are used up the call has not returned, which is \<open>None\<close>.
\<close>

datatype read_end = More | AtEOF | Broken go_error

definition minRead :: nat where
  "minRead = 128"

definition make_space :: "ibuffer \<Rightarrow> ibuffer" where
  "make_space b =
     (let free = Cap b - bf_len b in
      if free < minRead then
        let newBuf = (if bf_off b + free < minRead then makeSlice (2 * Cap b + minRead) else bf_mem b) in
        b\<lparr>bf_arr := Some (copy_front newBuf (Bytes b)), bf_len := bf_len b - bf_off b, bf_off := 0\<rparr>
      else b)"

fun read_loop :: "(byte list \<times> read_end) list \<Rightarrow> nat \<Rightarrow> ibuffer \<Rightarrow> ((nat \<times> go_error option) res \<times> ibuffer) option" where
  "read_loop [] n b = None"
| "read_loop ((p, e) # replies) n b =
     (let b1 = make_space b in
      if length p > Cap b1 - bf_len b1 then Some (Inl (GoPanic ''slice bounds out of range''), b1)
      else
        let b2 = (put_at (bf_len b1) p b1)\<lparr>bf_len := bf_len b1 + length p\<rparr> in
        case e of
          AtEOF \<Rightarrow> Some (Inr (n + length p, None), b2)
        | Broken err \<Rightarrow> Some (Inr (n + length p, Some err), b2)
        | More \<Rightarrow> read_loop replies (n + length p) b2)"

definition ReadFrom :: "(byte list \<times> read_end) list \<Rightarrow> ibuffer \<Rightarrow> ((nat \<times> go_error option) res \<times> ibuffer) option" where
  "ReadFrom replies b =
     (if bf_off b \<ge> bf_len b
      then (case Truncate 0 b of (Inl e, b') \<Rightarrow> Some (Inl e, b') | (Inr _, b') \<Rightarrow> read_loop replies 0 b')
      else read_loop replies 0 b)"

section \<open>The pool\<close>

definition bigSize :: nat where
  "bigSize = 64 * 1024"

definition baseSize :: nat where
  "baseSize = 15"

definition baseline :: "nat list" where
  "baseline = [64, 128, 256, 512, 1024, 2 * 1024, 4 * 1024, 8 * 1024, 16 * 1024, 32 * 1024, 64 * 1024,
     128 * 1024, 256 * 1024, 512 * 1024, 1024 * 1024]"

text \<open>What the \<^verbatim>\<open>New\<close> of a pool makes.\<close>

definition createPool :: "nat \<Rightarrow> ibuffer" where
  "createPool n =
     (if n = 0 \<or> n > bigSize then \<lparr> bf_off = 0, bf_len = 0, bf_arr = None \<rparr>
      else \<lparr> bf_off = 0, bf_len = n, bf_arr = Some (makeSlice n) \<rparr>)"

fun first_fit :: "int \<Rightarrow> nat list \<Rightarrow> nat \<Rightarrow> nat" where
  "first_fit n [] i = i"
| "first_fit n (x # xs) i = (if n \<le> int x then i else first_fit n xs (Suc i))"

definition getPoolNum :: "int \<Rightarrow> nat" where
  "getPoolNum n = first_fit n baseline 0"

text \<open>
  The buffers that wait in the pools, by number. \<^verbatim>\<open>sync.Pool\<close> may hand out any buffer of a pool, or a
  new one although some are waiting: \<open>pick\<close> is its choice.
\<close>

type_synonym bufferPool = "nat \<Rightarrow> ibuffer list"

definition pool_New :: "nat \<Rightarrow> ibuffer" where
  "pool_New num = createPool ((baseline @ [0]) ! num)"

definition pool_Get :: "nat option \<Rightarrow> nat \<Rightarrow> bufferPool \<Rightarrow> ibuffer \<times> bufferPool" where
  "pool_Get pick num pool =
     (case pick of
        Some i \<Rightarrow> if i < length (pool num)
          then (pool num ! i, pool(num := take i (pool num) @ drop (Suc i) (pool num)))
          else (pool_New num, pool)
      | None \<Rightarrow> (pool_New num, pool))"

definition putBuffer :: "ibuffer \<Rightarrow> bufferPool \<Rightarrow> bufferPool" where
  "putBuffer b pool = (let num = getPoolNum (int (Cap b)) in pool(num := b # pool num))"

definition getBuffer :: "nat option \<Rightarrow> int \<Rightarrow> (bufferPool, ibuffer) act" where
  "getBuffer pick n pool =
     (let (b, pool1) = pool_Get pick (getPoolNum n) pool in
      let (b1, pool2) = (if int (Cap b) < n
            then (\<lparr> bf_off = 0, bf_len = nat n, bf_arr = Some (makeSlice (nat n)) \<rparr>, putBuffer b pool1)
            else (b, pool1)) in
      case Reset b1 of (Inl e, _) \<Rightarrow> (Inl e, pool2) | (Inr _, b2) \<Rightarrow> (Inr b2, pool2))"

definition AllocBuffer :: "nat option \<Rightarrow> int \<Rightarrow> (bufferPool, ibuffer) act" where
  "AllocBuffer = getBuffer"

definition FreeBuffer :: "ibuffer option \<Rightarrow> bufferPool \<Rightarrow> bufferPool" where
  "FreeBuffer b pool = (case b of None \<Rightarrow> pool | Some b \<Rightarrow> putBuffer b pool)"

section \<open>The invariant\<close>

definition buf_ok :: "ibuffer \<Rightarrow> bool" where
  "buf_ok b \<longleftrightarrow> bf_off b \<le> bf_len b \<and> bf_len b \<le> Cap b"

lemma copy_front_length [simp]: "length (copy_front d s) = length d"
  by (auto simp: copy_front_def)

lemma copy_front_take [simp]: "k = length s \<Longrightarrow> k \<le> length d \<Longrightarrow> take k (copy_front d s) = s"
  by (simp add: copy_front_def)

lemma length_Bytes [simp]: "buf_ok b \<Longrightarrow> length (Bytes b) = Len b"
  by (auto simp: buf_ok_def Bytes_def Len_def Cap_def)

lemma mem_update [simp]:
  "bf_mem (b\<lparr>bf_off := k\<rparr>) = bf_mem b" "bf_mem (b\<lparr>bf_len := k\<rparr>) = bf_mem b" "bf_mem (b\<lparr>bf_arr := Some a\<rparr>) = a"
  by (simp_all add: bf_mem_def)

lemma Truncate_zero: "Truncate 0 b = (Inr (), b\<lparr>bf_off := 0, bf_len := 0\<rparr>)"
  by (simp add: Truncate_def Let_def)

lemma emptied [simp]: "buf_ok (b\<lparr>bf_off := 0, bf_len := 0\<rparr>)" "Bytes (b\<lparr>bf_off := 0, bf_len := 0\<rparr>) = []"
  by (simp_all add: buf_ok_def Bytes_def)

text \<open>
  After \<^verbatim>\<open>grow\<close> there is room for \<open>n\<close> bytes behind the unread ones, which stay what they were; putting
  \<open>p\<close> there appends it.
\<close>

lemma room_ok:
  assumes "buf_ok b"
  shows "drop (bf_off (room n b)) (take (bf_off (room n b) + Len b) (bf_mem (room n b))) = Bytes b
    \<and> bf_off (room n b) + Len b + n \<le> Cap (room n b)"
proof (cases "bf_len b + n > Cap b")
  case False
  then show ?thesis
    using assms by (simp add: room_def buf_ok_def Len_def Bytes_def)
next
  case True
  have "length (Bytes b) = Len b" "Len b \<le> Cap b"
    using assms by (simp_all) (auto simp: buf_ok_def Len_def)
  then show ?thesis
    using True by (auto simp: room_def Cap_def makeSlice_def Let_def)
qed

lemma grow_ok:
  assumes "buf_ok b" and "grow n b = (r, b')"
  shows "\<exists>m. r = Inr m \<and> m = bf_off b' + Len b \<and> bf_len b' = m + n \<and> bf_len b' \<le> Cap b'
    \<and> drop (bf_off b') (take m (bf_mem b')) = Bytes b"
proof (cases "bf_arr b")
  case None
  then have "bf_off b = 0" "bf_len b = 0"
    using assms(1) by (auto simp: buf_ok_def Cap_def bf_mem_def)
  then show ?thesis
    using None assms(2) by (auto simp: grow_def Len_def Cap_def makeSlice_def Bytes_def)
next
  case (Some a)
  define b1 where "b1 = (if Len b = 0 \<and> bf_off b \<noteq> 0 then b\<lparr>bf_off := 0, bf_len := 0\<rparr> else b)"
  have b1: "buf_ok b1" "Len b1 = Len b" "Bytes b1 = Bytes b"
    using assms(1) by (auto simp: b1_def Len_def Bytes_def)
  have "grow n b = (Inr (bf_off (room n b1) + Len b), (room n b1)\<lparr>bf_len := bf_off (room n b1) + Len b + n\<rparr>)"
    using Some by (simp add: grow_def b1_def bindA_def ret_def Truncate_zero Let_def)
  then show ?thesis
    using room_ok [OF b1(1), of n] assms(2) b1 by (auto simp: Cap_def)
qed

lemma put_ok:
  assumes "bf_len b = m + length p" and "bf_len b \<le> Cap b" and "bf_off b \<le> m"
  shows "buf_ok (put_at m p b) \<and> Bytes (put_at m p b) = drop (bf_off b) (take m (bf_mem b)) @ p"
  using assms by (auto simp: put_at_def buf_ok_def Bytes_def Cap_def)

section \<open>A buffer is a queue of bytes\<close>

text \<open>The operations as a client sees them, and what each of them means for the unread bytes.\<close>

datatype buf_op =
  DoWrite "byte list" | DoWriteByte byte | DoRead nat | DoReadByte | DoReadBytes byte | DoNext int |
  DoTruncate int | DoGrow int | DoReset | DoBytes | DoLen | DoWriteTo nat "go_error option"

datatype buf_ans =
  NoAns | Count nat | Got "byte list" | GotByte byte | Line "byte list" bool | Written nat "go_error option"

definition buf_apply :: "buf_op \<Rightarrow> (ibuffer, buf_ans) act" where
  "buf_apply opn =
     (case opn of
        DoWrite p \<Rightarrow> bindA (Write p) (\<lambda>n. ret (Count n))
      | DoWriteByte c \<Rightarrow> bindA (WriteByte c) (\<lambda>_. ret NoAns)
      | DoRead k \<Rightarrow> bindA (Read k) (\<lambda>p. ret (Got p))
      | DoReadByte \<Rightarrow> bindA ReadByte (\<lambda>c. ret (GotByte c))
      | DoReadBytes d \<Rightarrow> bindA (ReadBytes d) (\<lambda>(l, e). ret (Line l e))
      | DoNext n \<Rightarrow> bindA (Next n) (\<lambda>p. ret (Got p))
      | DoTruncate n \<Rightarrow> bindA (Truncate n) (\<lambda>_. ret NoAns)
      | DoGrow n \<Rightarrow> bindA (Grow n) (\<lambda>_. ret NoAns)
      | DoReset \<Rightarrow> bindA Reset (\<lambda>_. ret NoAns)
      | DoBytes \<Rightarrow> (\<lambda>b. (Inr (Got (Bytes b)), b))
      | DoLen \<Rightarrow> (\<lambda>b. (Inr (Count (Len b)), b))
      | DoWriteTo m e \<Rightarrow> bindA (WriteTo m e) (\<lambda>(n, err). ret (Written n err)))"

definition queue_apply :: "buf_op \<Rightarrow> (byte list, buf_ans) act" where
  "queue_apply opn s =
     (case opn of
        DoWrite p \<Rightarrow> (Inr (Count (length p)), s @ p)
      | DoWriteByte c \<Rightarrow> (Inr NoAns, s @ [c])
      | DoRead k \<Rightarrow> if s = [] \<and> k \<noteq> 0 then (Inl eof, s) else (Inr (Got (take k s)), drop k s)
      | DoReadByte \<Rightarrow> (case s of [] \<Rightarrow> (Inl eof, []) | c # s' \<Rightarrow> (Inr (GotByte c), s'))
      | DoReadBytes d \<Rightarrow>
          if d \<in> set s then (Inr (Line (takeWhile (\<lambda>x. x \<noteq> d) s @ [d]) False), tl (dropWhile (\<lambda>x. x \<noteq> d) s))
          else (Inr (Line s True), [])
      | DoNext n \<Rightarrow>
          if n < 0 then (Inl (GoPanic ''slice bounds out of range''), s) else (Inr (Got (take (nat n) s)), drop (nat n) s)
      | DoTruncate n \<Rightarrow>
          if n < 0 \<or> n > int (length s) then (Inl (GoPanic ''bufalloc.Buffer: truncation out of range''), s)
          else (Inr NoAns, take (nat n) s)
      | DoGrow n \<Rightarrow> if n < 0 then (Inl (GoPanic ''bufalloc.Buffer: negative count''), s) else (Inr NoAns, s)
      | DoReset \<Rightarrow> (Inr NoAns, [])
      | DoBytes \<Rightarrow> (Inr (Got s), s)
      | DoLen \<Rightarrow> (Inr (Count (length s)), s)
      | DoWriteTo m e \<Rightarrow>
          if s = [] then (Inr (Written 0 None), [])
          else if m > length s then (Inl (GoPanic ''bufalloc.Buffer: invalid Write count''), s)
          else (Inr (Written m (if e = None \<and> m < length s then Some (GoErr ''short write'') else e)), drop m s))"

fun run_ops :: "('o \<Rightarrow> ('s, 'a) act) \<Rightarrow> 'o list \<Rightarrow> 's \<Rightarrow> 'a res list \<times> 's" where
  "run_ops f [] s = ([], s)"
| "run_ops f (opn # rest) s = (let (r, s') = f opn s; (rs, s'') = run_ops f rest s' in (r # rs, s''))"

text \<open>One lemma per operation: the answer and the unread bytes afterwards.\<close>

definition does :: "(ibuffer, 'a) act \<Rightarrow> (byte list, 'a) act \<Rightarrow> bool" where
  "does f g \<longleftrightarrow> (\<forall>b. buf_ok b \<longrightarrow> (\<exists>r b'. f b = (r, b') \<and> buf_ok b' \<and> g (Bytes b) = (r, Bytes b')))"

lemma doesI: "(\<And>b. buf_ok b \<Longrightarrow> \<exists>r b'. f b = (r, b') \<and> buf_ok b' \<and> g (Bytes b) = (r, Bytes b')) \<Longrightarrow> does f g"
  by (auto simp: does_def)

lemma does_bind: "does f g \<Longrightarrow> (\<And>x. does (h x) (k x)) \<Longrightarrow> does (bindA f h) (bindA g k)"
  unfolding does_def bindA_def by (fastforce split: sum.splits)

lemma does_ret: "does (ret x) (ret x)"
  by (auto simp: does_def ret_def)

lemma empty_iff: "buf_ok b \<Longrightarrow> Bytes b = [] \<longleftrightarrow> bf_off b = bf_len b"
  using length_Bytes [of b] by (auto simp: Len_def buf_ok_def Bytes_def)

lemma does_grow:
  assumes "buf_ok b"
  obtains b' where "grow n b = (Inr (bf_off b' + Len b), b')" "bf_len b' = bf_off b' + Len b + n" "bf_len b' \<le> Cap b'"
    "drop (bf_off b') (take (bf_off b' + Len b) (bf_mem b')) = Bytes b"
proof -
  obtain r b' where "grow n b = (r, b')"
    by fastforce
  then show thesis
    using grow_ok [OF assms, of n r b'] that by auto
qed

lemma does_Write: "does (Write p) (\<lambda>s. (Inr (length p), s @ p))"
proof (rule doesI)
  fix b
  assume "buf_ok b"
  then obtain b' where "grow (length p) b = (Inr (bf_off b' + Len b), b')" "bf_len b' = bf_off b' + Len b + length p"
    "bf_len b' \<le> Cap b'" "drop (bf_off b') (take (bf_off b' + Len b) (bf_mem b')) = Bytes b"
    by (rule does_grow)
  then show "\<exists>r b'. Write p b = (r, b') \<and> buf_ok b' \<and> (Inr (length p), Bytes b @ p) = (r, Bytes b')"
    using put_ok [of b' "bf_off b' + Len b" p] by (simp add: Write_def bindA_def)
qed

lemma does_WriteByte: "does (WriteByte c) (\<lambda>s. (Inr (), s @ [c]))"
proof (rule doesI)
  fix b
  assume "buf_ok b"
  then obtain b' where "grow 1 b = (Inr (bf_off b' + Len b), b')" "bf_len b' = bf_off b' + Len b + 1"
    "bf_len b' \<le> Cap b'" "drop (bf_off b') (take (bf_off b' + Len b) (bf_mem b')) = Bytes b"
    by (rule does_grow)
  then show "\<exists>r b'. WriteByte c b = (r, b') \<and> buf_ok b' \<and> (Inr (), Bytes b @ [c]) = (r, Bytes b')"
    using put_ok [of b' "bf_off b' + Len b" "[c]"] by (simp add: WriteByte_def bindA_def)
qed

lemma does_Grow: "does (Grow n) (\<lambda>s. (if n < 0 then Inl (GoPanic ''bufalloc.Buffer: negative count'') else Inr (), s))"
proof (rule doesI)
  fix b
  assume "buf_ok b"
  then obtain b' where "grow (nat n) b = (Inr (bf_off b' + Len b), b')" "bf_len b' = bf_off b' + Len b + nat n"
    "bf_len b' \<le> Cap b'" "drop (bf_off b') (take (bf_off b' + Len b) (bf_mem b')) = Bytes b"
    by (rule does_grow)
  then show "\<exists>r b'. Grow n b = (r, b') \<and> buf_ok b'
      \<and> (if n < 0 then Inl (GoPanic ''bufalloc.Buffer: negative count'') else Inr (), Bytes b) = (r, Bytes b')"
    using \<open>buf_ok b\<close> by (auto simp: Grow_def bindA_def fail_def buf_ok_def Cap_def Bytes_def)
qed

lemma advance_ok:
  assumes "buf_ok b" and "k \<le> Len b"
  shows "buf_ok (b\<lparr>bf_off := bf_off b + k\<rparr>)" "Bytes (b\<lparr>bf_off := bf_off b + k\<rparr>) = drop k (Bytes b)"
  using assms by (auto simp: buf_ok_def Len_def Cap_def Bytes_def add.commute)

lemma does_Read: "does (Read k) (\<lambda>s. if s = [] \<and> k \<noteq> 0 then (Inl eof, s) else (Inr (take k s), drop k s))"
proof (rule doesI)
  fix b
  assume b: "buf_ok b"
  show "\<exists>r b'. Read k b = (r, b') \<and> buf_ok b'
      \<and> (if Bytes b = [] \<and> k \<noteq> 0 then (Inl eof, Bytes b) else (Inr (take k (Bytes b)), drop k (Bytes b))) = (r, Bytes b')"
  proof (cases "Bytes b = []")
    case True
    then show ?thesis
      using b empty_iff [OF b] by (auto simp: Read_def bindA_def Truncate_zero ret_def fail_def)
  next
    case False
    then have "\<not> bf_len b \<le> bf_off b"
      using b empty_iff [OF b] by (auto simp: buf_ok_def)
    moreover have "drop (min (Len b) k) (Bytes b) = drop k (Bytes b)"
      using length_Bytes [OF b] by (simp add: min_def)
    ultimately show ?thesis
      using False b advance_ok [OF b, of "min (Len b) k"] by (simp add: Read_def Let_def)
  qed
qed

lemma does_ReadByte: "does ReadByte (\<lambda>s. case s of [] \<Rightarrow> (Inl eof, []) | c # s' \<Rightarrow> (Inr c, s'))"
proof (rule doesI)
  fix b
  assume b: "buf_ok b"
  show "\<exists>r b'. ReadByte b = (r, b') \<and> buf_ok b' \<and> (case Bytes b of [] \<Rightarrow> (Inl eof, []) | c # s' \<Rightarrow> (Inr c, s')) = (r, Bytes b')"
  proof (cases "Bytes b")
    case Nil
    then show ?thesis
      using b empty_iff [OF b] by (auto simp: ReadByte_def bindA_def Truncate_zero fail_def)
  next
    case (Cons c s)
    then have "\<not> bf_len b \<le> bf_off b"
      using b empty_iff [OF b] by (auto simp: buf_ok_def)
    moreover have "1 \<le> Len b"
      using length_Bytes [OF b] Cons by simp
    ultimately show ?thesis
      using Cons advance_ok [OF b, of 1] by (simp add: ReadByte_def)
  qed
qed

lemma does_Next:
  "does (Next n) (\<lambda>s. if n < 0 then (Inl (GoPanic ''slice bounds out of range''), s) else (Inr (take (nat n) s), drop (nat n) s))"
proof (rule doesI)
  fix b
  assume b: "buf_ok b"
  have "drop (min (Len b) (nat n)) (Bytes b) = drop (nat n) (Bytes b)" "take (min (Len b) (nat n)) (Bytes b) = take (nat n) (Bytes b)"
    using length_Bytes [OF b] by (simp_all add: min_def)
  moreover have "\<not> n < 0 \<Longrightarrow> nat (if n > int (Len b) then int (Len b) else n) = min (Len b) (nat n)"
    by (auto simp: min_def)
  ultimately show "\<exists>r b'. Next n b = (r, b') \<and> buf_ok b' \<and> (if n < 0 then (Inl (GoPanic ''slice bounds out of range''), Bytes b)
      else (Inr (take (nat n) (Bytes b)), drop (nat n) (Bytes b))) = (r, Bytes b')"
    using b advance_ok [OF b, of "min (Len b) (nat n)"]
    by (cases "n < 0") (simp_all add: Next_def Let_def)
qed

lemma does_Truncate:
  "does (Truncate n) (\<lambda>s. if n < 0 \<or> n > int (length s) then (Inl (GoPanic ''bufalloc.Buffer: truncation out of range''), s)
     else (Inr (), take (nat n) s))"
proof (rule doesI)
  fix b
  assume b: "buf_ok b"
  then have "\<not> (n < 0 \<or> n > int (Len b)) \<Longrightarrow> nat n \<le> Len b"
    by (simp add: nat_le_iff)
  then show "\<exists>r b'. Truncate n b = (r, b') \<and> buf_ok b' \<and> (if n < 0 \<or> n > int (length (Bytes b))
      then (Inl (GoPanic ''bufalloc.Buffer: truncation out of range''), Bytes b) else (Inr (), take (nat n) (Bytes b))) = (r, Bytes b')"
    using b length_Bytes [OF b]
    by (auto simp: Truncate_def Len_def Let_def buf_ok_def Cap_def Bytes_def take_drop add.commute min_def)
qed

lemma first_at: "d \<notin> set s \<Longrightarrow> takeWhile (\<lambda>x. x \<noteq> d) (s @ d # t) = s" "d \<notin> set s \<Longrightarrow> dropWhile (\<lambda>x. x \<noteq> d) (s @ d # t) = d # t"
  by (induction s) auto

lemma does_ReadBytes:
  "does (ReadBytes d) (\<lambda>s. if d \<in> set s then (Inr (takeWhile (\<lambda>x. x \<noteq> d) s @ [d], False), tl (dropWhile (\<lambda>x. x \<noteq> d) s))
     else (Inr (s, True), []))"
proof (rule doesI)
  fix b
  assume b: "buf_ok b"
  define i where "i = length (takeWhile (\<lambda>x. x \<noteq> d) (Bytes b))"
  show "\<exists>r b'. ReadBytes d b = (r, b') \<and> buf_ok b' \<and> (if d \<in> set (Bytes b)
      then (Inr (takeWhile (\<lambda>x. x \<noteq> d) (Bytes b) @ [d], False), tl (dropWhile (\<lambda>x. x \<noteq> d) (Bytes b)))
      else (Inr (Bytes b, True), [])) = (r, Bytes b')"
  proof (cases "d \<in> set (Bytes b)")
    case False
    then show ?thesis
      using b by (auto simp: ReadBytes_def readSlice_def IndexByte_def bindA_def ret_def buf_ok_def Cap_def Bytes_def)
  next
    case True
    then obtain s t where st: "Bytes b = s @ d # t" "d \<notin> set s"
      by (meson split_list_first)
    then have i: "i = length s" "takeWhile (\<lambda>x. x \<noteq> d) (Bytes b) = s" "dropWhile (\<lambda>x. x \<noteq> d) (Bytes b) = d # t"
      by (simp_all add: i_def first_at)
    have le: "Suc i \<le> Len b"
      using length_Bytes [OF b] st i by simp
    then have "drop (bf_off b) (take (bf_off b + i + 1) (bf_mem b)) = take (Suc i) (Bytes b)"
      using b by (auto simp: Bytes_def take_drop Len_def min_def add.commute)
    also have "\<dots> = s @ [d]"
      using st i by simp
    finally have "drop (bf_off b) (take (bf_off b + i + 1) (bf_mem b)) = s @ [d]" .
    then show ?thesis
      using True advance_ok [OF b le] st i
      by (simp add: ReadBytes_def readSlice_def IndexByte_def bindA_def ret_def i_def [symmetric])
  qed
qed

lemma does_WriteTo:
  "does (WriteTo m e) (\<lambda>s.
     if s = [] then (Inr (0, None), [])
     else if m > length s then (Inl (GoPanic ''bufalloc.Buffer: invalid Write count''), s)
     else (Inr (m, if e = None \<and> m < length s then Some (GoErr ''short write'') else e), drop m s))"
proof (rule doesI)
  fix b
  assume b: "buf_ok b"
  note len = length_Bytes [OF b]
  show "\<exists>r b'. WriteTo m e b = (r, b') \<and> buf_ok b' \<and> (if Bytes b = [] then (Inr (0, None), [])
     else if m > length (Bytes b) then (Inl (GoPanic ''bufalloc.Buffer: invalid Write count''), Bytes b)
     else (Inr (m, if e = None \<and> m < length (Bytes b) then Some (GoErr ''short write'') else e), drop m (Bytes b))) = (r, Bytes b')"
  proof (cases "Bytes b = []")
    case True
    then show ?thesis
      using b empty_iff [OF b] by (auto simp: WriteTo_def bindA_def Truncate_zero ret_def)
  next
    case False
    then have off: "bf_off b < bf_len b"
      using b empty_iff [OF b] by (auto simp: buf_ok_def)
    show ?thesis
    proof (cases "m > Len b")
      case True
      then show ?thesis
        using False off len b by (simp add: WriteTo_def)
    next
      case m: False
      then show ?thesis
        using False off len advance_ok [OF b, of m]
        by (cases e) (auto simp: WriteTo_def Let_def bindA_def Truncate_zero ret_def)
    qed
  qed
qed

lemmas does_ops = does_Write does_WriteByte does_Read does_ReadByte does_ReadBytes does_Next does_Truncate does_Grow does_WriteTo

text \<open>An operation whose answer is wrapped.\<close>

lemma does_wrap:
  assumes "does f g" and "\<And>b. f' b = bindA f (\<lambda>x. ret (h x)) b" and "\<And>s. g' s = bindA g (\<lambda>x. ret (h x)) s"
  shows "does f' g'"
  using does_bind [OF assms(1) does_ret, of h] assms(2,3) by (simp add: does_def)

lemma buf_apply_does: "does (buf_apply opn) (queue_apply opn)"
proof (cases opn)
  case (DoWrite p)
  then show ?thesis
    by (intro does_wrap [OF does_Write, where h = Count]) (auto simp: buf_apply_def queue_apply_def bindA_def ret_def)
next
  case (DoWriteByte c)
  then show ?thesis
    by (intro does_wrap [OF does_WriteByte, where h = "\<lambda>_. NoAns"]) (auto simp: buf_apply_def queue_apply_def bindA_def ret_def)
next
  case (DoRead k)
  then show ?thesis
    by (intro does_wrap [OF does_Read, where h = Got]) (auto simp: buf_apply_def queue_apply_def bindA_def ret_def)
next
  case DoReadByte
  then show ?thesis
    by (intro does_wrap [OF does_ReadByte, where h = GotByte]) (auto simp: buf_apply_def queue_apply_def bindA_def ret_def split: list.split)
next
  case (DoReadBytes d)
  then show ?thesis
    by (intro does_wrap [OF does_ReadBytes, where h = "\<lambda>(l, e). Line l e"])
      (auto simp: buf_apply_def queue_apply_def bindA_def ret_def split_def)
next
  case (DoNext n)
  then show ?thesis
    by (intro does_wrap [OF does_Next, where h = Got]) (auto simp: buf_apply_def queue_apply_def bindA_def ret_def)
next
  case (DoTruncate n)
  then show ?thesis
    by (intro does_wrap [OF does_Truncate, where h = "\<lambda>_. NoAns"]) (auto simp: buf_apply_def queue_apply_def bindA_def ret_def)
next
  case (DoGrow n)
  then show ?thesis
    by (intro does_wrap [OF does_Grow, where h = "\<lambda>_. NoAns"]) (auto simp: buf_apply_def queue_apply_def bindA_def ret_def)
next
  case DoReset
  then show ?thesis
    by (intro does_wrap [OF does_Truncate, where h = "\<lambda>_. NoAns"])
      (auto simp: buf_apply_def queue_apply_def bindA_def ret_def Reset_def)
next
  case (DoWriteTo m e)
  then show ?thesis
    by (intro does_wrap [OF does_WriteTo, where h = "\<lambda>(n, err). Written n err"])
      (auto simp: buf_apply_def queue_apply_def bindA_def ret_def split_def)
qed (auto simp: buf_apply_def queue_apply_def does_def)

text \<open>
  C33: a buffer is a queue of bytes. For every sequence of operations, started on any buffer in good shape,
  the answers, errors and panics are those of the same operations on the list of the unread bytes, and
  the bytes that are left are the same, however the array was moved, reused or grown in between.
\<close>

theorem buffer_refines_queue:
  assumes "buf_ok b" and "run_ops buf_apply opns b = (answers, b')"
  shows "run_ops queue_apply opns (Bytes b) = (answers, Bytes b') \<and> buf_ok b'"
  using assms
proof (induction opns arbitrary: b answers)
  case (Cons opn rest)
  obtain r b1 where one: "buf_apply opn b = (r, b1)" "buf_ok b1" "queue_apply opn (Bytes b) = (r, Bytes b1)"
    using buf_apply_does [of opn] Cons.prems(1) by (auto simp: does_def)
  obtain rs where rest: "run_ops buf_apply rest b1 = (rs, b')" "answers = r # rs"
    using Cons.prems(2) one(1) by (cases "run_ops buf_apply rest b1") auto
  then show ?case
    using Cons.IH [OF one(2) rest(1)] one by simp
qed auto

definition demo_buffer :: ibuffer where
  "demo_buffer = \<lparr> bf_off = 2, bf_len = 4, bf_arr = Some [1, 2, 3, 4] \<rparr>"

definition demo_ops :: "buf_op list" where
  "demo_ops = [DoWrite [5, 10, 6], DoReadByte, DoReadBytes 10, DoTruncate 2, DoRead 3, DoReadByte, DoNext (- 1)]"

theorem buffer_refines_queue_witness:
  "\<exists>b'. run_ops buf_apply demo_ops demo_buffer =
     ([Inr (Count 3), Inr (GotByte 3), Inr (Line [4, 5, 10] False),
       Inl (GoPanic ''bufalloc.Buffer: truncation out of range''), Inr (Got [6]), Inl eof,
       Inl (GoPanic ''slice bounds out of range'')], b') \<and> Bytes b' = [] \<and> buf_ok b'"
proof -
  obtain answers b' where run: "run_ops buf_apply demo_ops demo_buffer = (answers, b')"
    by fastforce
  have "buf_ok demo_buffer" "Bytes demo_buffer = [3, 4]"
    by (simp_all add: demo_buffer_def buf_ok_def Cap_def bf_mem_def Bytes_def)
  then have "run_ops queue_apply demo_ops [3, 4] = (answers, Bytes b')" "buf_ok b'"
    using buffer_refines_queue [OF _ run] by simp_all
  moreover have "run_ops queue_apply demo_ops [3, 4] =
     ([Inr (Count 3), Inr (GotByte 3), Inr (Line [4, 5, 10] False),
       Inl (GoPanic ''bufalloc.Buffer: truncation out of range''), Inr (Got [6]), Inl eof,
       Inl (GoPanic ''slice bounds out of range'')], [])"
    by code_simp
  ultimately show ?thesis
    using run by simp
qed

section \<open>Reading a whole stream\<close>

lemma make_space_ok:
  assumes "buf_ok b"
  shows "buf_ok (make_space b) \<and> Bytes (make_space b) = Bytes b \<and> minRead \<le> Cap (make_space b) - bf_len (make_space b)"
proof (cases "Cap b - bf_len b < minRead")
  case False
  then show ?thesis
    using assms by (simp add: make_space_def)
next
  case True
  have "length (Bytes b) = Len b" "Len b \<le> Cap b" "bf_len b = bf_off b + Len b" "bf_len b \<le> Cap b"
    using assms by simp (use assms in \<open>auto simp: buf_ok_def Len_def\<close>)
  then show ?thesis
    using True by (auto simp: make_space_def Let_def buf_ok_def Cap_def makeSlice_def Bytes_def [of "_\<lparr>bf_off := 0\<rparr>"])
qed

text \<open>A reader that comes to an end, well or not: only its last answer is not \<open>More\<close>.\<close>

definition comes_to_end :: "(byte list \<times> read_end) list \<Rightarrow> bool" where
  "comes_to_end replies \<longleftrightarrow> replies \<noteq> [] \<and> snd (last replies) \<noteq> More \<and> (\<forall>r\<in>set (butlast replies). snd r = More)"

definition end_error :: "read_end \<Rightarrow> go_error option" where
  "end_error e = (case e of Broken err \<Rightarrow> Some err | _ \<Rightarrow> None)"

definition read_all :: "(byte list \<times> read_end) list \<Rightarrow> byte list" where
  "read_all replies = concat (map fst replies)"

lemma read_loop_ok:
  assumes "buf_ok b" and "comes_to_end replies" and "\<forall>r\<in>set replies. length (fst r) \<le> minRead"
  shows "\<exists>b'. read_loop replies n b = Some (Inr (n + length (read_all replies), end_error (snd (last replies))), b')
    \<and> buf_ok b' \<and> Bytes b' = Bytes b @ read_all replies"
  using assms
proof (induction replies arbitrary: n b)
  case Nil
  then show ?case
    by (simp add: comes_to_end_def)
next
  case (Cons reply replies)
  obtain p e where reply: "reply = (p, e)"
    by fastforce
  define b1 where "b1 = make_space b"
  define b2 where "b2 = (put_at (bf_len b1) p b1)\<lparr>bf_len := bf_len b1 + length p\<rparr>"
  have b1: "buf_ok b1" "Bytes b1 = Bytes b" "length p \<le> Cap b1 - bf_len b1"
    using make_space_ok [OF Cons.prems(1)] Cons.prems(3) by (auto simp: b1_def reply)
  have b2: "buf_ok b2" "Bytes b2 = Bytes b @ p"
    using b1 by (auto simp: b2_def put_at_def buf_ok_def Cap_def Bytes_def)
  have step: "read_loop ((p, e) # replies) n b = (case e of
      AtEOF \<Rightarrow> Some (Inr (n + length p, None), b2) | Broken err \<Rightarrow> Some (Inr (n + length p, Some err), b2)
    | More \<Rightarrow> read_loop replies (n + length p) b2)"
    using b1(3) by (cases e) (simp_all add: Let_def b1_def [symmetric] b2_def)
  show ?case
  proof (cases replies)
    case Nil
    then have "e \<noteq> More"
      using Cons.prems(2) by (simp add: comes_to_end_def reply)
    then show ?thesis
      using b2 step Nil by (cases e) (simp_all add: reply read_all_def end_error_def)
  next
    case more: (Cons r rs)
    then have "e = More" "comes_to_end replies"
      using Cons.prems(2) by (simp_all add: comes_to_end_def reply)
    moreover have "last (reply # replies) = last replies"
      using more by simp
    ultimately show ?thesis
      using Cons.IH [OF b2(1), of "n + length p"] Cons.prems(3) b2(2) step
      by (simp add: reply read_all_def add.assoc del: read_loop.simps)
  qed
qed



section \<open>The pool hands out empty buffers\<close>

definition pool_ok :: "bufferPool \<Rightarrow> bool" where
  "pool_ok pool \<longleftrightarrow> (\<forall>num. \<forall>b\<in>set (pool num). buf_ok b)"

lemma putBuffer_ok: "pool_ok pool \<Longrightarrow> buf_ok b \<Longrightarrow> pool_ok (putBuffer b pool)"
  by (auto simp: pool_ok_def putBuffer_def Let_def)

lemma pool_Get_ok:
  assumes "pool_ok pool" and "pool_Get pick num pool = (b, pool')"
  shows "buf_ok b \<and> pool_ok pool'"
proof -
  have "buf_ok (pool_New num)"
    by (simp add: pool_New_def createPool_def buf_ok_def Cap_def bf_mem_def makeSlice_def)
  moreover have "pool_ok (pool(num := take i (pool num) @ drop (Suc i) (pool num)))" for i
    using assms(1) set_take_subset [of i "pool num"] set_drop_subset [of "Suc i" "pool num"] by (auto simp: pool_ok_def)
  moreover have "i < length (pool num) \<Longrightarrow> buf_ok (pool num ! i)" for i
    using assms(1) nth_mem by (auto simp: pool_ok_def)
  ultimately show ?thesis
    using assms by (auto simp: pool_Get_def split: option.splits if_splits)
qed

text \<open>
  C35: whatever the pools hold and whichever buffer \<^verbatim>\<open>sync.Pool\<close> picks, \<^verbatim>\<open>AllocBuffer\<close> returns, and gives an
  empty buffer with room for the bytes asked for; the buffers left in the pools stay in good shape, so
  this also holds after any number of \<^verbatim>\<open>FreeBuffer\<close> and \<^verbatim>\<open>AllocBuffer\<close> calls.
\<close>

theorem AllocBuffer_gives_room:
  assumes "pool_ok pool"
  shows "\<exists>b pool'. AllocBuffer pick n pool = (Inr b, pool') \<and> Bytes b = [] \<and> Len b = 0 \<and> n \<le> int (Cap b)
    \<and> buf_ok b \<and> pool_ok pool' \<and> pool_ok (FreeBuffer (Some b) pool')"
proof -
  obtain b1 pool1 where get: "pool_Get pick (getPoolNum n) pool = (b1, pool1)"
    by fastforce
  then have ok: "buf_ok b1" "pool_ok pool1"
    using pool_Get_ok [OF assms] by auto
  show ?thesis
  proof (cases "int (Cap b1) < n")
    case True
    define b where "b = \<lparr> bf_off = 0, bf_len = 0, bf_arr = Some (makeSlice (nat n)) \<rparr>"
    have "buf_ok b" "Bytes b = []" "Len b = 0" "n \<le> int (Cap b)"
      by (simp_all add: b_def buf_ok_def Bytes_def Len_def Cap_def bf_mem_def makeSlice_def)
    then show ?thesis
      using True get ok putBuffer_ok
      by (simp add: AllocBuffer_def getBuffer_def Let_def Reset_def Truncate_zero FreeBuffer_def b_def)
  next
    case False
    then show ?thesis
      using get ok putBuffer_ok
      by (simp add: AllocBuffer_def getBuffer_def Let_def Reset_def Truncate_zero FreeBuffer_def Len_def Cap_def)
  qed
qed

theorem AllocBuffer_gives_room_witness:
  "\<exists>b pool'. AllocBuffer (Some 0) 100 ((\<lambda>_. [])(1 := [demo_buffer])) = (Inr b, pool') \<and> Bytes b = [] \<and> 100 \<le> Cap b"
proof -
  have "pool_ok ((\<lambda>_. [])(1 := [demo_buffer]))"
    by (simp add: pool_ok_def demo_buffer_def buf_ok_def Cap_def bf_mem_def)
  then show ?thesis
    using AllocBuffer_gives_room [of "(\<lambda>_. [])(1 := [demo_buffer])" "Some 0" 100] by auto
qed

end
