(* ===== verification/SortOrder.thy ===== *)
theory SortOrder
  imports IndexRules "HOL-Library.List_Lexorder" "HOL-Library.Char_ord"
begin

text \<open>
  The sort orders of \<^verbatim>\<open>internal/ps/engine/sortorder\<close>: the comparison of sort values (\<^verbatim>\<open>sort.go\<close>), sort keys
  (\<^verbatim>\<open>sort_field.go\<close>, \<^verbatim>\<open>sort_score.go\<close>) and the parsing of the sort clause of a request (\<^verbatim>\<open>parse.go\<close>).

  An \<^verbatim>\<open>int64\<close> is an integer, with the wrap of its subtraction written out; a \<^verbatim>\<open>time.Time\<close> is its \<^verbatim>\<open>UnixNano\<close>.
  The values that \<^verbatim>\<open>Value()\<close> shows in an answer are not modelled, nor is \<^verbatim>\<open>GetSortOrder\<close>.
\<close>

section \<open>Sort values\<close>

datatype ValueType =
  ValueType_Null | ValueType_String | ValueType_Int | ValueType_Float | ValueType_Bool | ValueType_Date

datatype SortValue =
  InfinitySortValue (iv_Typ: ValueType) (iv_Negative: bool)
| StringSortValue string string
| IntSortValue int string
| FloatSortValue float64 string
| GeoDistanceSortValue float64 string
| DateSortValue int

text \<open>\<^verbatim>\<open>strings.Compare\<close>, and the switch over the sign of a difference.\<close>

definition strings_Compare :: "string \<Rightarrow> string \<Rightarrow> int" where
  "strings_Compare a b = (if a = b then 0 else if a < b then - 1 else 1)"

definition sign_switch :: "int \<Rightarrow> int" where
  "sign_switch c = (if c > 0 then 1 else if c < 0 then - 1 else 0)"

text \<open>
  \<^verbatim>\<open>float64(v)\<close> of an \<^verbatim>\<open>int64\<close>: 53 bits are kept, rounding to nearest and to even. At most eleven bits are
  dropped.
\<close>

definition dropped_bits :: "int \<Rightarrow> nat" where
  "dropped_bits m = length (filter (\<lambda>k. 2 ^ (53 + k) \<le> m) [0..<11])"

definition float64_of_int :: "int \<Rightarrow> float64" where
  "float64_of_int v =
     (let m = \<bar>v\<bar>; u = 2 ^ dropped_bits m; q = m div u; r = m mod u;
          q' = (if 2 * r > u \<or> 2 * r = u \<and> odd q then q + 1 else q)
      in Num (of_int (sgn v * q' * u)))"

definition InfinitySortValue_Compare :: "bool \<Rightarrow> SortValue \<Rightarrow> int" where
  "InfinitySortValue_Compare Negative other =
     (case other of
        InfinitySortValue _ sNegative \<Rightarrow>
          if Negative \<and> \<not> sNegative then - 1 else if \<not> Negative \<and> sNegative then 1 else 0
      | _ \<Rightarrow> if Negative then - 1 else 1)"

definition StringSortValue_Compare :: "string \<Rightarrow> string \<Rightarrow> SortValue \<Rightarrow> int" where
  "StringSortValue_Compare v name other =
     (case other of
        StringSortValue w _ \<Rightarrow> strings_Compare v w
      | InfinitySortValue _ n \<Rightarrow> - 1 * InfinitySortValue_Compare n (StringSortValue v name)
      | _ \<Rightarrow> 1)"

definition IntSortValue_Compare :: "int \<Rightarrow> string \<Rightarrow> SortValue \<Rightarrow> int" where
  "IntSortValue_Compare v name other =
     (case other of
        IntSortValue w _ \<Rightarrow> sign_switch (int64 (v - w))
      | FloatSortValue f _ \<Rightarrow> f_cmp (float64_of_int v) f
      | InfinitySortValue _ n \<Rightarrow> - 1 * InfinitySortValue_Compare n (IntSortValue v name)
      | _ \<Rightarrow> - 1)"

definition FloatSortValue_Compare :: "float64 \<Rightarrow> string \<Rightarrow> SortValue \<Rightarrow> int" where
  "FloatSortValue_Compare v name other =
     (case other of
        FloatSortValue f _ \<Rightarrow> f_cmp v f
      | IntSortValue w _ \<Rightarrow> f_cmp v (float64_of_int w)
      | InfinitySortValue _ n \<Rightarrow> - 1 * InfinitySortValue_Compare n (FloatSortValue v name)
      | _ \<Rightarrow> - 1)"

definition GeoDistanceSortValue_Compare :: "float64 \<Rightarrow> string \<Rightarrow> SortValue \<Rightarrow> int" where
  "GeoDistanceSortValue_Compare v unit_name other =
     (case other of
        GeoDistanceSortValue f _ \<Rightarrow> f_cmp v f
      | InfinitySortValue _ n \<Rightarrow> - 1 * InfinitySortValue_Compare n (GeoDistanceSortValue v unit_name)
      | _ \<Rightarrow> - 1)"

definition DateSortValue_Compare :: "int \<Rightarrow> SortValue \<Rightarrow> int" where
  "DateSortValue_Compare v other = (case other of DateSortValue w \<Rightarrow> sign_switch (int64 (v - w)) | _ \<Rightarrow> - 1)"

text \<open>The method call on the interface.\<close>

definition SortValue_Compare :: "SortValue \<Rightarrow> SortValue \<Rightarrow> int" where
  "SortValue_Compare sv other =
     (case sv of
        InfinitySortValue _ n \<Rightarrow> InfinitySortValue_Compare n other
      | StringSortValue v name \<Rightarrow> StringSortValue_Compare v name other
      | IntSortValue v name \<Rightarrow> IntSortValue_Compare v name other
      | FloatSortValue v name \<Rightarrow> FloatSortValue_Compare v name other
      | GeoDistanceSortValue v u \<Rightarrow> GeoDistanceSortValue_Compare v u other
      | DateSortValue v \<Rightarrow> DateSortValue_Compare v other)"

section \<open>Sort keys\<close>

datatype SortFieldMode =
  SortFieldDefault | SortFieldMin | SortFieldMax | SortFieldSum | SortFieldAvg | SortFieldMedian

datatype SortFieldMissing = SortFieldMissingLast | SortFieldMissingFirst | SortFieldMissingCustom

record SortField =
  sf_Field :: string
  sf_Desc :: bool
  sf_Mode :: SortFieldMode
  sf_Missing :: SortFieldMissing

datatype Sort = SortScore bool | BySortField SortField

definition zero_SortField :: SortField where
  "zero_SortField = \<lparr> sf_Field = [], sf_Desc = False, sf_Mode = SortFieldDefault, sf_Missing = SortFieldMissingLast \<rparr>"

definition Sort_Compare :: "Sort \<Rightarrow> SortValue \<Rightarrow> SortValue \<Rightarrow> int" where
  "Sort_Compare s i j =
     (let c = SortValue_Compare i j in
      if (case s of SortScore d \<Rightarrow> d | BySortField f \<Rightarrow> sf_Desc f) then - 1 * c else c)"

definition Sort_SortField :: "Sort \<Rightarrow> string" where
  "Sort_SortField s = (case s of SortScore _ \<Rightarrow> ScoreField | BySortField f \<Rightarrow> sf_Field f)"

fun so_loop :: "Sort list \<Rightarrow> nat \<Rightarrow> SortValue list \<Rightarrow> SortValue list \<Rightarrow> int res" where
  "so_loop [] i a b = Inr 0"
| "so_loop (s # so) i a b =
     bind_res (go_index a (int i)) (\<lambda>x.
     bind_res (go_index b (int i)) (\<lambda>y.
       let c = Sort_Compare s x y in if c = 0 then so_loop so (Suc i) a b else Inr c))"

definition SortOrder_Compare :: "Sort list \<Rightarrow> SortValue list \<Rightarrow> SortValue list \<Rightarrow> int res" where
  "SortOrder_Compare so a b = so_loop so 0 a b"

text \<open>\<^verbatim>\<open>SortValues.Less\<close> as \<^verbatim>\<open>sort.Sort\<close> calls it, on two elements of the slice.\<close>

definition SortValues_Less :: "SortValue \<Rightarrow> SortValue \<Rightarrow> bool" where
  "SortValues_Less x y \<longleftrightarrow> SortValue_Compare x y < 0"

section \<open>Parsing\<close>

text \<open>
  The values that \<^verbatim>\<open>encoding/json\<close> decodes into \<^verbatim>\<open>interface{}\<close>; a map is listed in the order in which the
  iteration visits it, which Go leaves open. \<^verbatim>\<open>reflect.ValueOf(nil).Type()\<close> panics.
\<close>

datatype any = AnyNil | AnyBool bool | AnyNumber float64 | AnyString string | AnySlice "any list" | AnyMap "(string \<times> any) list"

definition kind_name :: "any \<Rightarrow> string" where
  "kind_name a =
     (case a of AnyBool _ \<Rightarrow> ''bool'' | AnyNumber _ \<Rightarrow> ''float64'' | AnySlice _ \<Rightarrow> ''slice''
      | AnyNil \<Rightarrow> ''invalid'' | AnyString _ \<Rightarrow> ''string'' | AnyMap _ \<Rightarrow> ''map'')"

definition invalid_sort :: go_error where
  "invalid_sort = GoErr ''invalid sort''"

definition nil_type :: go_error where
  "nil_type = GoPanic ''reflect: call of reflect.Value.Type on zero Value''"

definition sort_option :: "string \<Rightarrow> any \<Rightarrow> SortField \<Rightarrow> SortField res" where
  "sort_option key v srt =
     (if key = ''order'' then
        (case v of
           AnyString order \<Rightarrow>
             Inr (if order = ''desc'' then srt\<lparr>sf_Desc := True\<rparr>
                  else if order = ''asc'' then srt\<lparr>sf_Desc := False\<rparr> else srt)
         | _ \<Rightarrow> Inl invalid_sort)
      else if key = ''mode'' then
        (case v of
           AnyString mode \<Rightarrow>
             Inr (if mode = ''min'' then srt\<lparr>sf_Mode := SortFieldMin\<rparr>
                  else if mode = ''max'' then srt\<lparr>sf_Mode := SortFieldMax\<rparr> else srt)
         | _ \<Rightarrow> Inl invalid_sort)
      else if key = ''missing'' then
        (case v of
           AnyString missing \<Rightarrow>
             if missing = ''_last'' then Inr (srt\<lparr>sf_Missing := SortFieldMissingLast\<rparr>)
             else if missing = ''_first'' then Inr (srt\<lparr>sf_Missing := SortFieldMissingFirst\<rparr>)
             else Inl invalid_sort
         | _ \<Rightarrow> Inl invalid_sort)
      else Inr srt)"

fun sort_options :: "(string \<times> any) list \<Rightarrow> SortField \<Rightarrow> SortField res" where
  "sort_options [] srt = Inr srt"
| "sort_options ((key, v) # rest) srt = bind_res (sort_option key v srt) (sort_options rest)"

fun sort_of_map :: "(string \<times> any) list \<Rightarrow> Sort res" where
  "sort_of_map [] = Inl invalid_sort"
| "sort_of_map ((fieldName, sortVal) # rest) =
     (case sortVal of
        AnyNil \<Rightarrow> Inl nil_type
      | AnyString d \<Rightarrow>
          if d = ''desc'' then Inr (BySortField (zero_SortField\<lparr>sf_Field := fieldName, sf_Desc := True\<rparr>))
          else if d = ''asc'' then Inr (BySortField (zero_SortField\<lparr>sf_Field := fieldName, sf_Desc := False\<rparr>))
          else Inl invalid_sort
      | AnyMap opts \<Rightarrow> map_sum id BySortField (sort_options opts (zero_SortField\<lparr>sf_Field := fieldName\<rparr>))
      | _ \<Rightarrow> sort_of_map rest)"

definition parseSort :: "any \<Rightarrow> Sort res" where
  "parseSort s =
     (case s of
        AnyNil \<Rightarrow> Inl nil_type
      | AnyString name \<Rightarrow>
          Inr (if name = ScoreField then SortScore True
               else if name = IdField then BySortField (zero_SortField\<lparr>sf_Field := IdField, sf_Desc := False\<rparr>)
               else BySortField (zero_SortField\<lparr>sf_Field := name, sf_Desc := True\<rparr>))
      | AnyMap kvs \<Rightarrow> sort_of_map kvs
      | _ \<Rightarrow> Inl (GoErr (''invalid sort type '' @ kind_name s)))"

text \<open>\<^verbatim>\<open>parseSortInterface\<close> on a slice, which is what \<^verbatim>\<open>ParseSort\<close> calls it with.\<close>

definition parseSortInterface :: "any list \<Rightarrow> (Sort list) res" where
  "parseSortInterface arr = map_res parseSort arr"

definition defaultSort :: "Sort list" where
  "defaultSort = [SortScore True]"

definition ParseSort :: "(string \<Rightarrow> (any list) res) \<Rightarrow> string \<Rightarrow> (Sort list) res" where
  "ParseSort unmarshal bytes =
     (if bytes = [] then Inr defaultSort else bind_res (unmarshal bytes) parseSortInterface)"

text \<open>\<^verbatim>\<open>SearchDocumentRequest.SortOrder\<close> parses once; \<open>None\<close> is the nil slice that a request starts with.\<close>

definition SearchDocumentRequest_SortOrder ::
  "(string \<Rightarrow> (any list) res) \<Rightarrow> string \<Rightarrow> Sort list option \<Rightarrow> (Sort list) res \<times> Sort list option" where
  "SearchDocumentRequest_SortOrder unmarshal Sort sortOrder =
     (case sortOrder of
        Some so \<Rightarrow> (Inr so, sortOrder)
      | None \<Rightarrow>
          (case ParseSort unmarshal Sort of
             Inl e \<Rightarrow> (Inl e, None)
           | Inr so \<Rightarrow> (Inr so, if so = [] then None else Some so)))"

section \<open>Comparisons\<close>

text \<open>
  What sorting needs of a comparison function on the values that meet: swapping the arguments changes
  the sign, and being less is a strict weak order. \<open>by_keys\<close> compares lists by the first difference.
\<close>

fun by_keys :: "('k \<Rightarrow> 'a \<Rightarrow> 'a \<Rightarrow> int) \<Rightarrow> 'k list \<Rightarrow> 'a list \<Rightarrow> 'a list \<Rightarrow> int" where
  "by_keys cmp (k # ks) (x # xs) (y # ys) = (let c = cmp k x y in if c = 0 then by_keys cmp ks xs ys else c)"
| "by_keys cmp _ _ _ = 0"

locale go_compare =
  fixes cmp :: "'a \<Rightarrow> 'a \<Rightarrow> int" and ok :: "'a \<Rightarrow> bool"
  assumes cmp_swap: "ok x \<Longrightarrow> ok y \<Longrightarrow> cmp x y = - cmp y x"
    and cmp_between: "ok x \<Longrightarrow> ok y \<Longrightarrow> ok z \<Longrightarrow> cmp x z < 0 \<Longrightarrow> cmp x y < 0 \<or> cmp y z < 0"
begin

lemma less_strict_weak: "strict_weak (\<lambda>x y. cmp x y < 0) {x. ok x}"
proof -
  have "\<not> cmp y x < 0" if "ok x" "ok y" "cmp x y < 0" for x y
    using cmp_swap [OF that(1,2)] that(3) by linarith
  then show ?thesis
    using cmp_between by (auto simp: strict_weak_def)
qed

lemma reversed: "go_compare (\<lambda>x y. - cmp x y) ok"
proof
  show "- cmp x y = - (- cmp y x)" if "ok x" "ok y" for x y
    using cmp_swap [OF that] by simp
  show "- cmp x y < 0 \<or> - cmp y z < 0" if "ok x" "ok y" "ok z" "- cmp x z < 0" for x y z
    using cmp_between [of z y x] cmp_swap [of x z] cmp_swap [of x y] cmp_swap [of y z] that by auto
qed

lemma cmp_equal:
  assumes "ok x" "ok y" "ok z" "cmp x y = 0"
  shows "cmp x z < 0 \<longleftrightarrow> cmp y z < 0"
  using cmp_between [OF assms(1,2,3)] cmp_between [OF assms(2,1,3)] cmp_swap [OF assms(1,2)] assms(4) by auto

end

lemma go_compare_by_keys:
  assumes "\<And>k. k \<in> set ks \<Longrightarrow> go_compare (cmp k) (ok k)"
  shows "go_compare (by_keys cmp ks) (\<lambda>xs. list_all2 ok ks xs)"
  using assms
proof (induction ks)
  case Nil
  show ?case
    by standard auto
next
  case (Cons k ks)
  note one = Cons.prems [of k, simplified]
  have rest: "go_compare (by_keys cmp ks) (\<lambda>xs. list_all2 ok ks xs)"
    using Cons by simp
  show ?case
  proof
    fix xs ys
    assume ok: "list_all2 ok (k # ks) xs" "list_all2 ok (k # ks) ys"
    obtain x xs' y ys' where split: "xs = x # xs'" "ys = y # ys'" and h: "ok k x" "ok k y"
      and t: "list_all2 ok ks xs'" "list_all2 ok ks ys'"
      using ok by (auto simp: list_all2_Cons1)
    have "cmp k x y + cmp k y x = 0" "by_keys cmp ks xs' ys' + by_keys cmp ks ys' xs' = 0"
      using go_compare.cmp_swap [OF one h] go_compare.cmp_swap [OF rest t] by linarith+
    then show "by_keys cmp (k # ks) xs ys = - by_keys cmp (k # ks) ys xs"
      unfolding split by_keys.simps Let_def by presburger
  next
    fix xs ys zs
    assume ok: "list_all2 ok (k # ks) xs" "list_all2 ok (k # ks) ys" "list_all2 ok (k # ks) zs"
      and lt: "by_keys cmp (k # ks) xs zs < 0"
    obtain x xs' y ys' z zs' where split: "xs = x # xs'" "ys = y # ys'" "zs = z # zs'"
      and h: "ok k x" "ok k y" "ok k z" and t: "list_all2 ok ks xs'" "list_all2 ok ks ys'" "list_all2 ok ks zs'"
      using ok by (auto simp: list_all2_Cons1)
    have swap: "cmp k z y = - cmp k y z" "cmp k y x = - cmp k x y" "cmp k z x = - cmp k x z"
      by (rule go_compare.cmp_swap [OF one]; fact h)+
    show "by_keys cmp (k # ks) xs ys < 0 \<or> by_keys cmp (k # ks) ys zs < 0"
    proof (cases "cmp k x z = 0")
      case False
      then have "cmp k x z < 0"
        using lt by (simp add: split Let_def)
      then show ?thesis
        using go_compare.cmp_between [OF one h] by (auto simp: split Let_def)
    next
      case True
      then have "by_keys cmp ks xs' zs' < 0"
        using lt by (simp add: split Let_def)
      then have rec: "by_keys cmp ks xs' ys' < 0 \<or> by_keys cmp ks ys' zs' < 0"
        by (rule go_compare.cmp_between [OF rest t])
      have "\<not> cmp k y x < 0 \<or> cmp k y z < 0"
        using go_compare.cmp_between [OF one h(2,3,1)] swap(3) True by auto
      moreover have "\<not> cmp k z y < 0 \<or> cmp k x y < 0"
        using go_compare.cmp_equal [OF one h(1,3,2) True] by simp
      ultimately have "cmp k x y < 0 \<or> cmp k y z < 0 \<or> cmp k x y = 0 \<and> cmp k y z = 0"
        using swap(1,2) by linarith
      then show ?thesis
        using rec by (auto simp: split Let_def)
    qed
  qed
qed

text \<open>A comparison by a key, under any order of the keys.\<close>

definition cmp_of :: "('k \<Rightarrow> 'k \<Rightarrow> bool) \<Rightarrow> 'k \<Rightarrow> 'k \<Rightarrow> int" where
  "cmp_of lt a b = (if lt b a then 1 else if lt a b then - 1 else 0)"

lemma go_compare_key:
  assumes cmp: "\<And>x y. ok x \<Longrightarrow> ok y \<Longrightarrow> cmp x y = cmp_of lt (key x) (key y)" and "strict_weak lt (key ` {x. ok x})"
  shows "go_compare cmp ok"
proof
  have asym: "\<not> lt (key y) (key x)" if "ok x" "ok y" "lt (key x) (key y)" for x y
    using assms(2) that unfolding strict_weak_def by blast
  show "cmp x y = - cmp y x" if "ok x" "ok y" for x y
    using asym [OF that] asym [OF that(2,1)] unfolding cmp [OF that] cmp [OF that(2,1)] cmp_of_def by auto
  have less: "cmp x y < 0 \<longleftrightarrow> lt (key x) (key y)" if "ok x" "ok y" for x y
    using asym [OF that] unfolding cmp [OF that] cmp_of_def by auto
  show "cmp x y < 0 \<or> cmp y z < 0" if "ok x" "ok y" "ok z" "cmp x z < 0" for x y z
    using assms(2) that(1-3) that(4) unfolding less [OF that(1,3)] less [OF that(1,2)] less [OF that(2,3)] strict_weak_def
    by blast
qed

text \<open>The values that one sort key meets, in the ranges in which the comparison is exact.\<close>

datatype value_kind = Numbers | Strings | Distances | Dates

definition fits :: "value_kind \<Rightarrow> SortValue \<Rightarrow> bool" where
  "fits k v \<longleftrightarrow>
     (case v of
        InfinitySortValue _ _ \<Rightarrow> k \<noteq> Dates
      | StringSortValue _ _ \<Rightarrow> k = Strings
      | IntSortValue i _ \<Rightarrow> k = Numbers \<and> \<bar>i\<bar> < 2 ^ 53
      | FloatSortValue f _ \<Rightarrow> k = Numbers \<and> f \<noteq> NaN
      | GeoDistanceSortValue f _ \<Rightarrow> k = Distances \<and> f \<noteq> NaN
      | DateSortValue d \<Rightarrow> k = Dates \<and> \<bar>d\<bar> < 2 ^ 62)"

text \<open>The key of a value: below, above or between the infinities.\<close>

definition layer :: "SortValue \<Rightarrow> int" where
  "layer v = (case v of InfinitySortValue _ n \<Rightarrow> if n then - 1 else 1 | _ \<Rightarrow> 0)"

definition num_key :: "SortValue \<Rightarrow> float64" where
  "num_key v = (case v of IntSortValue i _ \<Rightarrow> Num (of_int i) | FloatSortValue f _ \<Rightarrow> f | GeoDistanceSortValue f _ \<Rightarrow> f
     | DateSortValue d \<Rightarrow> Num (of_int d) | _ \<Rightarrow> Num 0)"

definition layered :: "('k \<Rightarrow> 'k \<Rightarrow> bool) \<Rightarrow> int \<times> 'k \<Rightarrow> int \<times> 'k \<Rightarrow> bool" where
  "layered lt a b \<longleftrightarrow> fst a < fst b \<or> fst a = fst b \<and> lt (snd a) (snd b)"

lemma layered_strict_weak: "strict_weak lt (snd ` A) \<Longrightarrow> strict_weak (layered lt) A"
  unfolding strict_weak_def layered_def by (auto 4 3)

lemma f_lt_strict_weak: "NaN \<notin> A \<Longrightarrow> strict_weak f_lt A"
  unfolding strict_weak_def using f_lt_asym f_lt_negtrans by metis

lemma exact_float: "\<bar>v\<bar> < 2 ^ 53 \<Longrightarrow> float64_of_int v = Num (of_int v)"
proof -
  assume v: "\<bar>v\<bar> < 2 ^ 53"
  have "\<not> 2 ^ (53 + k) \<le> \<bar>v\<bar>" for k
    using v power_increasing [of 53 "53 + k" "2 :: int"] by linarith
  then have "dropped_bits \<bar>v\<bar> = 0"
    by (simp add: dropped_bits_def)
  then show ?thesis
    by (simp add: float64_of_int_def Let_def mult_sgn_abs del: of_int_mult of_int_abs)
qed

lemma sign_switch_diff:
  assumes "\<bar>v - w\<bar> < 2 ^ 63"
  shows "sign_switch (int64 (v - w)) = f_cmp (Num (of_int v)) (Num (of_int w))"
proof -
  have "int64 (v - w) = v - w"
    using assms by (intro int64_id) auto
  then show ?thesis
    by (simp add: sign_switch_def f_cmp_def)
qed

lemmas compare_defs = SortValue_Compare_def InfinitySortValue_Compare_def StringSortValue_Compare_def IntSortValue_Compare_def
  FloatSortValue_Compare_def GeoDistanceSortValue_Compare_def DateSortValue_Compare_def

lemma compare_numeric:
  assumes "fits k v" and "fits k w" and "k \<noteq> Strings"
  shows "SortValue_Compare v w = cmp_of (layered f_lt) (layer v, num_key v) (layer w, num_key w)"
proof -
  have *: "\<bar>a - b\<bar> < 2 ^ 63" if "\<bar>a\<bar> < 2 ^ 62" "\<bar>b\<bar> < 2 ^ 62" for a b :: int
    using that by (auto simp: abs_less_iff)
  have **: "\<bar>a - b\<bar> < 2 ^ 63" if "\<bar>a\<bar> < 2 ^ 53" "\<bar>b\<bar> < 2 ^ 53" for a b :: int
    using that by (auto simp: abs_less_iff)
  show ?thesis
    using assms
    by (cases v; cases w)
      (auto simp: fits_def compare_defs cmp_of_def layered_def layer_def num_key_def exact_float sign_switch_diff [OF *]
        sign_switch_diff [OF **] f_cmp_def)
qed

lemma compare_strings:
  assumes "fits Strings v" and "fits Strings w"
  shows "SortValue_Compare v w = cmp_of (layered (<))
    (layer v, case v of StringSortValue s _ \<Rightarrow> s | _ \<Rightarrow> []) (layer w, case w of StringSortValue s _ \<Rightarrow> s | _ \<Rightarrow> [])"
  using assms
  by (cases v; cases w) (auto simp: fits_def compare_defs cmp_of_def layered_def layer_def strings_Compare_def)

lemma strings_ordered: "go_compare SortValue_Compare (fits Strings)"
proof (rule go_compare_key [OF compare_strings])
  have "x < y \<or> y < z" if "x < z" for x y z :: string
    using le_less_trans [OF leI that, of y] by blast
  then have "strict_weak (<) A" for A :: "string set"
    unfolding strict_weak_def using less_asym by blast
  then show "strict_weak (layered (<)) ((\<lambda>v. (layer v, case v of StringSortValue s _ \<Rightarrow> s | _ \<Rightarrow> [])) ` {v. fits Strings v})"
    by (rule layered_strict_weak)
qed

lemma numbers_ordered:
  assumes "k \<noteq> Strings"
  shows "go_compare SortValue_Compare (fits k)"
proof (rule go_compare_key [OF compare_numeric [OF _ _ assms]])
  have "NaN \<noteq> num_key v" if "fits k v" for v
    using that by (auto simp: num_key_def fits_def split: SortValue.splits)
  then show "strict_weak (layered f_lt) ((\<lambda>v. (layer v, num_key v)) ` {v. fits k v})"
    by (intro layered_strict_weak f_lt_strict_weak) auto
qed

interpretation sort_value: go_compare SortValue_Compare "fits k" for k
  using strings_ordered numbers_ordered [of k] by (cases "k = Strings") simp_all

lemma Sort_Compare_ok: "go_compare (Sort_Compare s) (fits k)"
proof -
  define desc where "desc = (case s of SortScore d \<Rightarrow> d | BySortField f \<Rightarrow> sf_Desc f)"
  have "Sort_Compare s = (if desc then (\<lambda>i j. - SortValue_Compare i j) else SortValue_Compare)"
    by (simp add: fun_eq_iff Sort_Compare_def Let_def desc_def)
  then show ?thesis
    using sort_value.reversed [of k] sort_value.go_compare_axioms [of k] by simp
qed

section \<open>Rows\<close>

definition key_compare :: "Sort \<times> value_kind \<Rightarrow> SortValue \<Rightarrow> SortValue \<Rightarrow> int" where
  "key_compare = (\<lambda>(s, k). Sort_Compare s)"

definition row_fits :: "Sort list \<Rightarrow> value_kind list \<Rightarrow> SortValue list \<Rightarrow> bool" where
  "row_fits so kinds row \<longleftrightarrow> length kinds = length so \<and> list_all2 fits kinds row"

lemma rows_compare: "go_compare (by_keys key_compare (zip so kinds)) (\<lambda>row. list_all2 (\<lambda>(s, k). fits k) (zip so kinds) row)"
  by (rule go_compare_by_keys) (auto simp: key_compare_def Sort_Compare_ok)

lemma so_loop_by_keys:
  assumes "list_all2 fits kinds (drop i a)" and "list_all2 fits kinds (drop i b)" and "length kinds = length so"
  shows "so_loop so i a b = Inr (by_keys key_compare (zip so kinds) (drop i a) (drop i b))"
  using assms
proof (induction so arbitrary: i kinds)
  case (Cons s so)
  obtain k ks where kinds: "kinds = k # ks" "length ks = length so"
    using Cons.prems(3) by (cases kinds) auto
  then have "i < length a" "i < length b"
    using Cons.prems(1,2) by (auto simp: list_all2_Cons1 dest: arg_cong [where f = length])
  then have "drop i a = a ! i # drop (Suc i) a" "drop i b = b ! i # drop (Suc i) b"
    by (simp_all add: Cons_nth_drop_Suc)
  then show ?case
    using Cons.prems(1,2) Cons.IH [of ks "Suc i"] kinds \<open>i < length a\<close> \<open>i < length b\<close>
    by (simp add: key_compare_def Let_def)
qed simp

definition row_less :: "Sort list \<Rightarrow> SortValue list \<Rightarrow> SortValue list \<Rightarrow> bool" where
  "row_less so a b \<longleftrightarrow> (case SortOrder_Compare so a b of Inr c \<Rightarrow> c < 0 | Inl _ \<Rightarrow> False)"

lemma row_fits_zip: "row_fits so kinds row \<Longrightarrow> list_all2 (\<lambda>(s, k). fits k) (zip so kinds) row"
  by (auto simp: row_fits_def list_all2_conv_all_nth)

lemma SortOrder_Compare_by_keys:
  "row_fits so kinds a \<Longrightarrow> row_fits so kinds b \<Longrightarrow> SortOrder_Compare so a b = Inr (by_keys key_compare (zip so kinds) a b)"
  using so_loop_by_keys [of kinds 0 a b so] by (simp add: SortOrder_Compare_def row_fits_def)

text \<open>
  C36: a sort order sorts. On rows that have, in every column, values of one kind in the exact range, with
  \<^verbatim>\<open>Infinity\<close> for missing ones, comparing two rows never panics; it is antisymmetric, and any sort
  that keeps the contract of Go's sort brings the rows into an order in which no row comes before
  a smaller one, whatever mix of ascending and descending keys is asked for.
\<close>

theorem sort_order_sorts:
  assumes "go_sort sortf" and "\<forall>row\<in>set rows. row_fits so kinds row"
  shows "mset (sortf (row_less so) rows) = mset rows
    \<and> sorted_wrt (\<lambda>a b. \<not> row_less so b a) (sortf (row_less so) rows)
    \<and> (\<forall>a\<in>set rows. \<forall>b\<in>set rows. \<exists>c. SortOrder_Compare so a b = Inr c \<and> SortOrder_Compare so b a = Inr (- c))"
proof -
  have ok: "list_all2 (\<lambda>(s, k). fits k) (zip so kinds) row" if "row \<in> set rows" for row
    using assms(2) that row_fits_zip by blast
  have cmp: "SortOrder_Compare so a b = Inr (by_keys key_compare (zip so kinds) a b)" if "a \<in> set rows" "b \<in> set rows" for a b
    using assms(2) that SortOrder_Compare_by_keys by blast
  have "row_less so a b \<longleftrightarrow> by_keys key_compare (zip so kinds) a b < 0" if "a \<in> set rows" "b \<in> set rows" for a b
    by (simp add: row_less_def cmp [OF that])
  then have "strict_weak (row_less so) (set rows)"
    using go_compare.less_strict_weak [OF rows_compare [of so kinds]] ok by (simp add: strict_weak_def)
  then have sorted: "sorted_wrt (\<lambda>a b. \<not> row_less so b a) (sortf (row_less so) rows)"
    by (rule go_sort.sort_sorted [OF assms(1)])
  have "SortOrder_Compare so b a = Inr (- by_keys key_compare (zip so kinds) a b)" if "a \<in> set rows" "b \<in> set rows" for a b
    using go_compare.cmp_swap [OF rows_compare ok [OF that(2)] ok [OF that(1)]] cmp [OF that(2,1)] by simp
  then show ?thesis
    using go_sort.sort_mset [OF assms(1)] sorted cmp by blast
qed

definition demo_order :: "Sort list" where
  "demo_order = [BySortField (zero_SortField\<lparr>sf_Field := ''price'', sf_Desc := True\<rparr>), BySortField (zero_SortField\<lparr>sf_Field := ''name''\<rparr>)]"

definition demo_rows :: "SortValue list list" where
  "demo_rows =
     [[IntSortValue 3 ''price'', StringSortValue ''b'' ''name''],
      [InfinitySortValue ValueType_Int True, StringSortValue ''c'' ''name''],
      [FloatSortValue (Num 3) ''price'', StringSortValue ''a'' ''name'']]"

theorem sort_order_sorts_witness:
  "sorted_wrt (\<lambda>a b. \<not> row_less demo_order b a) (insertion_sort (row_less demo_order) demo_rows)
    \<and> row_less demo_order (demo_rows ! 2) (demo_rows ! 0) \<and> row_less demo_order (demo_rows ! 0) (demo_rows ! 1)"
proof -
  have "\<forall>row\<in>set demo_rows. row_fits demo_order [Numbers, Strings] row"
    by (simp add: demo_rows_def demo_order_def row_fits_def fits_def)
  then have "sorted_wrt (\<lambda>a b. \<not> row_less demo_order b a) (insertion_sort (row_less demo_order) demo_rows)"
    using sort_order_sorts [OF insertion.go_sort_axioms] by blast
  moreover have "row_less demo_order (demo_rows ! 2) (demo_rows ! 0)" "row_less demo_order (demo_rows ! 0) (demo_rows ! 1)"
    by code_simp+
  ultimately show ?thesis
    by simp
qed


section \<open>The sort clause\<close>

definition option_ok :: "string \<times> any \<Rightarrow> bool" where
  "option_ok kv \<longleftrightarrow>
     (fst kv \<in> {''order'', ''mode'', ''missing''} \<longrightarrow> (\<exists>s. snd kv = AnyString s))
     \<and> (fst kv = ''missing'' \<longrightarrow> snd kv \<in> {AnyString ''_last'', AnyString ''_first''})"

lemma sort_option_fails: "\<not> option_ok (k, v) \<Longrightarrow> sort_option k v srt = Inl invalid_sort"
  by (auto simp: sort_option_def option_ok_def split: any.splits)

text \<open>What the options of a key mean, each on its own.\<close>

definition option_set :: "(string \<times> 'x) list \<Rightarrow> any option \<Rightarrow> 'x \<Rightarrow> 'x" where
  "option_set table v old = (case v of Some (AnyString s) \<Rightarrow> (case map_of table s of Some x \<Rightarrow> x | None \<Rightarrow> old) | _ \<Rightarrow> old)"

lemma option_set_simps:
  "option_set table None old = old"
  "option_set table (Some (AnyString s)) old = (case map_of table s of Some x \<Rightarrow> x | None \<Rightarrow> old)"
  by (simp_all add: option_set_def)

definition described :: "(string \<rightharpoonup> any) \<Rightarrow> SortField \<Rightarrow> SortField" where
  "described m srt = srt\<lparr>
     sf_Desc := option_set [(''desc'', True), (''asc'', False)] (m ''order'') (sf_Desc srt),
     sf_Mode := option_set [(''min'', SortFieldMin), (''max'', SortFieldMax)] (m ''mode'') (sf_Mode srt),
     sf_Missing := option_set [(''_last'', SortFieldMissingLast), (''_first'', SortFieldMissingFirst)] (m ''missing'') (sf_Missing srt)\<rparr>"

lemma sort_option_described:
  assumes "option_ok (k, v)" and "m k = None"
  shows "\<exists>srt'. sort_option k v srt = Inr srt' \<and> described m srt' = described (m(k \<mapsto> v)) srt"
proof -
  consider "k = ''order''" | "k = ''mode''" | "k = ''missing''" | "k \<notin> {''order'', ''mode'', ''missing''}"
    by blast
  then show ?thesis
  proof cases
    case 4
    then have "k \<noteq> ''order''" "k \<noteq> ''mode''" "k \<noteq> ''missing''"
      by blast+
    then have "(m(k \<mapsto> v)) ''order'' = m ''order''" "(m(k \<mapsto> v)) ''mode'' = m ''mode''" "(m(k \<mapsto> v)) ''missing'' = m ''missing''"
      by (metis fun_upd_other)+
    then show ?thesis
      using 4 by (simp add: sort_option_def described_def del: fun_upd_apply)
  next
    case 1
    then obtain s where v: "v = AnyString s"
      using assms(1) by (auto simp: option_ok_def)
    show ?thesis
      using assms(2) by (simp add: 1 v sort_option_def described_def option_set_simps)
  next
    case 2
    then obtain s where v: "v = AnyString s"
      using assms(1) by (auto simp: option_ok_def)
    show ?thesis
      using assms(2) by (simp add: 2 v sort_option_def described_def option_set_simps)
  next
    case 3
    then consider "v = AnyString ''_last''" | "v = AnyString ''_first''"
      using assms(1) by (auto simp: option_ok_def)
    then show ?thesis
      using assms(2) by cases (simp_all add: 3 sort_option_def described_def option_set_simps)
  qed
qed

lemma sort_options_described:
  assumes "distinct (map fst opts)"
  shows "sort_options opts srt = (if \<forall>kv\<in>set opts. option_ok kv then Inr (described (map_of opts) srt) else Inl invalid_sort)"
  using assms
proof (induction opts arbitrary: srt)
  case Nil
  show ?case
    by (simp add: described_def option_set_def)
next
  case (Cons kv opts)
  obtain k v where kv: "kv = (k, v)"
    by fastforce
  show ?case
  proof (cases "option_ok kv")
    case True
    then obtain srt' where "sort_option k v srt = Inr srt'" "described (map_of opts) srt' = described ((map_of opts)(k \<mapsto> v)) srt"
      using sort_option_described [of k v "map_of opts" srt] Cons.prems by (auto simp: kv map_of_eq_None_iff)
    then show ?thesis
      using Cons.IH [of srt'] Cons.prems True by (simp add: kv fun_upd_def)
  next
    case False
    then show ?thesis
      by (simp add: kv sort_option_fails)
  qed
qed

text \<open>
  The options of a sort key. An object with the options \<^verbatim>\<open>order\<close>, \<^verbatim>\<open>mode\<close> and \<^verbatim>\<open>missing\<close> is accepted exactly
  if each option that is there has a value it allows, and then the key is the one that the options
  describe, each option setting its own attribute; in particular the order in which
  Go visits the object does not matter.
\<close>

theorem sort_key_options:
  assumes "distinct (map fst opts)" and "distinct (map fst visited)" and "set visited = set opts"
  shows "parseSort (AnyMap [(name, AnyMap visited)]) =
    (if \<forall>kv\<in>set opts. option_ok kv
     then Inr (BySortField (described (map_of opts) (zero_SortField\<lparr>sf_Field := name\<rparr>)))
     else Inl invalid_sort)"
proof -
  have "map_of visited = map_of opts"
    using map_of_inject_set [OF assms(2,1)] assms(3) by simp
  then show ?thesis
    using assms by (simp add: parseSort_def sort_options_described)
qed

theorem sort_key_options_witness:
  "parseSort (AnyMap [(''price'', AnyMap [(''missing'', AnyString ''_first''), (''order'', AnyString ''desc'')])])
     = Inr (BySortField \<lparr> sf_Field = ''price'', sf_Desc = True, sf_Mode = SortFieldDefault, sf_Missing = SortFieldMissingFirst \<rparr>)
   \<and> parseSort (AnyMap [(''price'', AnyMap [(''order'', AnyNumber (Num 1))])]) = Inl invalid_sort"
  using sort_key_options [of "[(''order'', AnyString ''desc''), (''missing'', AnyString ''_first'')]"
      "[(''missing'', AnyString ''_first''), (''order'', AnyString ''desc'')]" "''price''"]
    sort_key_options [of "[(''order'', AnyNumber (Num 1))]" "[(''order'', AnyNumber (Num 1))]" "''price''"]
  by (auto simp: option_ok_def described_def option_set_def zero_SortField_def)

text \<open>
  An object with two fields means one of them, whichever is visited first, and null is a panic.
\<close>

lemma ParseSort_depends_on_visit:
  "parseSort (AnyMap [(''a'', AnyString ''asc''), (''b'', AnyString ''desc'')])
     \<noteq> parseSort (AnyMap [(''b'', AnyString ''desc''), (''a'', AnyString ''asc'')])"
  "parseSortInterface [AnyNil] = Inl nil_type"
  by (simp_all add: parseSort_def parseSortInterface_def zero_SortField_def)

end
