(* ===== verification/MemberService.thy ===== *)
theory MemberService
  imports SpaceUpdate MasterRequests
begin

text \<open>
  \<^verbatim>\<open>internal/master/services/member_service.go\<close>: the members of the master cluster, and the replicas of a
  partition (\<^verbatim>\<open>ChangeMember\<close>, \<^verbatim>\<open>ChangeMembers\<close>, \<^verbatim>\<open>ChangeReplica\<close>).

  The environment is that of the space service, with the calls it does not make: \<open>me_raft\<close> is
  \<^verbatim>\<open>client.ChangeMember\<close> on the leader of the partition, \<open>me_sort\<close> is \<^verbatim>\<open>sort.Slice\<close> on servers, \<open>me_held\<close>
  says whether another process holds the lock that \<^verbatim>\<open>TryLock\<close> asks for, and the remaining ones are
  the member calls of the etcd cluster. They can change the store in any way, which includes what other
  masters do in the meantime.

  \<^verbatim>\<open>CatchError\<close> drops what \<^verbatim>\<open>ThrowError\<close> and run-time panics throw (\<open>thrown\<close>); an error that is assigned to the
  named result before the panic is returned.
\<close>

section \<open>Data\<close>

record entity_ChangeMember =
  cm_PartitionID :: "32 word"
  cm_NodeID :: "64 word"
  cm_Method :: ConfChangeType

record entity_ChangeMembers =
  cms_PartitionIDs :: "32 word list"
  cms_NodeID :: "64 word"
  cms_Method :: ConfChangeType

record MemberInfo =
  mb_ID :: "64 word"
  mb_Name :: string

record member_env =
  me_env :: space_env
  me_schema :: schema_arrays
  me_raft :: "string \<Rightarrow> entity_ChangeMember \<Rightarrow> (world, unit) act"
  me_sort :: "nat \<Rightarrow> (Server \<Rightarrow> Server \<Rightarrow> bool) \<Rightarrow> Server list \<Rightarrow> Server list"
  me_held :: "world \<Rightarrow> bool"
  me_add :: "string list \<Rightarrow> (world, MemberInfo) act"
  me_list :: "(world, MemberInfo list) act"
  me_remove :: "64 word \<Rightarrow> (world, unit) act"
  me_sync :: "(world, unit) act"

section \<open>Members of the master cluster\<close>

definition AddMember :: "member_env \<Rightarrow> string list \<Rightarrow> (world, MemberInfo) act" where
  "AddMember me peerAddrs = me_add me peerAddrs"

definition RemoveMember :: "member_env \<Rightarrow> MemberInfo \<Rightarrow> (world, unit) act" where
  "RemoveMember me master =
     bindA (me_list me) (\<lambda>members.
     bindA (lift (guard (length members \<le> 1) (param_err ''cann't remove member now''))) (\<lambda>_.
     bindA (lift (guard (\<not> (\<exists>m\<in>set members. mb_ID m = mb_ID master \<and> mb_Name m = mb_Name master))
              (param_err ''master member not found''))) (\<lambda>_.
     caseA (me_remove me (mb_ID master))
       (\<lambda>e. fail (param_err ''remove master member err''))
       (\<lambda>_.
     bindA (STM (stm_Del (MasterMemberKey (en_ks (me_env me)) (mb_ID master)))) (\<lambda>_.
     me_sync me)))))"

section \<open>The replicas of a partition\<close>

text \<open>The new list of replicas; \<^verbatim>\<open>make\<close> panics on the negative capacity that an empty list gives.\<close>

definition new_replicas :: "entity_ChangeMember \<Rightarrow> 64 word list \<Rightarrow> (64 word list) res" where
  "new_replicas cm replicas =
     (if cm_Method cm \<noteq> ConfRemoveNode then
        if cm_NodeID cm \<in> set replicas then Inl (param_err ''partition already on server'')
        else Inr (replicas @ [cm_NodeID cm])
      else if replicas = [] then Inl (GoPanic ''makeslice: cap out of range'')
      else Inr (filter (\<lambda>n. n \<noteq> cm_NodeID cm) replicas))"

text \<open>\<^verbatim>\<open>GetPartition\<close> returns a pointer into the space, through which the replicas are set.\<close>

fun set_replicas :: "32 word \<Rightarrow> 64 word list \<Rightarrow> Partition list \<Rightarrow> Partition list" where
  "set_replicas pid rs [] = []"
| "set_replicas pid rs (p # ps) = (if pt_Id p = pid then p\<lparr>pt_Replicas := rs\<rparr> # ps else p # set_replicas pid rs ps)"

definition with_member :: "entity_ChangeMember \<Rightarrow> Space \<Rightarrow> Space res" where
  "with_member cm space =
     (case GetPartition space (cm_PartitionID cm) of
        None \<Rightarrow> Inl (GoPanic ''nil pointer dereference'')
      | Some p \<Rightarrow> bind_res (new_replicas cm (pt_Replicas p)) (\<lambda>rs.
          Inr (space\<lparr>sp_Partitions := set_replicas (cm_PartitionID cm) rs (sp_Partitions space)\<rparr>)))"

text \<open>The loop that looks for the leader again while it is unknown, ten times at most.\<close>

fun leader_loop :: "space_env \<Rightarrow> 32 word \<Rightarrow> nat \<Rightarrow> go_error \<Rightarrow> (world, Server) act" where
  "leader_loop en pid 0 err = fail err"
| "leader_loop en pid (Suc n) err =
     bindA (QueryPartition (en_ks en) (en_pc en) pid) (\<lambda>part.
     caseA (QueryServer (en_ks en) (en_vc en) (pt_LeaderID part))
       (\<lambda>e. if n = 0 then fail e else (\<lambda>w. leader_loop en pid n e (en_sleep en w)))
       ret)"

definition find_leader :: "space_env \<Rightarrow> Partition \<Rightarrow> 32 word \<Rightarrow> (world, Server) act" where
  "find_leader en part pid =
     caseA (QueryServer (en_ks en) (en_vc en) (pt_LeaderID part)) (\<lambda>e. leader_loop en pid 10 e) ret"

definition find_target :: "space_env \<Rightarrow> entity_ChangeMember \<Rightarrow> (world, Server option) act" where
  "find_target en cm =
     caseA (QueryServer (en_ks en) (en_vc en) (cm_NodeID cm))
       (\<lambda>e. if cm_Method cm = ConfRemoveNode then ret None else fail e)
       (\<lambda>s. ret (Some s))"

definition create_on_target :: "space_env \<Rightarrow> Space \<Rightarrow> entity_ChangeMember \<Rightarrow> Server option \<Rightarrow> (world, unit) act" where
  "create_on_target en space cm target =
     (case (cm_Method cm, target) of
        (ConfAddNode, Some t) \<Rightarrow>
          caseA (en_create en (RpcAddr (en_cl en) t) space (cm_PartitionID cm))
            (\<lambda>e. fail (NewError INTERNAL_ERROR (Some (GoErr ''create partiiton has err'')))) ret
      | (ConfRemoveNode, _) \<Rightarrow> ret ()
      | _ \<Rightarrow> fail (NewError INTERNAL_ERROR (Some (GoErr ''change member only support add remove''))))"

definition delete_on_target :: "space_env \<Rightarrow> entity_ChangeMember \<Rightarrow> Server option \<Rightarrow> (world, unit) act" where
  "delete_on_target en cm target =
     (case target of
        Some t \<Rightarrow>
          if cm_Method cm = ConfRemoveNode \<and> en_live en 1 (RpcAddr (en_cl en) t) then
            caseA (en_delete en (RpcAddr (en_cl en) t) (cm_PartitionID cm))
              (\<lambda>e. fail (NewError INTERNAL_ERROR (Some (GoErr ''delete partiiton has err'')))) ret
          else ret ()
      | None \<Rightarrow> ret ())"

definition ChangeMember :: "member_env \<Rightarrow> entity_ChangeMember \<Rightarrow> (world, unit) act" where
  "ChangeMember me cm =
     (let en = me_env me in
      bindA (QueryPartition (en_ks en) (en_pc en) (cm_PartitionID cm)) (\<lambda>part.
      bindA (QuerySpaceByID (en_ks en) (en_sc en) (pt_DBId part) (pt_SpaceId part)) (\<lambda>space0.
      bindA (QueryDBId2Name (en_ks en) (sp_DBId space0)) (\<lambda>dbName.
      bindA (lift (with_member cm space0)) (\<lambda>space.
      bindA (find_leader en part (cm_PartitionID cm)) (\<lambda>psNode.
      bindA (find_target en cm) (\<lambda>targetNode.
      bindA (lift (guard (\<not> en_live en 0 (RpcAddr (en_cl en) psNode))
               (NewError PARTITION_SERVER_ERROR (Some (GoErr ''can not connect''))))) (\<lambda>_.
      bindA (create_on_target en space cm targetNode) (\<lambda>_.
      bindA (me_raft me (RpcAddr (en_cl en) psNode) cm) (\<lambda>_.
      bindA (delete_on_target en cm targetNode) (\<lambda>_.
      bindA (UpdateSpace en (me_schema me) dbName (sp_Name space) space (Some (sp_Partitions space)) ''config'') (\<lambda>_.
      ret ()))))))))))))"

definition ChangeMembers :: "member_env \<Rightarrow> entity_ChangeMembers \<Rightarrow> (world, unit) act" where
  "ChangeMembers me cms =
     eachA (\<lambda>pid. ChangeMember me \<lparr> cm_PartitionID = pid, cm_NodeID = cms_NodeID cms, cm_Method = cms_Method cms \<rparr>)
       (cms_PartitionIDs cms)"

section \<open>One replica more or less\<close>

definition isPartitionIdInSlice :: "'a \<Rightarrow> 'a list \<Rightarrow> nat option" where
  "isPartitionIdInSlice x xs = (if x \<in> set xs then Some (length (takeWhile (\<lambda>y. y \<noteq> x) xs)) else None)"

text \<open>
  The change that one server is asked for, and its list of partitions afterwards. A database can list
  a server twice, and then both entries are the same object: the new list is set for all entries
  with its id.
\<close>

definition plan_on :: "ConfChangeType \<Rightarrow> Partition \<Rightarrow> Server \<Rightarrow> (32 word list) option" where
  "plan_on method part s =
     (case method of
        ConfAddNode \<Rightarrow>
          (case isPartitionIdInSlice (sv_ID s) (pt_Replicas part) of
             None \<Rightarrow> Some (sv_PartitionIds s @ [pt_Id part])
           | Some _ \<Rightarrow> None)
      | ConfRemoveNode \<Rightarrow>
          (case isPartitionIdInSlice (pt_Id part) (sv_PartitionIds s) of
             Some i \<Rightarrow> Some (take i (sv_PartitionIds s) @ drop (Suc i) (sv_PartitionIds s))
           | None \<Rightarrow> None)
      | ConfOther \<Rightarrow> None)"

fun plan_partition :: "ConfChangeType \<Rightarrow> Partition \<Rightarrow> Server list \<Rightarrow> (Server \<times> 32 word list) option" where
  "plan_partition method part [] = None"
| "plan_partition method part (s # servers) =
     (case plan_on method part s of Some ids \<Rightarrow> Some (s, ids) | None \<Rightarrow> plan_partition method part servers)"

fun plan_changes ::
  "(nat \<Rightarrow> (Server \<Rightarrow> Server \<Rightarrow> bool) \<Rightarrow> Server list \<Rightarrow> Server list) \<Rightarrow> ConfChangeType \<Rightarrow> nat \<Rightarrow> Partition list \<Rightarrow>
     Server list \<Rightarrow> entity_ChangeMember list" where
  "plan_changes sortf method i [] servers = []"
| "plan_changes sortf method i (p # ps) servers =
     (let by_load = sortf i (\<lambda>a b. length (sv_PartitionIds a) < length (sv_PartitionIds b)) servers in
      case plan_partition method p by_load of
        None \<Rightarrow> plan_changes sortf method (Suc i) ps by_load
      | Some (s, ids) \<Rightarrow>
          \<lparr> cm_PartitionID = pt_Id p, cm_NodeID = sv_ID s, cm_Method = method \<rparr> #
          plan_changes sortf method (Suc i) ps
            (map (\<lambda>t. if sv_ID t = sv_ID s then t\<lparr>sv_PartitionIds := ids\<rparr> else t) by_load))"

text \<open>\<^verbatim>\<open>TryLock\<close>: a lease, the key under it, and a look at the older keys; a failed lease is given back.\<close>

definition TryLock :: "bool \<Rightarrow> (world, unit) act" where
  "TryLock held =
     bindA noop (\<lambda>_.
     caseA noop (\<lambda>e. bindA (ignoring noop) (\<lambda>_. fail e)) (\<lambda>_.
     caseA noop (\<lambda>e. bindA (ignoring noop) (\<lambda>_. fail e)) (\<lambda>_.
     if held then bindA (ignoring noop) (\<lambda>_. fail (GoErr ''lock hold by ohter process'')) else ret ())))"

text \<open>\<^verbatim>\<open>e = s.ChangeMember(...)\<close> keeps a returned error; a panic inside of it leaves \<^verbatim>\<open>e\<close> nil.\<close>

fun apply_changes :: "member_env \<Rightarrow> ConfChangeType \<Rightarrow> entity_ChangeMember list \<Rightarrow> (world, unit) act \<Rightarrow> (world, unit) act" where
  "apply_changes me method [] rest = rest"
| "apply_changes me method (cm # cms) rest =
     caseA (ChangeMember me cm)
       (\<lambda>e. case e of GoPanic _ \<Rightarrow> ret () | _ \<Rightarrow> fail e)
       (\<lambda>_. if method = ConfRemoveNode then (\<lambda>w. apply_changes me method cms rest (en_sleep (me_env me) w))
            else apply_changes me method cms rest)"

definition save_replica_num :: "member_env \<Rightarrow> DBModify \<Rightarrow> int \<Rightarrow> (world, unit) act" where
  "save_replica_num me dm dbID w =
     (let en = me_env me in
      thrown (TryLock (me_held me w)) (\<lambda>_ w1.
        case thrown (QuerySpaceByName (en_ks en) (en_sc en) dbID (dm_SpaceName dm)) (\<lambda>space.
             let n = (case dm_Method dm of
                        ConfAddNode \<Rightarrow> sp_ReplicaNum space + 1
                      | ConfRemoveNode \<Rightarrow> sp_ReplicaNum space - 1
                      | ConfOther \<Rightarrow> sp_ReplicaNum space) in
             thrown (UpdateSpaceData en (space\<lparr>sp_ReplicaNum := n\<rparr>)) (\<lambda>_. ret ())) w1 of
          (r, w2) \<Rightarrow> (r, snd (noop w2))) w)"

definition ChangeReplica :: "member_env \<Rightarrow> DBModify \<Rightarrow> (world, unit) act" where
  "ChangeReplica me dm =
     (let en = me_env me in
      thrown (DBServers (en_ks en) (en_nt en) (en_cl en) (en_dc en) (en_vc en) (dm_DbName dm)) (\<lambda>servers.
      thrown (QueryDBName2ID (en_ks en) (en_cl en) (dm_DbName dm)) (\<lambda>dbID.
      thrown (QuerySpaceByName (en_ks en) (en_sc en) dbID (dm_SpaceName dm)) (\<lambda>space.
      if dm_Method dm = ConfAddNode \<and> unat (sp_ReplicaNum space) + 1 > length servers
      then fail (param_err ''ReplicaNum exceeds server size'')
      else apply_changes me (dm_Method dm) (plan_changes (me_sort me) (dm_Method dm) 0 (sp_Partitions space) servers)
             (save_replica_num me dm dbID)))))"

section \<open>What a change of members stores\<close>

lemma config_partitions:
  assumes "handleConfigurationUpdate en sa space temp (Some ps) w = (Inr space', w')"
  shows "sp_Partitions space' = ps"
proof -
  let ?space1 = "space\<lparr>sp_Name := (if sp_Name temp \<noteq> [] then sp_Name temp else sp_Name space),
                   sp_Enabled := (if sp_Enabled temp \<noteq> None then sp_Enabled temp else sp_Enabled space)\<rparr>"
  define space2 where "space2 = ?space1\<lparr>sp_Version := sp_Version ?space1 + 1, sp_Partitions := ps\<rparr>"
  obtain props space3 u where upd: "(if length (sp_Fields temp) > 0 then
         bind_res (detectIndexChangesWithProperties (en_js en) space2 props) (\<lambda>changes.
         bind_res (guard (length changes > 0) (param_err ''index changes are not supported via space update'')) (\<lambda>_.
         updateSpaceFields (en_js en) sa space2 (sp_Fields temp)))
       else Inr space2) = Inr space3"
    and data: "UpdateSpaceData en (space3\<lparr>sp_Version := sp_Version space3 - 1\<rparr>) u = (Inr space', w')"
    using assms unfolding handleConfigurationUpdate_def Let_def option.case space2_def [symmetric] bindA_eq_Inr
    by (elim exE conjE, simp only: lift_def prod.inject, elim conjE) (rule that)
  have "sp_Partitions space3 = ps"
    using upd updateSpaceFields_same(5) by (auto simp: bind_res_Inr_iff space2_def split: if_splits)
  then show ?thesis
    using UpdateSpaceData_Inr(1) [OF data] by (simp add: saved_space_def)
qed

lemma UpdateSpace_config:
  assumes "UpdateSpace en sa dbName spaceName request (Some ps) ''config'' w = (Inr space', w')"
  shows "sp_Partitions space' = ps \<and>
    (\<exists>b. marshal (en_sc en) space' = Inr b \<and> map_of (kv w') (SpaceKey (en_ks en) (sp_DBId space') (sp_Id space')) = Some b)"
proof -
  obtain space u v where run: "handleConfigurationUpdate en sa space request (Some ps) u = (Inr space', v)" "kv w' = kv v"
    using assms unfolding UpdateSpace_def by (elim with_lock_Inr) (auto simp: caseA_fail_Inr)
  have "saves en space (handleConfigurationUpdate en sa space request (Some ps))"
    by (intro save_rules)
  then show ?thesis
    using run config_partitions [OF run(1)] unfolding saves_def by fastforce
qed

lemma new_replicas_Inr:
  assumes "new_replicas cm old = Inr rs"
  shows "cm_NodeID cm \<in> set rs \<longleftrightarrow> cm_Method cm \<noteq> ConfRemoveNode" and "set rs - {cm_NodeID cm} = set old - {cm_NodeID cm}"
  using assms by (auto simp: new_replicas_def split: if_splits)

lemma with_member_Inr:
  assumes "with_member cm space0 = Inr space"
  obtains p rs where "GetPartition space0 (cm_PartitionID cm) = Some p" and "new_replicas cm (pt_Replicas p) = Inr rs"
    and "sp_Partitions space = set_replicas (cm_PartitionID cm) rs (sp_Partitions space0)"
  using assms by (auto simp: with_member_def bind_res_Inr_iff split: option.splits)

lemma created_supported: "create_on_target en space cm target w = (Inr x, w') \<Longrightarrow> cm_Method cm \<in> {ConfAddNode, ConfRemoveNode}"
  by (auto simp: create_on_target_def split: ConfChangeType.splits option.splits)

text \<open>
  C38: what a change of members stores. Whatever calls fail and whatever the servers and other masters do
  meanwhile, when \<^verbatim>\<open>ChangeMember\<close> succeeds the store holds a space whose partitions are those that the space had
  when it was read at the beginning, before any lock was taken, with the node added to or removed
  from the replicas of the one partition and nothing else changed. A partition that another operation
  added to the space in between is therefore lost.
\<close>

theorem ChangeMember_stores:
  assumes "ChangeMember me cm w = (Inr (), w')"
  shows "\<exists>part space0 u1 u2 p rs space' b.
    QueryPartition (en_ks (me_env me)) (en_pc (me_env me)) (cm_PartitionID cm) w = (Inr part, u1)
    \<and> QuerySpaceByID (en_ks (me_env me)) (en_sc (me_env me)) (pt_DBId part) (pt_SpaceId part) u1 = (Inr space0, u2)
    \<and> GetPartition space0 (cm_PartitionID cm) = Some p
    \<and> (cm_NodeID cm \<in> set rs \<longleftrightarrow> cm_Method cm = ConfAddNode) \<and> set rs - {cm_NodeID cm} = set (pt_Replicas p) - {cm_NodeID cm}
    \<and> sp_Partitions space' = set_replicas (cm_PartitionID cm) rs (sp_Partitions space0)
    \<and> marshal (en_sc (me_env me)) space' = Inr b
    \<and> map_of (kv w') (SpaceKey (en_ks (me_env me)) (sp_DBId space') (sp_Id space')) = Some b"
proof -
  let ?en = "me_env me"
  obtain part u1 space0 u2 space dbName target u3 y u4 space' v v' where
    q: "QueryPartition (en_ks ?en) (en_pc ?en) (cm_PartitionID cm) w = (Inr part, u1)"
      "QuerySpaceByID (en_ks ?en) (en_sc ?en) (pt_DBId part) (pt_SpaceId part) u1 = (Inr space0, u2)"
    and wm: "with_member cm space0 = Inr space" and cr: "create_on_target ?en space cm target u3 = (Inr y, u4)"
    and up: "UpdateSpace ?en (me_schema me) dbName (sp_Name space) space (Some (sp_Partitions space)) ''config'' v = (Inr space', v')" "v' = w'"
    using assms unfolding ChangeMember_def Let_def bindA_eq_Inr
    by (elim exE conjE) (simp only: lift_def ret_def prod.inject)
  obtain p rs where p: "GetPartition space0 (cm_PartitionID cm) = Some p" "new_replicas cm (pt_Replicas p) = Inr rs"
      "sp_Partitions space = set_replicas (cm_PartitionID cm) rs (sp_Partitions space0)"
    using wm by (rule with_member_Inr)
  have add: "cm_NodeID cm \<in> set rs \<longleftrightarrow> cm_Method cm = ConfAddNode"
    using new_replicas_Inr(1) [OF p(2)] created_supported [OF cr] by auto
  obtain b where "marshal (en_sc ?en) space' = Inr b" "map_of (kv w') (SpaceKey (en_ks ?en) (sp_DBId space') (sp_Id space')) = Some b"
      "sp_Partitions space' = sp_Partitions space"
    using UpdateSpace_config [OF up(1)] up(2) by blast
  then show ?thesis
    using q p(1,3) add new_replicas_Inr(2) [OF p(2)]
    by (intro exI [of _ part] exI [of _ space0] exI [of _ u1] exI [of _ u2] exI [of _ p] exI [of _ rs] exI [of _ space'] exI [of _ b]) simp
qed

section \<open>The plan of new replicas\<close>

definition planned :: "entity_ChangeMember list \<Rightarrow> 64 word \<Rightarrow> nat" where
  "planned cms n = length (filter (\<lambda>c. cm_NodeID c = n) cms)"

lemma plan_on_add: "plan_on ConfAddNode p s = (if sv_ID s \<in> set (pt_Replicas p) then None else Some (sv_PartitionIds s @ [pt_Id p]))"
  by (simp add: plan_on_def isPartitionIdInSlice_def)

lemma plan_partition_find:
  "plan_partition ConfAddNode p servers =
     map_option (\<lambda>s. (s, sv_PartitionIds s @ [pt_Id p])) (find (\<lambda>s. sv_ID s \<notin> set (pt_Replicas p)) servers)"
  by (induction servers) (simp_all add: plan_on_add)

lemma find_split:
  assumes "find P xs = Some x"
  obtains before after where "xs = before @ x # after" and "\<forall>y\<in>set before. \<not> P y" and "P x"
proof -
  obtain i where i: "i < length xs" "P (xs ! i)" "x = xs ! i" "\<forall>j<i. \<not> P (xs ! j)"
    using assms by (auto simp: find_Some_iff)
  show thesis
    by (rule that [of "take i xs" "drop (Suc i) xs"]) (use i in \<open>auto simp: id_take_nth_drop [symmetric] in_set_conv_nth\<close>)
qed

lemma by_load_weak: "strict_weak (\<lambda>a b. length (sv_PartitionIds a) < length (sv_PartitionIds b)) A"
  by (auto simp: strict_weak_def)

lemma plan_partition_least:
  assumes "go_sort sf" and "by_load = sf (\<lambda>a b. length (sv_PartitionIds a) < length (sv_PartitionIds b)) servers"
    and "plan_partition ConfAddNode p by_load = Some (s, ids)"
  shows "s \<in> set servers" and "sv_ID s \<notin> set (pt_Replicas p)" and "ids = sv_PartitionIds s @ [pt_Id p]"
    and "\<And>t. t \<in> set servers \<Longrightarrow> sv_ID t \<notin> set (pt_Replicas p) \<Longrightarrow> length (sv_PartitionIds s) \<le> length (sv_PartitionIds t)"
proof -
  have "find (\<lambda>s. sv_ID s \<notin> set (pt_Replicas p)) by_load = Some s" and "ids = sv_PartitionIds s @ [pt_Id p]"
    using assms(3) by (auto simp: plan_partition_find)
  then obtain before after where split: "by_load = before @ s # after" "\<forall>t\<in>set before. sv_ID t \<in> set (pt_Replicas p)"
    and "sv_ID s \<notin> set (pt_Replicas p)" "ids = sv_PartitionIds s @ [pt_Id p]"
    by (auto elim: find_split)
  then show "sv_ID s \<notin> set (pt_Replicas p)" "ids = sv_PartitionIds s @ [pt_Id p]"
    by simp_all
  have set: "set by_load = set servers"
    using go_sort.sort_set [OF assms(1)] assms(2) by simp
  then show "s \<in> set servers"
    using split(1) by auto
  have "sorted_wrt (\<lambda>a b. \<not> length (sv_PartitionIds b) < length (sv_PartitionIds a)) by_load"
    unfolding assms(2) by (rule go_sort.sort_sorted [OF assms(1) by_load_weak])
  then show "length (sv_PartitionIds s) \<le> length (sv_PartitionIds t)"
    if "t \<in> set servers" "sv_ID t \<notin> set (pt_Replicas p)" for t
    using that set split by (fastforce simp: sorted_wrt_append)
qed

lemma distinct_sorted_ids:
  assumes "go_sort sf" and "distinct (map sv_ID servers)"
  shows "distinct (map sv_ID (sf lt servers))"
  using assms go_sort.sort_mset [OF assms(1), of lt servers] by (metis mset_map mset_eq_imp_distinct_iff)

definition grown :: "Server \<Rightarrow> 32 word list \<Rightarrow> Server \<Rightarrow> Server" where
  "grown s ids t = (if sv_ID t = sv_ID s then t\<lparr>sv_PartitionIds := ids\<rparr> else t)"

lemma grown_id [simp]: "sv_ID (grown s ids t) = sv_ID t"
  by (simp add: grown_def)

text \<open>What a plan promises of one of its changes.\<close>

definition least_loaded :: "Partition list \<Rightarrow> Server list \<Rightarrow> entity_ChangeMember list \<Rightarrow> entity_ChangeMember \<Rightarrow> bool" where
  "least_loaded ps servers xs cm \<longleftrightarrow>
     (\<exists>p\<in>set ps. \<exists>s\<in>set servers. pt_Id p = cm_PartitionID cm \<and> sv_ID s = cm_NodeID cm \<and> cm_NodeID cm \<notin> set (pt_Replicas p)
        \<and> (\<forall>t\<in>set servers. sv_ID t \<notin> set (pt_Replicas p) \<longrightarrow>
             length (sv_PartitionIds s) + planned xs (sv_ID s) \<le> length (sv_PartitionIds t) + planned xs (sv_ID t)))"

lemma least_loaded_grown:
  assumes "least_loaded ps (map (grown s0 (sv_PartitionIds s0 @ [i])) servers) xs cm" and "distinct (map sv_ID servers)"
    and "s0 \<in> set servers" and "cm_NodeID cm0 = sv_ID s0"
  shows "least_loaded ps servers (cm0 # xs) cm"
proof -
  have load: "length (sv_PartitionIds (grown s0 (sv_PartitionIds s0 @ [i]) t)) + planned xs (sv_ID t)
      = length (sv_PartitionIds t) + planned (cm0 # xs) (sv_ID t)" if "t \<in> set servers" for t
  proof (cases "sv_ID t = sv_ID s0")
    case True
    then have "t = s0"
      using assms(2,3) that by (auto simp: distinct_map inj_on_def)
    then show ?thesis
      using assms(4) by (simp add: grown_def planned_def)
  next
    case False
    then show ?thesis
      using assms(4) by (simp add: grown_def planned_def)
  qed
  obtain p s where ps: "p \<in> set ps" "s \<in> set servers" "pt_Id p = cm_PartitionID cm" "sv_ID s = cm_NodeID cm" "cm_NodeID cm \<notin> set (pt_Replicas p)"
    and least: "\<And>t. t \<in> set servers \<Longrightarrow> sv_ID t \<notin> set (pt_Replicas p) \<Longrightarrow>
      length (sv_PartitionIds (grown s0 (sv_PartitionIds s0 @ [i]) s)) + planned xs (sv_ID s)
        \<le> length (sv_PartitionIds (grown s0 (sv_PartitionIds s0 @ [i]) t)) + planned xs (sv_ID t)"
    using assms(1) by (auto simp: least_loaded_def)
  have "length (sv_PartitionIds s) + planned (cm0 # xs) (sv_ID s) \<le> length (sv_PartitionIds t) + planned (cm0 # xs) (sv_ID t)"
    if "t \<in> set servers" "sv_ID t \<notin> set (pt_Replicas p)" for t
    using least [OF that] unfolding load [OF that(1)] load [OF ps(2)] .
  then show ?thesis
    unfolding least_loaded_def using ps by (intro bexI [of _ p] bexI [of _ s]) simp_all
qed

lemma plan_least:
  assumes "\<forall>i. go_sort (sortf i)" and "distinct (map sv_ID servers)"
    and "plan_changes sortf ConfAddNode i ps servers = xs @ cm # ys"
  shows "least_loaded ps servers xs cm"
  using assms(2,3)
proof (induction ps arbitrary: i servers xs)
  case (Cons p ps)
  define by_load where "by_load = sortf i (\<lambda>a b. length (sv_PartitionIds a) < length (sv_PartitionIds b)) servers"
  have ids: "distinct (map sv_ID by_load)" and set: "set by_load = set servers"
    using distinct_sorted_ids [OF spec [OF assms(1)] Cons.prems(1)] go_sort.sort_set [OF spec [OF assms(1)]] by (simp_all add: by_load_def)
  have same: "least_loaded qs by_load zs c \<longleftrightarrow> least_loaded qs servers zs c" for qs zs c
    by (simp add: least_loaded_def set)
  have more: "least_loaded ps servers zs c \<Longrightarrow> least_loaded (p # ps) servers zs c" for zs c
    by (auto simp: least_loaded_def)
  show ?case
  proof (cases "plan_partition ConfAddNode p by_load")
    case None
    then show ?thesis
      using Cons.IH [OF ids, of "Suc i"] Cons.prems(2) same more by (simp add: by_load_def [symmetric])
  next
    case (Some r)
    obtain s ps' where r: "r = (s, ps')"
      by fastforce
    note least = plan_partition_least [OF spec [OF assms(1)] by_load_def Some [unfolded r]]
    define cm0 where "cm0 = \<lparr> cm_PartitionID = pt_Id p, cm_NodeID = sv_ID s, cm_Method = ConfAddNode \<rparr>"
    have plan: "cm0 # plan_changes sortf ConfAddNode (Suc i) ps (map (grown s ps') by_load) = xs @ cm # ys"
      using Cons.prems(2) Some by (simp add: by_load_def [symmetric] r cm0_def grown_def [abs_def])
    show ?thesis
    proof (cases xs)
      case Nil
      then show ?thesis
        using plan least by (auto simp: least_loaded_def cm0_def planned_def)
    next
      case later: (Cons x xs')
      then have tail: "plan_changes sortf ConfAddNode (Suc i) ps (map (grown s ps') by_load) = xs' @ cm # ys" and x: "x = cm0"
        using plan by simp_all
      have "distinct (map sv_ID (map (grown s ps') by_load))"
        using ids by (simp add: comp_def)
      then have "least_loaded ps (map (grown s ps') by_load) xs' cm"
        using tail by (rule Cons.IH)
      then have "least_loaded ps by_load (cm0 # xs') cm"
        unfolding least(3) by (rule least_loaded_grown) (use ids set least(1) in \<open>simp_all add: cm0_def\<close>)
      then show ?thesis
        using later x same more by simp
    qed
  qed
qed simp

lemma plan_partition_exists:
  assumes "go_sort sf" and "s \<in> set servers" and "sv_ID s \<notin> set (pt_Replicas p)"
  shows "plan_partition ConfAddNode p (sf lt servers) \<noteq> None"
proof -
  have "s \<in> set (sf lt servers)"
    using assms(2) go_sort.sort_set [OF assms(1)] by simp
  then show ?thesis
    using assms(3) by (auto simp: plan_partition_find find_None_iff)
qed

lemma plan_ids:
  assumes "\<forall>i. go_sort (sortf i)" and "\<forall>p\<in>set ps. \<exists>s\<in>set servers. sv_ID s \<notin> set (pt_Replicas p)"
  shows "map cm_PartitionID (plan_changes sortf ConfAddNode i ps servers) = map pt_Id ps"
  using assms(2)
proof (induction ps arbitrary: i servers)
  case (Cons p ps)
  define by_load where "by_load = sortf i (\<lambda>a b. length (sv_PartitionIds a) < length (sv_PartitionIds b)) servers"
  obtain s where "s \<in> set servers" "sv_ID s \<notin> set (pt_Replicas p)"
    using Cons.prems by auto
  then obtain s' ids where some: "plan_partition ConfAddNode p by_load = Some (s', ids)"
    using plan_partition_exists [OF spec [OF assms(1)]] unfolding by_load_def by fastforce
  have set: "set by_load = set servers"
    using go_sort.sort_set [OF spec [OF assms(1)]] by (simp add: by_load_def)
  have "\<forall>p\<in>set ps. \<exists>t\<in>set (map (grown s' ids) by_load). sv_ID t \<notin> set (pt_Replicas p)"
    using Cons.prems set by simp
  from Cons.IH [OF this, of "Suc i"] show ?case
    using some by (simp add: by_load_def [symmetric] grown_def [abs_def])
qed simp

text \<open>
  C39: the plan of \<^verbatim>\<open>ChangeReplica\<close> for one more replica. When every partition is missing on some server of the
  database, the plan has exactly one change for every partition, in their order, and each of them goes to
  a server that does not have the partition yet and has the fewest partitions among those, counting
  the replicas that were planned before it.
\<close>

theorem replica_plan_is_greedy:
  assumes "\<forall>i. go_sort (sortf i)" and "distinct (map sv_ID servers)"
    and "\<forall>p\<in>set ps. \<exists>s\<in>set servers. sv_ID s \<notin> set (pt_Replicas p)"
  shows "map cm_PartitionID (plan_changes sortf ConfAddNode 0 ps servers) = map pt_Id ps
    \<and> (\<forall>xs cm ys. plan_changes sortf ConfAddNode 0 ps servers = xs @ cm # ys \<longrightarrow> least_loaded ps servers xs cm)"
  using plan_ids [OF assms(1,3)] plan_least [OF assms(1,2)] by blast

definition demo_server :: "64 word \<Rightarrow> 32 word list \<Rightarrow> Server" where
  "demo_server n ids = new_server\<lparr>sv_ID := n, sv_PartitionIds := ids\<rparr>"

theorem replica_plan_is_greedy_witness:
  "map cm_PartitionID (plan_changes (\<lambda>_. insertion_sort) ConfAddNode 0
      [zero_partition\<lparr>pt_Id := 5, pt_Replicas := [1]\<rparr>, zero_partition\<lparr>pt_Id := 6, pt_Replicas := [2]\<rparr>]
      [demo_server 1 [5], demo_server 2 [6, 7], demo_server 3 [8]]) = [5, 6]"
proof -
  have "go_sort (insertion_sort :: (Server \<Rightarrow> Server \<Rightarrow> bool) \<Rightarrow> Server list \<Rightarrow> Server list)"
    by (rule insertion.go_sort_axioms)
  then show ?thesis
    using replica_plan_is_greedy [of "\<lambda>_. insertion_sort" "[demo_server 1 [5], demo_server 2 [6, 7], demo_server 3 [8]]"
        "[zero_partition\<lparr>pt_Id := 5, pt_Replicas := [1]\<rparr>, zero_partition\<lparr>pt_Id := 6, pt_Replicas := [2]\<rparr>]"]
    by (simp add: demo_server_def del: plan_changes.simps)
qed

section \<open>Errors that are not reported\<close>

text \<open>
  C40: \<^verbatim>\<open>ChangeReplica\<close> reports success when it could not even find the database. In a run without faults, for a
  database name that is not a number and is not stored, it returns nil and has changed nothing:
  the error is thrown as a panic and the handler that catches it does not set the result.
\<close>

theorem ChangeReplica_hides_missing_database:
  assumes "calm w" and "\<not> IsNum (en_nt (me_env me)) (dm_DbName dm)"
    and "map_of (kv w) (DBKeyName (en_ks (me_env me)) (dm_DbName dm)) = None"
  shows "\<exists>w'. ChangeReplica me dm w = (Inr (), w') \<and> kv w' = kv w"
proof -
  have "\<exists>e w'. DBServers (en_ks (me_env me)) (en_nt (me_env me)) (en_cl (me_env me)) (en_dc (me_env me)) (en_vc (me_env me)) (dm_DbName dm) w
      = (Inl e, w') \<and> kv w' = kv w"
    using assms by (simp add: DBServers_def QueryServers_def QueryDB_def db_number_def QueryDBName2ID_def bindA_def ret_def fail_def calm_simps)
  then obtain e w' where "DBServers (en_ks (me_env me)) (en_nt (me_env me)) (en_cl (me_env me)) (en_dc (me_env me)) (en_vc (me_env me)) (dm_DbName dm) w
      = (Inl e, w')" "kv w' = kv w"
    by blast
  then show ?thesis
    by (simp add: ChangeReplica_def Let_def thrown_def)
qed

text \<open>
  A cluster for examples. A partition is one character of the record of its space. While the
  leader changes the members of partition 5, another master adds partition 6 to the space.
\<close>

definition demo_space_of :: "string \<Rightarrow> Space" where
  "demo_space_of t = empty_space\<lparr>sp_Name := ''s'', sp_DBId := 1,
     sp_Partitions := map (\<lambda>c. zero_partition\<lparr>pt_Id := of_char c\<rparr>) t\<rparr>"

definition demo_member_env :: member_env where
  "demo_member_env =
     \<lparr> me_env = demo_env\<lparr>en_sc := \<lparr> marshal = (\<lambda>s. Inr (map (\<lambda>p. char_of (unat (pt_Id p))) (sp_Partitions s))), unmarshal = (\<lambda>_ t. Inr (demo_space_of t)) \<rparr>,
         en_pc := \<lparr> marshal = (\<lambda>_. Inr ''p''), unmarshal = (\<lambda>_ _. Inr (zero_partition\<lparr>pt_Id := 5, pt_DBId := 1, pt_LeaderID := 7\<rparr>)) \<rparr>,
         en_create := (\<lambda>_ _ _. ret ())\<rparr>,
       me_schema = demo_arrays,
       me_raft = (\<lambda>_ _. Put (SpaceKey default_key_space 1 0) [CHR 0x05, CHR 0x06]),
       me_sort = (\<lambda>_. insertion_sort), me_held = (\<lambda>_. False), me_add = (\<lambda>_. fail (GoErr [])), me_list = ret [],
       me_remove = (\<lambda>_. ret ()), me_sync = ret () \<rparr>"

definition demo_member_world :: world where
  "demo_member_world =
     \<lparr> kv = [(DBKeyName default_key_space ''db'', ''1''), (DBKeyId default_key_space 1, ''db''),
             (PartitionKey default_key_space 5, ''p''), (PartitionKey default_key_space 6, ''p''), (ServerKey default_key_space 7, ''v''),
             (SpaceKey default_key_space 1 0, [CHR 0x05])], faults = [] \<rparr>"

definition demo_add :: entity_ChangeMember where
  "demo_add = \<lparr> cm_PartitionID = 5, cm_NodeID = 7, cm_Method = ConfAddNode \<rparr>"

lemma demo_changed:
  "(case ChangeMember demo_member_env demo_add demo_member_world of
      (r, w) \<Rightarrow> r = Inr () \<and> map_of (kv w) (SpaceKey default_key_space 1 0) = Some [CHR 0x05])"
  by code_simp

theorem ChangeMember_stores_witness:
  "\<exists>w' rs space' b. ChangeMember demo_member_env demo_add demo_member_world = (Inr (), w') \<and> (7 :: 64 word) \<in> set rs
    \<and> marshal (en_sc (me_env demo_member_env)) space' = Inr b
    \<and> map_of (kv w') (SpaceKey default_key_space (sp_DBId space') (sp_Id space')) = Some b"
proof -
  obtain w' where run: "ChangeMember demo_member_env demo_add demo_member_world = (Inr (), w')"
    using demo_changed by (cases "ChangeMember demo_member_env demo_add demo_member_world") auto
  have "en_ks (me_env demo_member_env) = default_key_space" "cm_NodeID demo_add = 7" "cm_Method demo_add = ConfAddNode"
    by (simp_all add: demo_member_env_def demo_env_def demo_add_def)
  then show ?thesis
    using ChangeMember_stores [OF run] run by auto
qed

text \<open>
  A change of members loses a partition. The space has partition 5; while the leader of it adds a replica, another
  master stores the space with a new partition 6. \<^verbatim>\<open>ChangeMember\<close> succeeds, and afterwards the space
  has only partition 5 again.
\<close>

theorem ChangeMember_loses_partition:
  "\<exists>w'. ChangeMember demo_member_env demo_add demo_member_world = (Inr (), w')
    \<and> map_of (kv (snd (me_raft demo_member_env [] demo_add demo_member_world))) (SpaceKey default_key_space 1 0) = Some [CHR 0x05, CHR 0x06]
    \<and> map_of (kv w') (SpaceKey default_key_space 1 0) = Some [CHR 0x05]"
proof -
  have "map_of (kv (snd (me_raft demo_member_env [] demo_add demo_member_world))) (SpaceKey default_key_space 1 0) = Some [CHR 0x05, CHR 0x06]"
    by (simp add: demo_member_env_def demo_member_world_def calm_simps calm_def update_conv')
  then show ?thesis
    using demo_changed by (cases "ChangeMember demo_member_env demo_add demo_member_world") auto
qed

theorem ChangeReplica_hides_missing_database_witness:
  "\<exists>w'. ChangeReplica demo_member_env \<lparr> dm_DbName = ''nodb'', dm_SpaceName = ''s'', dm_IPAddr = [], dm_Method = ConfAddNode \<rparr> demo_member_world
     = (Inr (), w') \<and> kv w' = kv demo_member_world"
  by (rule ChangeReplica_hides_missing_database) code_simp+

end
