(* ===== verification/Spec2Isabelle.thy ===== *)
theory Spec2Isabelle
  imports Meta Access Bytes Entities PartitionRules SpaceRouting IndexRules Store DistLock Registry
    AccessServices MasterClient MasterRequests Number DBService RefCount ShardBackup SearchMerge
    Placement SpaceService SpaceUpdate IndexService BufAlloc SortOrder
    MemberService
begin

text \<open>
  A verification library for vearch, a distributed vector database.

  \<^bold>\<open>The program.\<close> A cluster has three kinds of processes. \<^emph>\<open>Masters\<close> keep the metadata (databases, spaces,
  partitions, servers, users, roles, aliases) in etcd and change it under distributed locks
  (\<^verbatim>\<open>internal/master\<close>). \<^emph>\<open>Partition servers\<close> hold the replicas of the partitions, each with a C++ engine behind a
  raft group (\<^verbatim>\<open>internal/ps\<close>). \<^emph>\<open>Routers\<close> find the partition of a document by the slot of its key,
  send searches to all partitions and merge the answers (\<^verbatim>\<open>internal/router\<close>, \<^verbatim>\<open>internal/client\<close>). The
  library covers the Go code in which these parts decide something: keys, validation, routing,
  placement, the services of the master, the merge of results, and backup.

  \<^bold>\<open>How the code is modelled.\<close> A Go function is a function on values; an error or a panic is a value of
  \<open>go_error\<close> on the left of a sum (\<open>res\<close>, theory \<open>Prelude\<close>). Code with effects is a function from a state
  to a result and a new state (\<open>act\<close>, theory \<open>Store\<close>): for the services of the master the state is \<open>world\<close>, the
  content of etcd and the faults of the calls to come; a call can be lost, or take effect and
  still report an error. Go maps are association lists, since iteration order is observable.
  \<^verbatim>\<open>uint32\<close> and \<^verbatim>\<open>uint64\<close> are words, \<^verbatim>\<open>int\<close> is an integer with the wrap (\<open>int64\<close>) where it can occur.
  JSON codecs, RPC calls, clocks, \<^verbatim>\<open>sort.Slice\<close> and the object store are parameters, of which a property
  assumes only what is documented (for instance the locale \<open>go_sort\<close>, interpreted by insertion sort).

  \<^bold>\<open>The theories.\<close>
  \<^item> \<open>Prelude\<close>, \<open>GoLib\<close>: results, maps, words, strings, numbers, floats and sorting of Go.
  \<^item> \<open>Meta\<close>, \<open>Access\<close>, \<open>Entities\<close>, \<open>PartitionRules\<close>, \<open>IndexRules\<close> (\<^verbatim>\<open>internal/entity\<close>): keys, roles and privileges, spaces and
    partitions, range rules, schema and index validation. Keys of different kinds do not meet; the
    checks accept exactly what they should, and merging keeps one index per field.
  \<^item> \<open>Bytes\<close>, \<open>Number\<close>, \<open>BufAlloc\<close> (\<^verbatim>\<open>internal/pkg\<close>): encodings with their round trips and orders; the pooled byte buffer, which
    refines a plain queue of bytes for all sequences of operations.
  \<^item> \<open>SpaceRouting\<close> (\<^verbatim>\<open>entity/space.go\<close>): slots, the binary search of \<^verbatim>\<open>PartitionId\<close>, range routing. Every hash is
    routed to the one owner of its slot.
  \<^item> \<open>Store\<close>, \<open>DistLock\<close>, \<open>Frames\<close> (\<^verbatim>\<open>master/store\<close>): the key-value operations with faults, transactions, unique ids; the lock as a step
    relation with mutual exclusion, and the runs in which a failed call breaks it; rules for what an operation keeps.
  \<^item> \<open>Registry\<close>, \<open>AccessServices\<close>, \<open>DBService\<close>, \<open>MemberService\<close> (\<^verbatim>\<open>master/services\<close>): the contract of a service on named records as the locale \<open>registry\<close>,
    interpreted for users, roles and aliases; databases, whose three kinds of keys stay consistent whatever fails; members and replicas.
  \<^item> \<open>Placement\<close>, \<open>SpaceService\<close>, \<open>SpaceUpdate\<close>, \<open>IndexService\<close> (\<^verbatim>\<open>space_service.go\<close>): the choice of servers, creation, deletion and update of spaces, and
    the index changes that are sent to all partitions and undone on failure. A created or expanded space routes every hash,
    replicas go to the least loaded servers, and other spaces are left alone.
  \<^item> \<open>MasterClient\<close>, \<open>MasterRequests\<close> (\<^verbatim>\<open>client/master.go\<close>): queries, and requests that try one master after the other.
  \<^item> \<open>SearchMerge\<close> (\<^verbatim>\<open>client/client.go\<close>), \<open>SortOrder\<close> (\<^verbatim>\<open>ps/engine/sortorder\<close>): the merge of the partitions' answers gives the globally best
    items; comparison by sort keys is an order on values of one kind in the exact range, and what goes wrong outside of it.
  \<^item> \<open>RefCount\<close>, \<open>ShardBackup\<close> (\<^verbatim>\<open>ps/backup\<close>): reference counts of backed up files, snapshot and restore of a shard.

  \<^bold>\<open>Bounds and fuel.\<close> Loops over data are structural. Binary searches have a measure. The wait for new partitions polls \<open>en_polls\<close>
  times, after which its context is cancelled; the search for a leader tries ten times, as in the code. Loops that can run
  forever are partial functions into \<open>option\<close> (\<open>RegisterRouter\<close>, the lock inside \<open>RefCount\<close>); reading a stream returns \<open>None\<close> only when
  the answers of the reader are used up, and a property shows that it returns for every stream that ends.

  \<^bold>\<open>Not modelled.\<close> The C++ engine, the generated protobuf and flatbuffer code and the raft library are not Go code of the repository's own. The HTTP and
  RPC handlers (\<^verbatim>\<open>cluster_api.go\<close>, \<^verbatim>\<open>handler_admin.go\<close>, \<^verbatim>\<open>handler_document.go\<close>, the router's \<^verbatim>\<open>document\<close> package) translate messages; caches and watches
  (\<^verbatim>\<open>master_cache.go\<close>) hold copies of the metadata; the master's backup service, the server, partition and configuration services and the
  scheduled jobs are left out, as are configuration, logging, metrics and debugging. Operations that only describe a space
  (\<^verbatim>\<open>DescribeSpace\<close>, \<^verbatim>\<open>ListIndexes\<close>) are left out too. Running out of memory, and the times of leases other than
  as events of the lock relation, are not part of the model.
\<close>

end
